(* ===== verification/Prelude.thy ===== *)
theory Prelude
  imports Main "HOL-Library.List_Lexorder" "HOL-Library.Char_ord" "HOL-Library.Product_Lexorder"
begin

text \<open>
  Shared vocabulary of the development: the exceptions of the C++ code as values, the result
  type every fallible function returns, 64-bit wrap-around, the parts of \<open>std::string\<close> and of
  the decimal conversions the sources use, and an ordered association list that stands for
  \<open>std::map\<close> (the locale \<open>ordered_map\<close> states what its clients rely on).
\<close>

named_theorems result_simps \<open>how bindE, mapE and catchE evaluate\<close>
named_theorems i64_intros \<open>when a 64-bit operation does not wrap\<close>

section \<open>Exceptions and results\<close>

text \<open>
  One constructor per exception class the program throws or lets escape. The classes of
  nlohmann::json carry their numeric id; all of them derive from \<open>std::exception\<close> and none
  from \<open>std::invalid_argument\<close> or \<open>std::runtime_error\<close>, which decides which handler sees them.
\<close>

datatype exn =
    Invalid_argument string
  | Overflow_error string
  | Runtime_error string
  | Json_type_error nat string
  | Json_out_of_range nat string
  | Json_parse_error nat string

type_synonym 'a result = "exn + 'a"

fun what :: "exn \<Rightarrow> string" where
  "what (Invalid_argument s) = s"
| "what (Overflow_error s) = s"
| "what (Runtime_error s) = s"
| "what (Json_type_error _ s) = s"
| "what (Json_out_of_range _ s) = s"
| "what (Json_parse_error _ s) = s"

definition bindE :: "'a result \<Rightarrow> ('a \<Rightarrow> 'b result) \<Rightarrow> 'b result" where
  "bindE m f = (case m of Inl e \<Rightarrow> Inl e | Inr x \<Rightarrow> f x)"

definition catchE :: "'a result \<Rightarrow> (exn \<Rightarrow> 'a result) \<Rightarrow> 'a result" where
  "catchE m h = (case m of Inl e \<Rightarrow> h e | Inr x \<Rightarrow> Inr x)"

definition requireE :: "bool \<Rightarrow> exn \<Rightarrow> unit result" where
  "requireE b e = (if b then Inr () else Inl e)"

fun mapE :: "('a \<Rightarrow> 'b result) \<Rightarrow> 'a list \<Rightarrow> 'b list result" where
  "mapE f [] = Inr []"
| "mapE f (x # xs) = bindE (f x) (\<lambda>y. bindE (mapE f xs) (\<lambda>ys. Inr (y # ys)))"

text \<open>A loop over a list that threads a state and stops at the first exception.\<close>

fun foldE :: "('a \<Rightarrow> 's \<Rightarrow> 's result) \<Rightarrow> 'a list \<Rightarrow> 's \<Rightarrow> 's result" where
  "foldE f [] s = Inr s"
| "foldE f (x # xs) s = bindE (f x s) (foldE f xs)"

lemma bindE_Inl [simp, result_simps]: "bindE (Inl e) f = Inl e"
  by (simp add: bindE_def)

lemma bindE_Inr [simp, result_simps]: "bindE (Inr x) f = f x"
  by (simp add: bindE_def)

lemma catchE_Inl [simp, result_simps]: "catchE (Inl e) h = h e"
  by (simp add: catchE_def)

lemma catchE_Inr [simp, result_simps]: "catchE (Inr x) h = Inr x"
  by (simp add: catchE_def)

lemma requireE_True [simp, result_simps]: "requireE True e = Inr ()"
  by (simp add: requireE_def)

lemma requireE_False [simp, result_simps]: "requireE False e = Inl e"
  by (simp add: requireE_def)

lemma requireE_eq_Inr [simp]: "requireE b e = Inr u \<longleftrightarrow> b"
  by (cases b) auto

lemma requireE_eq_Inl [simp]: "requireE b e = Inl e' \<longleftrightarrow> \<not> b \<and> e' = e"
  by (cases b) auto

lemma bindE_eq_Inr: "bindE m f = Inr y \<longleftrightarrow> (\<exists>x. m = Inr x \<and> f x = Inr y)"
  by (cases m) auto

lemma bindE_eq_Inl: "bindE m f = Inl e \<longleftrightarrow> m = Inl e \<or> (\<exists>x. m = Inr x \<and> f x = Inl e)"
  by (cases m) auto

lemma bindE_assoc: "bindE (bindE m f) g = bindE m (\<lambda>x. bindE (f x) g)"
  by (cases m) auto

lemma bindE_cong [fundef_cong]:
  "m = m' \<Longrightarrow> (\<And>x. m' = Inr x \<Longrightarrow> f x = f' x) \<Longrightarrow> bindE m f = bindE m' f'"
  by (cases m') auto

lemma mapE_cong [fundef_cong]:
  "xs = ys \<Longrightarrow> (\<And>x. x \<in> set ys \<Longrightarrow> f x = g x) \<Longrightarrow> mapE f xs = mapE g ys"
  by (induction xs arbitrary: ys) (auto simp: bindE_def split: sum.splits)

lemma mapE_eq_Inr: "mapE f xs = Inr ys \<longleftrightarrow> list_all2 (\<lambda>x y. f x = Inr y) xs ys"
proof (induction xs arbitrary: ys)
  case Nil
  then show ?case by auto
next
  case (Cons x xs)
  then show ?case by (cases ys) (auto simp: bindE_eq_Inr)
qed

lemma foldE_cong [fundef_cong]:
  "xs = ys \<Longrightarrow> s = t \<Longrightarrow> (\<And>x s. x \<in> set ys \<Longrightarrow> f x s = g x s) \<Longrightarrow> foldE f xs s = foldE g ys t"
proof (induction xs arbitrary: ys s t)
  case (Cons x xs)
  have "foldE f xs u = foldE g xs u" for u using Cons by auto
  then show ?case using Cons.prems by (auto intro!: bindE_cong)
qed auto

lemma foldE_append: "foldE f (xs @ ys) s = bindE (foldE f xs s) (foldE f ys)"
  by (induction xs arbitrary: s) (auto simp: bindE_def split: sum.splits)

lemma foldE_Inr:
  "(\<And>x s. x \<in> set xs \<Longrightarrow> f x s = Inr (g x s)) \<Longrightarrow> foldE f xs s = Inr (fold g xs s)"
  by (induction xs arbitrary: s) auto

lemma foldE_concat: "foldE (\<lambda>x. foldE f (g x)) xs s = foldE f (concat (map g xs)) s"
  by (induction xs arbitrary: s) (auto simp: foldE_append bindE_def split: sum.splits)

text \<open>\<open>fails_with P m\<close>: if \<open>m\<close> throws, what it throws satisfies \<open>P\<close>.\<close>

definition fails_with :: "(exn \<Rightarrow> bool) \<Rightarrow> 'a result \<Rightarrow> bool" where
  "fails_with P m \<longleftrightarrow> (\<forall>e. m = Inl e \<longrightarrow> P e)"

named_theorems fails_intros \<open>what an operation can throw\<close>

lemma fails_with_Inr [simp, fails_intros]: "fails_with P (Inr x)"
  by (simp add: fails_with_def)

lemma fails_with_Inl [simp]: "fails_with P (Inl e) \<longleftrightarrow> P e"
  by (simp add: fails_with_def)

lemma fails_with_bindE [fails_intros]:
  "fails_with P m \<Longrightarrow> (\<And>x. m = Inr x \<Longrightarrow> fails_with P (f x)) \<Longrightarrow> fails_with P (bindE m f)"
  by (auto simp: fails_with_def bindE_eq_Inl)

lemma fails_with_requireE [simp]: "fails_with P (requireE b e) \<longleftrightarrow> b \<or> P e"
  by (cases b) auto

lemma fails_with_mapE [fails_intros]:
  "(\<And>x. x \<in> set xs \<Longrightarrow> fails_with P (f x)) \<Longrightarrow> fails_with P (mapE f xs)"
  by (induction xs) (auto intro!: fails_with_bindE)

lemma fails_with_foldE [fails_intros]:
  "(\<And>x s. x \<in> set xs \<Longrightarrow> fails_with P (f x s)) \<Longrightarrow> fails_with P (foldE f xs s)"
  by (induction xs arbitrary: s) (auto intro!: fails_with_bindE)

lemma mapE_length: "mapE f xs = Inr ys \<Longrightarrow> length ys = length xs"
  by (auto simp: mapE_eq_Inr dest: list_all2_lengthD)

lemma mapE_append:
  "mapE f (xs @ ys) = bindE (mapE f xs) (\<lambda>us. bindE (mapE f ys) (\<lambda>vs. Inr (us @ vs)))"
  by (induction xs) (auto simp: bindE_def split: sum.splits)

lemma mapE_Inr_set:
  "mapE f xs = Inr ys \<Longrightarrow> y \<in> set ys \<Longrightarrow> \<exists>x \<in> set xs. f x = Inr y"
  by (fastforce simp: mapE_eq_Inr list_all2_conv_all_nth in_set_conv_nth)

section \<open>64-bit signed integers\<close>

text \<open>
  \<open>Cents\<close> is \<open>std::int64_t\<close>. A value is an \<open>int\<close>; every arithmetic operation of the code is
  wrapped by \<open>i64\<close>, the two's-complement value the machine would hold, so that "no overflow" is
  something to prove (signed overflow is undefined in C++; the theorems show it does not occur).
\<close>

type_synonym cents = int

definition i64_max :: int where
  "i64_max = 9223372036854775807"

definition i64_min :: int where
  "i64_min = - 9223372036854775808"

definition i64 :: "int \<Rightarrow> int" where
  "i64 x = (x + 9223372036854775808) mod 18446744073709551616 - 9223372036854775808"

lemma i64_id [i64_intros]: "i64_min \<le> x \<Longrightarrow> x \<le> i64_max \<Longrightarrow> i64 x = x"
  by (simp add: i64_def i64_min_def i64_max_def)

lemma i64_nonneg_id [i64_intros]: "0 \<le> x \<Longrightarrow> x \<le> i64_max \<Longrightarrow> i64 x = x"
  by (simp add: i64_def i64_max_def)

lemma i64_range: "i64_min \<le> i64 x \<and> i64 x \<le> i64_max"
proof -
  have "0 \<le> (x + 9223372036854775808) mod 18446744073709551616"
    and "(x + 9223372036854775808) mod 18446744073709551616 < 18446744073709551616"
    by simp_all
  then show ?thesis unfolding i64_def i64_min_def i64_max_def by linarith
qed

definition int_max :: int where
  "int_max = 2147483647"

text \<open>C++ integer division and remainder truncate towards zero.\<close>

definition c_div :: "int \<Rightarrow> int \<Rightarrow> int" where
  "c_div a b = sgn a * sgn b * (\<bar>a\<bar> div \<bar>b\<bar>)"

definition c_mod :: "int \<Rightarrow> int \<Rightarrow> int" where
  "c_mod a b = a - c_div a b * b"

lemma c_div_nonneg [simp]: "0 \<le> a \<Longrightarrow> 0 < b \<Longrightarrow> c_div a b = a div b"
  by (cases "a = 0") (auto simp: c_div_def)

lemma c_mod_nonneg [simp]: "0 \<le> a \<Longrightarrow> 0 < b \<Longrightarrow> c_mod a b = a mod b"
  by (simp add: c_mod_def minus_div_mult_eq_mod)

lemma le_div_iff_mult_le: "0 < b \<Longrightarrow> r \<le> m div b \<longleftrightarrow> r * b \<le> m" for b r m :: int
proof
  assume b: "0 < b" and "r \<le> m div b"
  then have "r * b \<le> m div b * b" by (intro mult_right_mono) simp_all
  also have "\<dots> \<le> m" using b pos_mod_sign [of b m] div_mult_mod_eq [of m b] by linarith
  finally show "r * b \<le> m" .
next
  assume b: "0 < b" and "r * b \<le> m"
  then have "r * b div b \<le> m div b" by (intro zdiv_mono1)
  then show "r \<le> m div b" using b by simp
qed

lemma i64_0 [simp]: "i64 0 = 0"
  by (simp add: i64_def)

section \<open>Decimal conversion\<close>

text \<open>\<open>std::to_string\<close> and the \<open>%lld\<close>/\<open>%02lld\<close> conversions.\<close>

definition digit_char :: "int \<Rightarrow> char" where
  "digit_char d = char_of (48 + d)"

function dec_str :: "int \<Rightarrow> string" where
  "dec_str n = (if n < 10 then [digit_char n] else dec_str (n div 10) @ [digit_char (n mod 10)])"
  by pat_completeness auto
termination
  by (relation "measure nat") auto

declare dec_str.simps [simp del]

definition int_str :: "int \<Rightarrow> string" where
  "int_str i = (if i < 0 then ''-'' @ dec_str (- i) else dec_str i)"

definition two_digits :: "int \<Rightarrow> string" where
  "two_digits n = (if n < 10 then ''0'' @ dec_str n else dec_str n)"

definition digit_val :: "char \<Rightarrow> int" where
  "digit_val c = of_char c - 48"

fun digits_val :: "int \<Rightarrow> string \<Rightarrow> int" where
  "digits_val acc [] = acc"
| "digits_val acc (c # cs) = digits_val (10 * acc + digit_val c) cs"

definition is_digit :: "char \<Rightarrow> bool" where
  "is_digit c \<longleftrightarrow> 48 \<le> (of_char c :: int) \<and> (of_char c :: int) \<le> 57"

lemma digit_char_simps [simp]:
  "digit_char 0 = CHR ''0''" "digit_char 1 = CHR ''1''" "digit_char 2 = CHR ''2''"
  "digit_char 3 = CHR ''3''" "digit_char 4 = CHR ''4''" "digit_char 5 = CHR ''5''"
  "digit_char 6 = CHR ''6''" "digit_char 7 = CHR ''7''" "digit_char 8 = CHR ''8''"
  "digit_char 9 = CHR ''9''"
  by code_simp+

lemma digit_val_digit_char [simp]: "0 \<le> d \<Longrightarrow> d < 10 \<Longrightarrow> digit_val (digit_char d) = d"
  by (simp add: digit_val_def digit_char_def)

lemma is_digit_digit_char [simp]: "0 \<le> d \<Longrightarrow> d < 10 \<Longrightarrow> is_digit (digit_char d)"
  by (simp add: is_digit_def digit_char_def)

lemma is_digit_distinct [simp]:
  "\<not> is_digit CHR ''-''" "\<not> is_digit CHR ''.''" "\<not> is_digit CHR '',''" "\<not> is_digit CHR 0x22"
  "\<not> is_digit CHR 0x0A" "\<not> is_digit CHR 0x0D" "is_digit CHR ''0''"
  by code_simp+

lemma digits_val_append: "digits_val acc (xs @ ys) = digits_val (digits_val acc xs) ys"
  by (induction xs arbitrary: acc) auto

lemma dec_str_nonempty [simp]: "dec_str n \<noteq> []"
  by (subst dec_str.simps) simp

lemma digits_val_dec_str [simp]: "0 \<le> n \<Longrightarrow> digits_val 0 (dec_str n) = n"
proof (induction n rule: dec_str.induct)
  case (1 n)
  show ?case
  proof (cases "n < 10")
    case True
    with 1 show ?thesis by (simp add: dec_str.simps [of n])
  next
    case False
    with 1 have "digits_val 0 (dec_str n) = 10 * (n div 10) + n mod 10"
      by (simp add: dec_str.simps [of n] digits_val_append)
    then show ?thesis by simp
  qed
qed

lemma dec_str_digits: "0 \<le> n \<Longrightarrow> list_all is_digit (dec_str n)"
proof (induction n rule: dec_str.induct)
  case (1 n)
  then show ?case
    by (cases "n < 10") (simp_all add: dec_str.simps [of n])
qed

lemma dec_str_inj: "0 \<le> m \<Longrightarrow> 0 \<le> n \<Longrightarrow> dec_str m = dec_str n \<longleftrightarrow> m = n"
  using digits_val_dec_str by metis

lemma two_digits_length: "0 \<le> n \<Longrightarrow> n < 100 \<Longrightarrow> length (two_digits n) = 2"
  by (auto simp: two_digits_def dec_str.simps [of n] dec_str.simps [of "n div 10"])

lemma two_digits_val [simp]: "0 \<le> n \<Longrightarrow> digits_val 0 (two_digits n) = n"
  using digit_val_digit_char [of 0] by (auto simp: two_digits_def)

lemma two_digits_digits: "0 \<le> n \<Longrightarrow> list_all is_digit (two_digits n)"
  using dec_str_digits [of n] by (auto simp: two_digits_def)

section \<open>Byte strings\<close>

text \<open>A \<open>std::string\<close> is a list of bytes; the functions below are the members the code calls.\<close>

definition starts_with :: "string \<Rightarrow> string \<Rightarrow> bool" where
  "starts_with p s \<longleftrightarrow> take (length p) s = p"

fun find_char :: "char \<Rightarrow> string \<Rightarrow> nat option" where
  "find_char c [] = None"
| "find_char c (x # xs) = (if x = c then Some 0 else map_option Suc (find_char c xs))"

text \<open>\<open>s.find(c, from)\<close>, with \<open>None\<close> for \<open>npos\<close>.\<close>

definition find_char_from :: "char \<Rightarrow> string \<Rightarrow> nat \<Rightarrow> nat option" where
  "find_char_from c s i = map_option (\<lambda>k. i + k) (find_char c (drop i s))"

text \<open>\<open>s.find(pat)\<close> for a string pattern.\<close>

fun find_str :: "string \<Rightarrow> string \<Rightarrow> nat option" where
  "find_str p s = (if starts_with p s then Some 0
     else (case s of [] \<Rightarrow> None | _ # s' \<Rightarrow> map_option Suc (find_str p s')))"

declare find_str.simps [simp del]

definition substr :: "string \<Rightarrow> nat \<Rightarrow> nat \<Rightarrow> string" where
  "substr s pos n = take n (drop pos s)"

text \<open>What \<open>sqlite3_bind_text(..., s.c_str(), -1, ...)\<close> sees: the bytes before the first NUL.\<close>

definition c_str :: "string \<Rightarrow> string" where
  "c_str s = takeWhile (\<lambda>c. c \<noteq> CHR 0x00) s"

lemma c_str_id: "CHR 0x00 \<notin> set s \<Longrightarrow> c_str s = s"
  unfolding c_str_def by (rule takeWhile_eq_all_conv [THEN iffD2]) auto

lemma find_char_None: "find_char c s = None \<longleftrightarrow> c \<notin> set s"
  by (induction s) auto

lemma find_char_Some:
  "find_char c s = Some k \<Longrightarrow> k < length s \<and> s ! k = c \<and> c \<notin> set (take k s)"
  by (induction s arbitrary: k) (auto split: if_splits)

lemma find_char_append: "c \<notin> set xs \<Longrightarrow> find_char c (xs @ c # ys) = Some (length xs)"
  by (induction xs) auto

text \<open>
  \<open>strtoul(s, nullptr, 10)\<close> with a 64-bit \<open>unsigned long\<close>: leading white space and a sign are
  skipped, the digits read, the value saturated and a negated one wrapped; no digits give 0.
\<close>

definition ulong_max :: int where
  "ulong_max = 18446744073709551615"

definition is_space :: "char \<Rightarrow> bool" where
  "is_space c \<longleftrightarrow> c = CHR '' '' \<or> (9 \<le> (of_char c :: int) \<and> (of_char c :: int) \<le> 13)"

definition strtoul :: "string \<Rightarrow> int" where
  "strtoul s =
     (let s1 = dropWhile is_space s;
          neg = (s1 \<noteq> [] \<and> hd s1 = CHR ''-'');
          s2 = (if s1 \<noteq> [] \<and> (hd s1 = CHR ''-'' \<or> hd s1 = CHR ''+'') then tl s1 else s1);
          v = digits_val 0 (takeWhile is_digit s2) in
      if ulong_max < v then ulong_max else if neg then (- v) mod (ulong_max + 1) else v)"

text \<open>Cutting a string at every occurrence of a character (at least one piece).\<close>

fun split_at :: "char \<Rightarrow> string \<Rightarrow> string list" where
  "split_at c [] = [[]]"
| "split_at c (x # xs) =
     (if x = c then [] # split_at c xs
      else (case split_at c xs of [] \<Rightarrow> [[x]] | p # ps \<Rightarrow> (x # p) # ps))"

lemma split_at_nonempty [simp]: "split_at c s \<noteq> []"
  by (induction s) (auto split: list.splits)

lemma split_at_single: "c \<notin> set s \<Longrightarrow> split_at c s = [s]"
  by (induction s) auto

lemma split_at_append: "c \<notin> set s \<Longrightarrow> split_at c (s @ c # t) = s # split_at c t"
  by (induction s) auto

fun join_with :: "string \<Rightarrow> string list \<Rightarrow> string" where
  "join_with sep [] = []"
| "join_with sep [s] = s"
| "join_with sep (s # ss) = s @ sep @ join_with sep ss"

definition CRLF :: string where
  "CRLF = [CHR 0x0D, CHR 0x0A]"

section \<open>std::map\<close>

text \<open>
  A \<open>std::map\<close> is the list of its entries in key order. \<open>omap_put\<close> is \<open>m[k] = v\<close>;
  \<open>omap_upd\<close> is the idiom \<open>m[k].add(...)\<close>, which default-constructs a missing entry first.
\<close>

fun omap_put :: "'k::linorder \<Rightarrow> 'v \<Rightarrow> ('k \<times> 'v) list \<Rightarrow> ('k \<times> 'v) list" where
  "omap_put k v [] = [(k, v)]"
| "omap_put k v (e # es) =
     (if fst e < k then e # omap_put k v es
      else if fst e = k then (k, v) # es else (k, v) # e # es)"

definition omap_get :: "('k \<times> 'v) list \<Rightarrow> 'k \<Rightarrow> 'v option" where
  "omap_get m k = map_of m k"

definition omap_upd :: "'k::linorder \<Rightarrow> 'v \<Rightarrow> ('v \<Rightarrow> 'v) \<Rightarrow> ('k \<times> 'v) list \<Rightarrow> ('k \<times> 'v) list" where
  "omap_upd k d f m = omap_put k (f (case omap_get m k of None \<Rightarrow> d | Some v \<Rightarrow> v)) m"

definition omap_inv :: "('k::linorder \<times> 'v) list \<Rightarrow> bool" where
  "omap_inv m \<longleftrightarrow> sorted_wrt (<) (map fst m)"

text \<open>What a client of \<open>std::map\<close> relies on.\<close>

locale ordered_map =
  fixes empty :: "'m"
    and put :: "'k::linorder \<Rightarrow> 'v \<Rightarrow> 'm \<Rightarrow> 'm"
    and get :: "'m \<Rightarrow> 'k \<Rightarrow> 'v option"
    and entries :: "'m \<Rightarrow> ('k \<times> 'v) list"
    and ok :: "'m \<Rightarrow> bool"
  assumes get_empty: "get empty k = None"
    and get_put: "get (put k v m) k' = (if k' = k then Some v else get m k')"
    and ok_empty: "ok empty"
    and ok_put: "ok m \<Longrightarrow> ok (put k v m)"
    and entries_get: "ok m \<Longrightarrow> get m k = Some v \<longleftrightarrow> (k, v) \<in> set (entries m)"
    and entries_sorted: "ok m \<Longrightarrow> sorted_wrt (<) (map fst (entries m))"
begin

text \<open>Inserting a list of entries one after the other: the last write of a key wins.\<close>

lemma get_fold_put:
  "get (fold (\<lambda>(k, v). put k v) es m) k =
     (case map_of (rev es) k of None \<Rightarrow> get m k | Some v \<Rightarrow> Some v)"
proof (induction es arbitrary: m)
  case Nil
  then show ?case by simp
next
  case (Cons e es)
  then show ?case
    by (cases e) (auto simp: get_put map_add_def split: option.splits)
qed

lemma ok_fold_put: "ok m \<Longrightarrow> ok (fold (\<lambda>(k, v). put k v) es m)"
  by (induction es arbitrary: m) (auto simp: ok_put)

lemma entries_distinct: "ok m \<Longrightarrow> distinct (map fst (entries m))"
  using entries_sorted strict_sorted_iff by blast

text \<open>
  Aggregation: folding \<open>m[key x] = f x (m[key x], default d)\<close> over a list leaves, under every
  key, the fold of the elements that carry it.
\<close>

lemma get_fold_aggregate:
  "get (fold (\<lambda>x m. put (key x) (f x (case get m (key x) of None \<Rightarrow> d | Some v \<Rightarrow> v)) m) xs m) k =
     (if \<exists>x \<in> set xs. key x = k
      then Some (fold f (filter (\<lambda>x. key x = k) xs) (case get m k of None \<Rightarrow> d | Some v \<Rightarrow> v))
      else get m k)"
proof (induction xs arbitrary: m)
  case Nil
  then show ?case by simp
next
  case (Cons x xs)
  then show ?case by (cases "key x = k") (simp_all add: get_put)
qed

lemma ok_fold_aggregate:
  "ok m \<Longrightarrow> ok (fold (\<lambda>x m. put (key x) (f x (case get m (key x) of None \<Rightarrow> d | Some v \<Rightarrow> v)) m) xs m)"
  by (induction xs arbitrary: m) (auto simp: ok_put)

end

lemma omap_get_put: "omap_get (omap_put k v m) k' = (if k' = k then Some v else omap_get m k')"
  by (induction m) (auto simp: omap_get_def)

lemma omap_put_keys: "set (map fst (omap_put k v m)) = insert k (set (map fst m))"
  by (induction m) auto

lemma omap_inv_Cons: "omap_inv (e # es) \<longleftrightarrow> (\<forall>x \<in> set (map fst es). fst e < x) \<and> omap_inv es"
  by (auto simp: omap_inv_def)

lemma omap_inv_put: "omap_inv m \<Longrightarrow> omap_inv (omap_put k v m)"
proof (induction m)
  case Nil
  then show ?case by (simp add: omap_inv_def)
next
  case (Cons e es)
  then show ?case
    using omap_put_keys [of k v es]
    by (auto simp: omap_inv_Cons)
qed

lemma omap_inv_distinct: "omap_inv m \<Longrightarrow> distinct (map fst m)"
  unfolding omap_inv_def using strict_sorted_iff by blast

interpretation omap: ordered_map "[]" omap_put omap_get "\<lambda>m. m" omap_inv
proof unfold_locales
  show "omap_get [] k = None" for k :: 'a
    by (simp add: omap_get_def)
  show "omap_get (omap_put k v m) k' = (if k' = k then Some v else omap_get m k')"
    for k k' :: 'a and v :: 'b and m
    by (rule omap_get_put)
  show "omap_inv ([] :: ('a \<times> 'b) list)"
    by (simp add: omap_inv_def)
  show "omap_inv m \<Longrightarrow> omap_inv (omap_put k v m)" for k :: 'a and v :: 'b and m
    by (rule omap_inv_put)
  show "omap_inv m \<Longrightarrow> omap_get m k = Some v \<longleftrightarrow> (k, v) \<in> set m" for k :: 'a and v :: 'b and m
    by (simp add: omap_get_def omap_inv_distinct)
  show "omap_inv m \<Longrightarrow> sorted_wrt (<) (map fst m)" for m :: "('a \<times> 'b) list"
    by (simp add: omap_inv_def)
qed

end
