(* ===== verification/Doubles.thy ===== *)
theory Doubles
  imports Prelude Complex_Main
begin

text \<open>
  The C++ type \<open>double\<close>: IEEE 754 binary64 with round-to-nearest-even, as far as the program
  observes it. A finite value is the rational it denotes; \<open>rnd\<close> is the correctly rounded
  value of a rational (53 significant bits, exponent from -1074, overflow to infinity), and
  every arithmetic operation is the exact result followed by \<open>rnd\<close>. The sign of zero is not
  kept: no operation of the program distinguishes the two zeros (it neither divides by a
  double nor prints a negative zero sum). The lemmas bound the rounding error, which is what
  the conversions from rupees to paise rest on.
\<close>

datatype dbl = Fin rat | PInf | NInf | NaN

section \<open>Powers of two and binary logarithm\<close>

definition pow2 :: "int \<Rightarrow> rat" where
  "pow2 e = (if 0 \<le> e then 2 ^ nat e else 1 / 2 ^ nat (- e))"

lemma pow2_powi: "pow2 e = 2 powi e"
  unfolding pow2_def power_int_def by (auto simp: power_inverse divide_simps)

lemma pow2_pos [simp]: "0 < pow2 e"
  by (simp add: pow2_def)

lemma pow2_nonneg [simp]: "0 \<le> pow2 e"
  by (simp add: pow2_def)

lemma pow2_nonzero [simp]: "pow2 e \<noteq> 0"
  using pow2_pos [of e] by linarith

lemma pow2_add: "pow2 (a + b) = pow2 a * pow2 b"
  by (simp add: pow2_powi power_int_add)

lemma pow2_diff: "pow2 (a - b) = pow2 a / pow2 b"
  using pow2_add [of "a - b" b] by (simp add: field_simps)

lemma pow2_mono: "a \<le> b \<Longrightarrow> pow2 a \<le> pow2 b"
  by (simp add: pow2_powi power_int_increasing)

lemma pow2_less_cancel: "pow2 a < pow2 b \<Longrightarrow> a < b"
  using pow2_mono [of b a] by (metis linorder_not_le)

lemma pow2_0 [simp]: "pow2 0 = 1"
  by (simp add: pow2_def)

lemma pow2_1 [simp]: "pow2 1 = 2"
  by (simp add: pow2_def)

lemma pow2_of_int: "0 \<le> e \<Longrightarrow> pow2 e = of_int (2 ^ nat e)"
  by (simp add: pow2_def)

function blen :: "int \<Rightarrow> int" where
  "blen n = (if n \<le> 0 then 0 else 1 + blen (n div 2))"
  by pat_completeness auto
termination
  by (relation "measure nat") auto

declare blen.simps [simp del]

lemma blen_nonneg: "0 \<le> blen n"
  by (induction n rule: blen.induct) (subst blen.simps, simp)

lemma blen_bounds: "0 < n \<Longrightarrow> pow2 (blen n - 1) \<le> of_int n \<and> of_int n < pow2 (blen n)"
proof (induction n rule: blen.induct)
  case (1 n)
  show ?case
  proof (cases "n = 1")
    case True
    then show ?thesis by (simp add: blen.simps)
  next
    case False
    define h where "h = n div 2"
    with 1 False have "0 < h" and "pow2 (blen h - 1) \<le> of_int h" and "of_int h < pow2 (blen h)"
      by auto
    moreover have "2 * h \<le> n" and "n \<le> 2 * h + 1" by (simp_all add: h_def)
    ultimately have lo: "2 * pow2 (blen h - 1) \<le> of_int n" by linarith
    have "of_int h + (1 :: rat) \<le> pow2 (blen h)"
    proof -
      have "h < 2 ^ nat (blen h)"
        using \<open>of_int h < pow2 (blen h)\<close> blen_nonneg [of h] by (simp add: pow2_of_int del: of_int_power)
      then have "of_int (h + 1) \<le> (of_int (2 ^ nat (blen h)) :: rat)"
        by (simp only: of_int_le_iff)
      then show ?thesis using blen_nonneg [of h] by (simp add: pow2_of_int)
    qed
    moreover have "of_int n \<le> 2 * of_int h + (1 :: rat)" using \<open>n \<le> 2 * h + 1\<close> by linarith
    ultimately have hi: "of_int n < 2 * pow2 (blen h)" by linarith
    have "blen n = 1 + blen h"
      using 1 False by (simp add: blen.simps [of n] h_def)
    moreover have "pow2 (1 + blen h) = 2 * pow2 (blen h)"
      and "pow2 (blen h) = 2 * pow2 (blen h - 1)"
      by (simp_all add: pow2_add [of 1 "blen h"] pow2_diff)
    ultimately show ?thesis using lo hi by simp
  qed
qed

definition ilog2 :: "rat \<Rightarrow> int" where
  "ilog2 q = (if 1 \<le> q then blen \<lfloor>q\<rfloor> - 1 else - blen (\<lceil>1 / q\<rceil> - 1))"

lemma ilog2_bounds:
  assumes "0 < q"
  shows "pow2 (ilog2 q) \<le> q" and "q < pow2 (ilog2 q + 1)"
proof -
  have "pow2 (ilog2 q) \<le> q \<and> q < pow2 (ilog2 q + 1)"
  proof (cases "1 \<le> q")
    case True
    then have "0 < \<lfloor>q\<rfloor>" by linarith
    note b = blen_bounds [OF this]
    have "\<lfloor>q\<rfloor> < 2 ^ nat (blen \<lfloor>q\<rfloor>)"
      using b blen_nonneg [of "\<lfloor>q\<rfloor>"] by (simp add: pow2_of_int del: of_int_power)
    then have "of_int (\<lfloor>q\<rfloor> + 1) \<le> (of_int (2 ^ nat (blen \<lfloor>q\<rfloor>)) :: rat)"
      by (simp only: of_int_le_iff)
    then have "of_int \<lfloor>q\<rfloor> + 1 \<le> pow2 (blen \<lfloor>q\<rfloor>)"
      using blen_nonneg [of "\<lfloor>q\<rfloor>"] by (simp add: pow2_of_int)
    moreover have "of_int \<lfloor>q\<rfloor> \<le> q" and "q < of_int \<lfloor>q\<rfloor> + 1" by linarith+
    moreover have "ilog2 q = blen \<lfloor>q\<rfloor> - 1" using True by (simp add: ilog2_def)
    ultimately show ?thesis using b by (simp, linarith)
  next
    case False
    define m where "m = \<lceil>1 / q\<rceil> - 1"
    have "1 < 1 / q" using False assms by (simp add: field_simps)
    then have "0 < m" unfolding m_def by linarith
    note b = blen_bounds [OF this]
    have up: "of_int m < 1 / q" and lo: "1 / q \<le> of_int m + 1"
      unfolding m_def by linarith+
    have "m < 2 ^ nat (blen m)"
      using b blen_nonneg [of m] by (simp add: pow2_of_int del: of_int_power)
    then have "of_int (m + 1) \<le> (of_int (2 ^ nat (blen m)) :: rat)"
      by (simp only: of_int_le_iff)
    then have "of_int m + 1 \<le> pow2 (blen m)"
      using blen_nonneg [of m] by (simp add: pow2_of_int)
    with lo have "1 / q \<le> pow2 (blen m)" by linarith
    then have 1: "1 / pow2 (blen m) \<le> q" using assms by (simp add: field_simps)
    from b up have "pow2 (blen m - 1) < 1 / q" by linarith
    then have 2: "q < 1 / pow2 (blen m - 1)" using assms by (simp add: field_simps)
    have "pow2 (- blen m) = 1 / pow2 (blen m)" and "pow2 (1 - blen m) = 1 / pow2 (blen m - 1)"
      using pow2_diff [of 0 "blen m"] pow2_diff [of 0 "blen m - 1"] by simp_all
    with 1 2 False show ?thesis by (simp add: ilog2_def m_def)
  qed
  then show "pow2 (ilog2 q) \<le> q" and "q < pow2 (ilog2 q + 1)" by auto
qed

section \<open>Rounding\<close>

text \<open>Nearest integer, ties to even; and \<open>std::llround\<close>, ties away from zero.\<close>

definition rne :: "rat \<Rightarrow> int" where
  "rne x = (let f = \<lfloor>x\<rfloor>; r = x - of_int f in
     if r < 1 / 2 then f else if 1 / 2 < r then f + 1 else if even f then f else f + 1)"

definition llround :: "rat \<Rightarrow> int" where
  "llround x = (if x < 0 then - \<lfloor>1 / 2 - x\<rfloor> else \<lfloor>x + 1 / 2\<rfloor>)"

lemma rne_err: "\<bar>of_int (rne x) - x\<bar> \<le> 1 / 2"
proof -
  have "of_int \<lfloor>x\<rfloor> \<le> x" and "x < of_int \<lfloor>x\<rfloor> + 1" by linarith+
  then show ?thesis by (auto simp: rne_def Let_def abs_le_iff)
qed

lemma rne_of_int [simp]: "rne (of_int n) = n"
  by (simp add: rne_def)

lemma llround_near: "\<bar>x - of_int n\<bar> < 1 / 2 \<Longrightarrow> llround x = n"
  unfolding llround_def by (cases "x < 0") (simp_all only: if_True if_False, linarith+)

text \<open>The exponent of the last kept bit, and the rounded value with unbounded exponent.\<close>

definition ulp_exp :: "rat \<Rightarrow> int" where
  "ulp_exp q = max (ilog2 \<bar>q\<bar> - 52) (- 1074)"

definition rnd_val :: "rat \<Rightarrow> rat" where
  "rnd_val q = (if q = 0 then 0
     else of_int (rne (q / pow2 (ulp_exp q))) * pow2 (ulp_exp q))"

definition rnd :: "rat \<Rightarrow> dbl" where
  "rnd q = (let v = rnd_val q in
     if pow2 1024 \<le> \<bar>v\<bar> then (if 0 < q then PInf else NInf) else Fin v)"

lemma rnd_val_err_ulp: "\<bar>rnd_val q - q\<bar> \<le> pow2 (ulp_exp q) / 2"
proof (cases "q = 0")
  case True
  then show ?thesis by (simp add: rnd_val_def)
next
  case False
  let ?u = "pow2 (ulp_exp q)"
  have "\<bar>of_int (rne (q / ?u)) - q / ?u\<bar> * ?u \<le> 1 / 2 * ?u"
    by (intro mult_right_mono rne_err) simp
  moreover have "\<bar>of_int (rne (q / ?u)) - q / ?u\<bar> * ?u = \<bar>of_int (rne (q / ?u)) * ?u - q\<bar>"
    by (simp add: abs_mult_pos left_diff_distrib)
  ultimately show ?thesis using False by (simp add: rnd_val_def)
qed

lemma rnd_val_err:
  assumes "pow2 (- 1022) \<le> \<bar>q\<bar>"
  shows "\<bar>rnd_val q - q\<bar> \<le> \<bar>q\<bar> / 2 ^ 53"
proof -
  have pos: "0 < \<bar>q\<bar>" using assms pow2_pos [of "- 1022"] by linarith
  have "pow2 (- 1022) < pow2 (ilog2 \<bar>q\<bar> + 1)"
    using assms ilog2_bounds(2) [OF pos] by linarith
  then have "- 1022 \<le> ilog2 \<bar>q\<bar>" using pow2_less_cancel by fastforce
  then have e: "ulp_exp q = ilog2 \<bar>q\<bar> - 52" by (simp add: ulp_exp_def)
  have "pow2 (ulp_exp q) = pow2 (ilog2 \<bar>q\<bar>) / 2 ^ 52"
    unfolding e pow2_diff by (simp add: pow2_def [of 52])
  then have "pow2 (ulp_exp q) / 2 \<le> \<bar>q\<bar> / 2 ^ 53"
    using ilog2_bounds(1) [OF pos] by simp
  then show ?thesis using rnd_val_err_ulp [of q] by linarith
qed

lemma rnd_Fin: "\<bar>rnd_val q\<bar> < pow2 1024 \<Longrightarrow> rnd q = Fin (rnd_val q)"
  by (simp add: rnd_def Let_def)

lemma pow2_huge: "10 ^ 300 \<le> pow2 1024"
  by (simp add: pow2_def)

lemma pow2_tiny: "pow2 (- 1022) \<le> 1 / 10 ^ 300"
  by (simp add: pow2_def)

text \<open>The working form: away from the extremes of the range, the relative error is \<open>2 ^ -53\<close>.\<close>

lemma rnd_rel:
  assumes "1 / 10 ^ 300 \<le> \<bar>q\<bar>" and "\<bar>q\<bar> \<le> 10 ^ 299"
  obtains v where "rnd q = Fin v" and "\<bar>v - q\<bar> \<le> \<bar>q\<bar> / 2 ^ 53"
proof
  have err: "\<bar>rnd_val q - q\<bar> \<le> \<bar>q\<bar> / 2 ^ 53"
    using assms(1) pow2_tiny by (intro rnd_val_err) linarith
  moreover have "\<bar>q\<bar> / 2 ^ 53 \<le> \<bar>q\<bar>" by (simp add: field_simps)
  ultimately have "\<bar>rnd_val q\<bar> \<le> 2 * \<bar>q\<bar>" by linarith
  also have "\<dots> \<le> 2 * 10 ^ 299" using assms(2) by simp
  also have "\<dots> < (10 ^ 300 :: rat)" by simp
  also have "\<dots> \<le> pow2 1024" by (rule pow2_huge)
  finally show "rnd q = Fin (rnd_val q)" by (rule rnd_Fin)
  show "\<bar>rnd_val q - q\<bar> \<le> \<bar>q\<bar> / 2 ^ 53" by (rule err)
qed

lemma rnd_0 [simp]: "rnd 0 = Fin 0"
  using rnd_Fin [of 0] by (simp add: rnd_val_def)

lemma rnd_of_int:
  assumes "\<bar>n\<bar> < 2 ^ 53"
  shows "rnd (of_int n) = Fin (of_int n)"
proof (cases "n = 0")
  case True
  then show ?thesis by simp
next
  case False
  let ?q = "of_int n :: rat"
  have pos: "0 < \<bar>?q\<bar>" and one: "1 \<le> \<bar>?q\<bar>" using False by simp_all
  have "\<bar>?q\<bar> < of_int (2 ^ 53)" using assms by (simp only: of_int_abs [symmetric] of_int_less_iff)
  then have small: "\<bar>?q\<bar> < pow2 53" by (simp add: pow2_def)
  then have "pow2 (ilog2 \<bar>?q\<bar>) < pow2 53" using ilog2_bounds(1) [OF pos] by linarith
  then have hi: "ilog2 \<bar>?q\<bar> \<le> 52" using pow2_less_cancel by fastforce
  have "pow2 0 < pow2 (ilog2 \<bar>?q\<bar> + 1)" using one ilog2_bounds(2) [OF pos] by simp
  then have lo: "0 \<le> ilog2 \<bar>?q\<bar>" using pow2_less_cancel by fastforce
  define k where "k = nat (52 - ilog2 \<bar>?q\<bar>)"
  have e: "ulp_exp ?q = - int k" using hi lo by (simp add: ulp_exp_def k_def)
  have p: "pow2 (- int k) = 1 / 2 ^ k" by (simp add: pow2_def)
  have "?q / pow2 (ulp_exp ?q) = of_int (n * 2 ^ k)" unfolding e p by simp
  then have "rne (?q / pow2 (ulp_exp ?q)) = n * 2 ^ k" by (simp only: rne_of_int)
  then have v: "rnd_val ?q = ?q" using False unfolding rnd_val_def e p by simp
  moreover have "\<bar>rnd_val ?q\<bar> < pow2 1024"
    using v small pow2_mono [of 53 1024] by simp
  ultimately show ?thesis using rnd_Fin [of ?q] by simp
qed

lemma rnd_not_NaN: "rnd q \<noteq> NaN"
  by (simp add: rnd_def Let_def)

lemma rne_nonneg: "0 \<le> x \<Longrightarrow> 0 \<le> rne x"
  by (auto simp: rne_def Let_def)

lemma rnd_val_nonneg: "0 \<le> q \<Longrightarrow> 0 \<le> rnd_val q"
  by (simp add: rnd_val_def rne_nonneg)

lemma rnd_nonneg_cases: "0 \<le> q \<Longrightarrow> rnd q = PInf \<or> (\<exists>w. rnd q = Fin w \<and> 0 \<le> w)"
  using rnd_val_nonneg [of q] rnd_0 by (cases "q = 0") (auto simp: rnd_def Let_def)

section \<open>Operations\<close>

text \<open>
  Multiplication is only used on two finite operands (its callers test \<open>isfinite\<close> first);
  addition sums quantities.
\<close>

definition isfinite :: "dbl \<Rightarrow> bool" where
  "isfinite d \<longleftrightarrow> (case d of Fin _ \<Rightarrow> True | _ \<Rightarrow> False)"

fun dmul :: "dbl \<Rightarrow> dbl \<Rightarrow> dbl" where
  "dmul (Fin a) (Fin b) = rnd (a * b)"
| "dmul NaN _ = NaN"
| "dmul _ NaN = NaN"
| "dmul (Fin a) d = (if a = 0 then NaN else if (0 < a) = (d = PInf) then PInf else NInf)"
| "dmul d (Fin a) = (if a = 0 then NaN else if (0 < a) = (d = PInf) then PInf else NInf)"
| "dmul d e = (if d = e then PInf else NInf)"

fun dadd :: "dbl \<Rightarrow> dbl \<Rightarrow> dbl" where
  "dadd (Fin a) (Fin b) = rnd (a + b)"
| "dadd NaN _ = NaN"
| "dadd _ NaN = NaN"
| "dadd (Fin a) d = d"
| "dadd d (Fin a) = d"
| "dadd d e = (if d = e then d else NaN)"

fun dlt :: "dbl \<Rightarrow> dbl \<Rightarrow> bool" where
  "dlt (Fin a) (Fin b) = (a < b)"
| "dlt NaN _ = False"
| "dlt _ NaN = False"
| "dlt NInf d = (d \<noteq> NInf)"
| "dlt d PInf = (d \<noteq> PInf)"
| "dlt _ _ = False"

definition deq :: "dbl \<Rightarrow> dbl \<Rightarrow> bool" where
  "deq a b \<longleftrightarrow> a \<noteq> NaN \<and> a = b"

definition dle :: "dbl \<Rightarrow> dbl \<Rightarrow> bool" where
  "dle a b \<longleftrightarrow> dlt a b \<or> deq a b"

lemma isfinite_simps [simp]:
  "isfinite (Fin a)" "\<not> isfinite PInf" "\<not> isfinite NInf" "\<not> isfinite NaN"
  by (simp_all add: isfinite_def)

lemma deq_Fin [simp]: "deq (Fin a) (Fin b) \<longleftrightarrow> a = b"
  by (simp add: deq_def)

lemma dle_Fin [simp]: "dle (Fin a) (Fin b) \<longleftrightarrow> a \<le> b"
  by (auto simp: dle_def)

text \<open>
  \<open>printf\<close> conversions. \<open>%.2f\<close> prints the exact value rounded (ties to even) to two
  decimals; the callers print into a 32-byte buffer, so at most 31 characters survive.
\<close>

definition fmt_f2 :: "dbl \<Rightarrow> string" where
  "fmt_f2 d = (case d of
      Fin q \<Rightarrow> (let n = rne (\<bar>q\<bar> * 100) in
        (if q < 0 then ''-'' else []) @ dec_str (n div 100) @ ''.'' @ two_digits (n mod 100))
    | PInf \<Rightarrow> ''inf'' | NInf \<Rightarrow> ''-inf'' | NaN \<Rightarrow> ''nan'')"

text \<open>
  \<open>%.6g\<close>: six significant digits of the exact value (ties to even), in fixed notation when the
  decimal exponent is between -4 and 5 and in scientific notation otherwise, trailing zeros
  dropped. \<open>dec_exp\<close> is the decimal exponent of a positive double (none is below 10^-330).
\<close>

definition dec_exp :: "rat \<Rightarrow> int" where
  "dec_exp a = (if 1 \<le> a then int (length (dec_str \<lfloor>a\<rfloor>)) - 1
     else int (length (dec_str \<lfloor>a * 10 ^ 330\<rfloor>)) - 331)"

definition pow10 :: "int \<Rightarrow> rat" where
  "pow10 e = (if 0 \<le> e then 10 ^ nat e else 1 / 10 ^ nat (- e))"

definition sig6 :: "rat \<Rightarrow> int \<times> int" where
  "sig6 a = (let e = dec_exp a; m = rne (a * pow10 (5 - e)) in
     if m = 1000000 then (100000, e + 1) else (m, e))"

definition strip_zeros :: "string \<Rightarrow> string" where
  "strip_zeros s = rev (dropWhile (\<lambda>c. c = CHR ''0'') (rev s))"

definition with_fraction :: "string \<Rightarrow> string \<Rightarrow> string" where
  "with_fraction w f = (let f' = strip_zeros f in if f' = [] then w else w @ ''.'' @ f')"

definition fmt_g6_pos :: "rat \<Rightarrow> string" where
  "fmt_g6_pos a = (case sig6 a of (m, e) \<Rightarrow> let ds = dec_str m in
     if 0 \<le> e \<and> e < 6 then with_fraction (take (nat e + 1) ds) (drop (nat e + 1) ds)
     else if - 4 \<le> e \<and> e < 0 then with_fraction ''0'' (replicate (nat (- e) - 1) CHR ''0'' @ ds)
     else with_fraction (take 1 ds) (drop 1 ds) @ ''e'' @ (if e < 0 then ''-'' else ''+'') @ two_digits \<bar>e\<bar>)"

definition fmt_g6 :: "dbl \<Rightarrow> string" where
  "fmt_g6 d = (case d of
      Fin q \<Rightarrow> (if q = 0 then ''0'' else if q < 0 then ''-'' @ fmt_g6_pos (- q) else fmt_g6_pos q)
    | PInf \<Rightarrow> ''inf'' | NInf \<Rightarrow> ''-inf'' | NaN \<Rightarrow> ''nan'')"

text \<open>
  The conversion of a double to a signed or unsigned 64-bit integer truncates; out of range it is
  undefined in C++, and the model takes the value of the x86-64 instruction (\<open>INT64_MIN\<close>) for the
  signed one and no value for the unsigned one.
\<close>

definition d_trunc :: "rat \<Rightarrow> int" where
  "d_trunc q = (if q < 0 then - \<lfloor>- q\<rfloor> else \<lfloor>q\<rfloor>)"

definition d_to_i64 :: "dbl \<Rightarrow> int" where
  "d_to_i64 d = (case d of
      Fin q \<Rightarrow> (if i64_min \<le> d_trunc q \<and> d_trunc q \<le> i64_max then d_trunc q else i64_min)
    | _ \<Rightarrow> i64_min)"

definition d_to_size :: "dbl \<Rightarrow> int option" where
  "d_to_size d = (case d of
      Fin q \<Rightarrow> (if 0 \<le> d_trunc q \<and> d_trunc q < 18446744073709551616 then Some (d_trunc q) else None)
    | _ \<Rightarrow> None)"

end
