(* ===== verification/Json_Value.thy ===== *)
theory Json_Value
  imports Doubles
begin

text \<open>
  The values of the vendored nlohmann::json (backend/include/json.hpp) and the members of
  \<open>basic_json\<close> the program calls, with the exceptions they throw. An object is a
  \<open>std::map\<close>, so its entries are kept in key order (\<open>wf_json\<close>); \<open>jfind\<close> is \<open>find(key)\<close>,
  from which \<open>contains\<close> and the const \<open>operator[]\<close> (always guarded by \<open>contains\<close> in the
  sources) are read off. The binary and discarded kinds never occur in the program.
\<close>

datatype json =
    JNull
  | JObject "(string \<times> json) list"
  | JArray "json list"
  | JString string
  | JBool bool
  | JInt int
  | JUInt int
  | JFloat dbl

section \<open>Inspection\<close>

fun is_object :: "json \<Rightarrow> bool" where
  "is_object (JObject _) = True"
| "is_object _ = False"

fun is_array :: "json \<Rightarrow> bool" where
  "is_array (JArray _) = True"
| "is_array _ = False"

fun is_string :: "json \<Rightarrow> bool" where
  "is_string (JString _) = True"
| "is_string _ = False"

fun is_boolean :: "json \<Rightarrow> bool" where
  "is_boolean (JBool _) = True"
| "is_boolean _ = False"

fun is_number_integer :: "json \<Rightarrow> bool" where
  "is_number_integer (JInt _) = True"
| "is_number_integer (JUInt _) = True"
| "is_number_integer _ = False"

fun is_number_float :: "json \<Rightarrow> bool" where
  "is_number_float (JFloat _) = True"
| "is_number_float _ = False"

definition is_number :: "json \<Rightarrow> bool" where
  "is_number j \<longleftrightarrow> is_number_integer j \<or> is_number_float j"

fun type_name :: "json \<Rightarrow> string" where
  "type_name JNull = ''null''"
| "type_name (JObject _) = ''object''"
| "type_name (JArray _) = ''array''"
| "type_name (JString _) = ''string''"
| "type_name (JBool _) = ''boolean''"
| "type_name (JInt _) = ''number''"
| "type_name (JUInt _) = ''number''"
| "type_name (JFloat _) = ''number''"

definition type_error :: "nat \<Rightarrow> string \<Rightarrow> exn" where
  "type_error n w =
     Json_type_error n (''[json.exception.type_error.'' @ int_str (int n) @ ''] '' @ w)"

definition out_of_range :: "nat \<Rightarrow> string \<Rightarrow> exn" where
  "out_of_range n w =
     Json_out_of_range n (''[json.exception.out_of_range.'' @ int_str (int n) @ ''] '' @ w)"

section \<open>Element access\<close>

definition jfind :: "json \<Rightarrow> string \<Rightarrow> json option" where
  "jfind j k = (case j of JObject es \<Rightarrow> omap_get es k | _ \<Rightarrow> None)"

definition jcontains :: "json \<Rightarrow> string \<Rightarrow> bool" where
  "jcontains j k \<longleftrightarrow> jfind j k \<noteq> None"

definition key_not_found :: "string \<Rightarrow> exn" where
  "key_not_found k = out_of_range 403 (''key '' @ [CHR 0x27] @ k @ [CHR 0x27] @ '' not found'')"

definition jat :: "json \<Rightarrow> string \<Rightarrow> json result" where
  "jat j k =
     (if \<not> is_object j then Inl (type_error 304 (''cannot use at() with '' @ type_name j))
      else case jfind j k of
        None \<Rightarrow> Inl (key_not_found k)
      | Some v \<Rightarrow> Inr v)"

text \<open>\<open>begin()..end()\<close> of an object, and the elements of an array.\<close>

fun items :: "json \<Rightarrow> (string \<times> json) list" where
  "items (JObject es) = es"
| "items _ = []"

fun elems :: "json \<Rightarrow> json list" where
  "elems (JArray xs) = xs"
| "elems _ = []"

text \<open>
  The non-const \<open>operator[](key)\<close> used as a read: on null it yields an object, on an object a
  missing key reads as a freshly inserted null, on anything else it throws.
\<close>

definition jindex_mut :: "json \<Rightarrow> string \<Rightarrow> json result" where
  "jindex_mut j k =
     (if j = JNull then Inr JNull
      else if is_object j then Inr (case jfind j k of None \<Rightarrow> JNull | Some v \<Rightarrow> v)
      else Inl (type_error 305 (''cannot use operator[] with a string argument with '' @ type_name j)))"

text \<open>Writing through it: \<open>j[k] = v\<close> on an object or on null.\<close>

fun jset :: "json \<Rightarrow> string \<Rightarrow> json \<Rightarrow> json" where
  "jset (JObject es) k v = JObject (omap_put k v es)"
| "jset _ k v = JObject [(k, v)]"

section \<open>Conversions\<close>

fun get_string :: "json \<Rightarrow> string result" where
  "get_string (JString s) = Inr s"
| "get_string j = Inl (type_error 302 (''type must be string, but is '' @ type_name j))"

fun get_bool :: "json \<Rightarrow> bool result" where
  "get_bool (JBool b) = Inr b"
| "get_bool j = Inl (type_error 302 (''type must be boolean, but is '' @ type_name j))"

text \<open>\<open>get<double>()\<close> on a number: integers are converted with one rounding.\<close>

fun get_double :: "json \<Rightarrow> dbl result" where
  "get_double (JInt i) = Inr (rnd (of_int i))"
| "get_double (JUInt i) = Inr (rnd (of_int i))"
| "get_double (JFloat d) = Inr d"
| "get_double j = Inl (type_error 302 (''type must be number, but is '' @ type_name j))"

definition value_or :: "(json \<Rightarrow> 'a result) \<Rightarrow> json \<Rightarrow> string \<Rightarrow> 'a \<Rightarrow> 'a result" where
  "value_or get j k d =
     (if \<not> is_object j then Inl (type_error 306 (''cannot use value() with '' @ type_name j))
      else case jfind j k of None \<Rightarrow> Inr d | Some v \<Rightarrow> get v)"

abbreviation value_str :: "json \<Rightarrow> string \<Rightarrow> string \<Rightarrow> string result" where
  "value_str \<equiv> value_or get_string"

section \<open>operator==\<close>

fun json_eq :: "json \<Rightarrow> json \<Rightarrow> bool"
  and json_eq_list :: "json list \<Rightarrow> json list \<Rightarrow> bool"
  and json_eq_items :: "(string \<times> json) list \<Rightarrow> (string \<times> json) list \<Rightarrow> bool" where
  "json_eq (JArray xs) (JArray ys) = json_eq_list xs ys"
| "json_eq (JObject es) (JObject fs) = json_eq_items es fs"
| "json_eq JNull JNull = True"
| "json_eq (JString s) (JString t) = (s = t)"
| "json_eq (JBool a) (JBool b) = (a = b)"
| "json_eq (JInt a) (JInt b) = (a = b)"
| "json_eq (JUInt a) (JUInt b) = (a = b)"
| "json_eq (JFloat a) (JFloat b) = deq a b"
| "json_eq (JInt a) (JFloat b) = deq (rnd (of_int a)) b"
| "json_eq (JFloat a) (JInt b) = deq a (rnd (of_int b))"
| "json_eq (JUInt a) (JFloat b) = deq (rnd (of_int a)) b"
| "json_eq (JFloat a) (JUInt b) = deq a (rnd (of_int b))"
| "json_eq (JUInt a) (JInt b) = (i64 a = b)"
| "json_eq (JInt a) (JUInt b) = (a = i64 b)"
| "json_eq _ _ = False"
| "json_eq_list [] [] = True"
| "json_eq_list (x # xs) (y # ys) = (json_eq x y \<and> json_eq_list xs ys)"
| "json_eq_list _ _ = False"
| "json_eq_items [] [] = True"
| "json_eq_items ((k, x) # es) ((l, y) # fs) = (k = l \<and> json_eq x y \<and> json_eq_items es fs)"
| "json_eq_items _ _ = False"

section \<open>Well-formed values\<close>

text \<open>Objects as \<open>std::map\<close> keeps them, integers in the range of their C++ type.\<close>

fun wf_json :: "json \<Rightarrow> bool" where
  "wf_json (JObject es) \<longleftrightarrow> omap_inv es \<and> (\<forall>e \<in> set es. wf_json (snd e))"
| "wf_json (JArray xs) \<longleftrightarrow> (\<forall>x \<in> set xs. wf_json x)"
| "wf_json (JInt i) \<longleftrightarrow> i64_min \<le> i \<and> i \<le> i64_max"
| "wf_json (JUInt i) \<longleftrightarrow> 0 \<le> i \<and> i < 18446744073709551616"
| "wf_json _ \<longleftrightarrow> True"

text \<open>The initializer list \<open>json{{k1, v1}, ...}\<close> as the object it builds (the first of two
  equal keys would win, as \<open>emplace\<close> does; the program never repeats one).\<close>

definition mk_object :: "(string \<times> json) list \<Rightarrow> json" where
  "mk_object es = JObject (fold (\<lambda>(k, v). omap_put k v) (rev es) [])"

section \<open>Lemmas\<close>

lemma is_number_simps [simp]:
  "is_number (JInt i)" "is_number (JUInt u)" "is_number (JFloat d)"
  "\<not> is_number JNull" "\<not> is_number (JObject es)" "\<not> is_number (JArray xs)"
  "\<not> is_number (JString s)" "\<not> is_number (JBool b)"
  by (simp_all add: is_number_def)

lemma is_object_iff: "is_object j \<longleftrightarrow> (\<exists>es. j = JObject es)"
  by (cases j) auto

lemma is_array_iff: "is_array j \<longleftrightarrow> (\<exists>xs. j = JArray xs)"
  by (cases j) auto

lemma is_string_iff: "is_string j \<longleftrightarrow> (\<exists>s. j = JString s)"
  by (cases j) auto

lemma is_boolean_iff: "is_boolean j \<longleftrightarrow> (\<exists>b. j = JBool b)"
  by (cases j) auto

lemma jfind_simps [simp]:
  "jfind (JObject es) k = omap_get es k" "jfind JNull k = None" "jfind (JArray xs) k = None"
  "jfind (JString s) k = None" "jfind (JBool b) k = None" "jfind (JInt i) k = None"
  "jfind (JUInt u) k = None" "jfind (JFloat d) k = None"
  by (simp_all add: jfind_def)

lemma jfind_is_object: "jfind j k = Some v \<Longrightarrow> is_object j"
  by (cases j) auto

lemma get_string_Inr [simp]: "get_string j = Inr s \<longleftrightarrow> j = JString s"
  by (cases j) auto

lemma get_bool_Inr [simp]: "get_bool j = Inr b \<longleftrightarrow> j = JBool b"
  by (cases j) auto

lemma get_double_number: "is_number j \<Longrightarrow> \<exists>d. get_double j = Inr d"
  by (cases j) auto

lemma jat_Inr [simp]: "jat j k = Inr v \<longleftrightarrow> jfind j k = Some v"
  by (cases j) (auto simp: jat_def split: option.splits)

lemma items_size [termination_simp]: "(k, v) \<in> set (items j) \<Longrightarrow> size v < size j"
proof (cases j)
  case (JObject es)
  assume "(k, v) \<in> set (items j)"
  with JObject have "(k, v) \<in> set es" by simp
  then have "size_prod (\<lambda>_. 0) size (k, v) \<le> size_list (size_prod (\<lambda>_. 0) size) es"
    by (rule size_list_estimation') simp
  with JObject show ?thesis by simp
qed auto

lemma elems_size [termination_simp]: "v \<in> set (elems j) \<Longrightarrow> size v < size j"
  by (cases j) (auto dest: size_list_estimation' [where f = size, OF _ order_refl])

lemma jfind_items: "jfind j k = map_of (items j) k"
  by (cases j) (simp_all add: omap_get_def)

lemma jfind_size [termination_simp]: "jfind j k = Some v \<Longrightarrow> size v < size j"
  by (auto simp: jfind_items dest: map_of_SomeD intro: items_size)

lemma jfind_mk_object:
  "jfind (mk_object es) k = map_of es k"
  by (simp add: mk_object_def omap.get_fold_put) (simp add: omap_get_def split: option.splits)

lemma jfind_wf: "wf_json j \<Longrightarrow> jfind j k = Some v \<Longrightarrow> wf_json v"
  by (cases j) (force simp: omap_get_def dest: map_of_SomeD)+

lemma is_object_mk_object [simp]: "is_object (mk_object es)"
  by (simp add: mk_object_def)

lemma is_object_jset [simp]: "is_object (jset j k v)"
  by (cases j) simp_all

lemma jfind_jset:
  "is_object j \<Longrightarrow> jfind (jset j k v) k' = (if k' = k then Some v else jfind j k')"
  by (cases j) (simp_all add: omap_get_put)

end
