(* ===== verification/StateMatrix.thy ===== *)
theory StateMatrix
  imports Json_Value
begin

text \<open>
  backend/src/StateMatrix.cpp and StateMatrix.hpp: rupees to integer paise (\<open>toCents\<close>,
  \<open>rateToBps\<close>), the statutory tax on an amount (\<open>taxOn\<close>, \<open>computeTaxSplit\<close>) and the
  fail-fast construction of the tax ledger from an extracted document
  (\<open>validateAndSanitize\<close>). Money is an \<open>int\<close> wrapped by \<open>i64\<close> at every operation; the
  lemmas show that no wrap occurs, that the rounding of the binary64 inputs never changes a
  paisa, and which exceptions leave the validator.
\<close>

section \<open>Data\<close>

datatype SupplyType = INTRA | INTER

datatype Classification = B2B | B2C | UNDETERMINED

record TaxBreakdown =
  cgst_cents :: cents
  sgst_cents :: cents
  igst_cents :: cents
  cess_cents :: cents
  total_tax_cents :: cents
  has_cgst_sgst :: bool
  has_igst :: bool

record LineItem =
  hsn :: string
  description :: string
  base_value_cents :: cents
  tax_rate_bps :: int
  quantity :: "dbl option"
  unit_price_cents :: "cents option"

record StateMatrix =
  supplier_gstin :: string
  supplier_name :: string
  supplier_state :: string
  aato_crore :: "dbl option"
  buyer_gstin :: "string option"
  buyer_name :: "string option"
  buyer_state :: "string option"
  buyer_registered :: "bool option"
  invoice_number :: string
  invoice_date :: string
  place_of_supply :: string
  irn :: string
  hsn_string :: string
  supply_type :: SupplyType
  classification :: Classification
  irn_present :: bool
  irp_reported_on :: "string option"
  line_items :: "LineItem list"
  matrix_base_value_cents :: cents
  total_value_cents :: cents
  tax :: TaxBreakdown

definition TaxBreakdown0 :: TaxBreakdown where
  "TaxBreakdown0 = \<lparr>cgst_cents = 0, sgst_cents = 0, igst_cents = 0, cess_cents = 0,
     total_tax_cents = 0, has_cgst_sgst = False, has_igst = False\<rparr>"

definition StateMatrix0 :: StateMatrix where
  "StateMatrix0 = \<lparr>supplier_gstin = [], supplier_name = [], supplier_state = [],
     aato_crore = None, buyer_gstin = None, buyer_name = None, buyer_state = None,
     buyer_registered = None, invoice_number = [], invoice_date = [], place_of_supply = [],
     irn = [], hsn_string = [], supply_type = INTRA, classification = UNDETERMINED,
     irn_present = False, irp_reported_on = None, line_items = [],
     matrix_base_value_cents = 0, total_value_cents = 0, tax = TaxBreakdown0\<rparr>"

section \<open>Low-level primitives\<close>

definition requireString :: "json \<Rightarrow> string \<Rightarrow> string result" where
  "requireString v path = (case v of JString s \<Rightarrow> Inr s
     | _ \<Rightarrow> Inl (Invalid_argument (''StateMatrix: '' @ path @ '': expected a string'')))"

definition d_llround :: "dbl \<Rightarrow> int" where
  "d_llround d = (case d of Fin q \<Rightarrow> llround q | _ \<Rightarrow> i64_min)"

definition rateToBps :: "json \<Rightarrow> string \<Rightarrow> int result" where
  "rateToBps value path =
     bindE (requireE (is_number value)
              (Invalid_argument (''StateMatrix: '' @ path @ '': expected a number''))) (\<lambda>_.
     bindE (get_double value) (\<lambda>pct.
     bindE (requireE (isfinite pct \<and> \<not> dlt pct (Fin 0))
              (Invalid_argument (''StateMatrix: '' @ path @ '': rate must be finite and non-negative''))) (\<lambda>_.
     let bps = dmul pct (Fin 100) in
     bindE (requireE (\<not> dlt (Fin (of_int int_max)) bps)
              (Invalid_argument (''StateMatrix: '' @ path @ '': rate out of range''))) (\<lambda>_.
     Inr (d_llround bps)))))"

definition toCents :: "json \<Rightarrow> cents result" where
  "toCents value =
     bindE (requireE (is_number value)
              (Invalid_argument ''StateMatrix: money value is not a number'')) (\<lambda>_.
     bindE (get_double value) (\<lambda>d.
     bindE (requireE (isfinite d)
              (Invalid_argument ''StateMatrix: money value is not finite'')) (\<lambda>_.
     let scaled = dmul d (Fin 100) in
     bindE (requireE (\<not> (dlt scaled (Fin 0) \<or> dlt (Fin (10 ^ 15)) scaled))
              (Invalid_argument ''StateMatrix: money value out of range (negative or too large)'')) (\<lambda>_.
     Inr (d_llround scaled)))))"

definition taxOn :: "cents \<Rightarrow> int \<Rightarrow> cents result" where
  "taxOn base_cents rate_bps =
     (if base_cents < 0 then
        Inl (Invalid_argument ''StateMatrix: taxOn base must be non-negative'')
      else if rate_bps < 0 then
        Inl (Invalid_argument ''StateMatrix: taxOn rate must be non-negative'')
      else if base_cents \<noteq> 0 \<and> c_div (i64_max - 5000 - 1) base_cents < rate_bps then
        Inl (Overflow_error ''StateMatrix: taxOn overflow'')
      else Inr (c_div (i64 (i64 (base_cents * rate_bps) + 5000)) 10000))"

definition total_of :: "TaxBreakdown \<Rightarrow> cents" where
  "total_of b =
     i64 (i64 (i64 (cgst_cents b + sgst_cents b) + igst_cents b) + cess_cents b)"

definition computeTaxSplit :: "cents \<Rightarrow> int \<Rightarrow> SupplyType \<Rightarrow> TaxBreakdown result" where
  "computeTaxSplit base_cents rate_bps type =
     bindE (case type of
         INTRA \<Rightarrow>
           bindE (taxOn base_cents (c_div rate_bps 2)) (\<lambda>c.
           bindE (taxOn base_cents (c_div rate_bps 2)) (\<lambda>s.
           Inr (TaxBreakdown0\<lparr>cgst_cents := c, sgst_cents := s, has_cgst_sgst := True\<rparr>)))
       | INTER \<Rightarrow>
           bindE (taxOn base_cents rate_bps) (\<lambda>i.
           Inr (TaxBreakdown0\<lparr>igst_cents := i, has_igst := True\<rparr>)))
       (\<lambda>b. Inr (b\<lparr>total_tax_cents := total_of b\<rparr>))"

section \<open>validateAndSanitize\<close>

text \<open>
  The function is split at the section comments of the source; each part updates the matrix
  under construction, in the order of the code, so the first failing check decides the error.
\<close>

definition vs_fail :: "string \<Rightarrow> string \<Rightarrow> exn" where
  "vs_fail path why =
     Invalid_argument (''StateMatrix::validateAndSanitize: '' @ path @ '': '' @ why)"

definition object_field :: "json \<Rightarrow> string \<Rightarrow> exn \<Rightarrow> json result" where
  "object_field j k e = (case jfind j k of
      None \<Rightarrow> Inl e | Some v \<Rightarrow> (if is_object v then Inr v else Inl e))"

definition string_at :: "json \<Rightarrow> string \<Rightarrow> string \<Rightarrow> string result" where
  "string_at j k path = bindE (jat j k) (\<lambda>v. requireString v path)"

definition opt_string :: "json \<Rightarrow> string \<Rightarrow> string \<Rightarrow> string option result" where
  "opt_string j k path = (case jfind j k of
      None \<Rightarrow> Inr None
    | Some v \<Rightarrow> bindE (requireString v path) (\<lambda>s. Inr (Some s)))"

definition money_or_0 :: "json \<Rightarrow> string \<Rightarrow> cents result" where
  "money_or_0 j k = (case jfind j k of None \<Rightarrow> Inr 0 | Some v \<Rightarrow> toCents v)"

definition vs_supplier :: "json \<Rightarrow> StateMatrix \<Rightarrow> StateMatrix result" where
  "vs_supplier doc m =
     bindE (object_field doc ''supplier'' (vs_fail ''supplier'' ''required object not present'')) (\<lambda>sup.
     bindE (string_at sup ''gstin'' ''supplier.gstin'') (\<lambda>g.
     bindE (string_at sup ''name'' ''supplier.name'') (\<lambda>n.
     bindE (string_at sup ''address_state'' ''supplier.address_state'') (\<lambda>s.
     bindE (case jfind sup ''aato_crore'' of
         None \<Rightarrow> Inr None
       | Some v \<Rightarrow>
           bindE (requireE (is_number v) (vs_fail ''supplier.aato_crore'' ''must be a number'')) (\<lambda>_.
           bindE (get_double v) (\<lambda>d.
           bindE (requireE (\<not> (dlt d (Fin 0) \<or> \<not> isfinite d))
                    (vs_fail ''supplier.aato_crore'' ''must be finite and non-negative'')) (\<lambda>_.
           Inr (Some d))))) (\<lambda>a.
     Inr (m\<lparr>supplier_gstin := g, supplier_name := n, supplier_state := s, aato_crore := a\<rparr>))))))"

definition vs_buyer :: "json \<Rightarrow> StateMatrix \<Rightarrow> StateMatrix result" where
  "vs_buyer doc m = (case jfind doc ''buyer'' of
      None \<Rightarrow> Inr m
    | Some b \<Rightarrow>
        bindE (requireE (is_object b) (vs_fail ''buyer'' ''must be an object'')) (\<lambda>_.
        bindE (case jfind b ''registered'' of
            None \<Rightarrow> Inr None
          | Some v \<Rightarrow>
              bindE (requireE (is_boolean v) (vs_fail ''buyer.registered'' ''must be a boolean'')) (\<lambda>_.
              bindE (get_bool v) (\<lambda>r. Inr (Some r)))) (\<lambda>r.
        bindE (opt_string b ''gstin'' ''buyer.gstin'') (\<lambda>g.
        bindE (opt_string b ''name'' ''buyer.name'') (\<lambda>n.
        bindE (opt_string b ''address_state'' ''buyer.address_state'') (\<lambda>s.
        Inr (m\<lparr>buyer_registered := r, buyer_gstin := g, buyer_name := n, buyer_state := s\<rparr>)))))))"

definition supply_type_of :: "string \<Rightarrow> SupplyType result" where
  "supply_type_of st =
     (if st = ''INTRA'' then Inr INTRA
      else if st = ''INTER'' then Inr INTER
      else Inl (vs_fail ''invoice.supply_type''
             (''must be '' @ [CHR 0x27] @ ''INTRA'' @ [CHR 0x27] @ '' or '' @ [CHR 0x27] @ ''INTER'' @ [CHR 0x27])))"

definition classification_of :: "string \<Rightarrow> Classification result" where
  "classification_of cls =
     (if cls = ''B2B'' then Inr B2B
      else if cls = ''B2C'' then Inr B2C
      else if cls = ''UNDETERMINED'' then Inr UNDETERMINED
      else Inl (vs_fail ''invoice.classification''
             (''must be '' @ [CHR 0x27] @ ''B2B'' @ [CHR 0x27] @ '', '' @ [CHR 0x27] @ ''B2C'' @ [CHR 0x27] @
              '' or '' @ [CHR 0x27] @ ''UNDETERMINED'' @ [CHR 0x27])))"

definition vs_irn :: "json \<Rightarrow> StateMatrix \<Rightarrow> StateMatrix result" where
  "vs_irn ivd m =
     (case jfind ivd ''irn_present'' of
        Some (JBool b) \<Rightarrow>
          (if b then
             (case jfind ivd ''irn'' of
                Some (JString s) \<Rightarrow> Inr (m\<lparr>irn_present := True, irn := s\<rparr>)
              | _ \<Rightarrow> Inl (vs_fail ''invoice.irn'' ''required string when irn_present is true''))
           else Inr (m\<lparr>irn_present := False\<rparr>))
      | _ \<Rightarrow> Inl (vs_fail ''invoice.irn_present'' ''required boolean not present''))"

definition vs_invoice :: "json \<Rightarrow> StateMatrix \<Rightarrow> StateMatrix result" where
  "vs_invoice ivd m =
     bindE (string_at ivd ''number'' ''invoice.number'') (\<lambda>n.
     bindE (string_at ivd ''date'' ''invoice.date'') (\<lambda>d.
     bindE (string_at ivd ''place_of_supply'' ''invoice.place_of_supply'') (\<lambda>p.
     bindE (string_at ivd ''hsn_string'' ''invoice.hsn_string'') (\<lambda>h.
     bindE (string_at ivd ''supply_type'' ''invoice.supply_type'') (\<lambda>st.
     bindE (supply_type_of st) (\<lambda>ty.
     bindE (string_at ivd ''classification'' ''invoice.classification'') (\<lambda>cls.
     bindE (classification_of cls) (\<lambda>c.
     bindE (vs_irn ivd (m\<lparr>invoice_number := n, invoice_date := d, place_of_supply := p,
              hsn_string := h, supply_type := ty, classification := c\<rparr>)) (\<lambda>m.
     bindE (case jfind ivd ''base_value'' of
         None \<Rightarrow> Inl (vs_fail ''invoice.base_value'' ''required number not present'')
       | Some v \<Rightarrow> toCents v) (\<lambda>bv.
     Inr (m\<lparr>matrix_base_value_cents := bv\<rparr>)))))))))))"

definition li_path :: "nat \<Rightarrow> string" where
  "li_path i = ''invoice.line_items['' @ int_str (int i) @ '']''"

definition vs_line_item :: "nat \<Rightarrow> json \<Rightarrow> LineItem result" where
  "vs_line_item i li =
     bindE (requireE (is_object li) (vs_fail (li_path i) ''line item must be an object'')) (\<lambda>_.
     bindE (string_at li ''hsn'' (li_path i @ ''.hsn'')) (\<lambda>h.
     bindE (jat li ''tax_rate'') (\<lambda>tr.
     bindE (rateToBps tr (li_path i @ ''.tax_rate'')) (\<lambda>r.
     bindE (jat li ''base_value'') (\<lambda>jb.
     bindE (toCents jb) (\<lambda>b.
     bindE (opt_string li ''description'' (li_path i @ ''.description'')) (\<lambda>d.
     bindE (case jfind li ''quantity'' of
         None \<Rightarrow> Inr None
       | Some v \<Rightarrow>
           bindE (requireE (is_number v) (vs_fail (li_path i @ ''.quantity'') ''must be a number'')) (\<lambda>_.
           bindE (get_double v) (\<lambda>q. Inr (Some q)))) (\<lambda>q.
     bindE (case jfind li ''unit_price'' of
         None \<Rightarrow> Inr None
       | Some v \<Rightarrow> bindE (toCents v) (\<lambda>p. Inr (Some p))) (\<lambda>p.
     Inr \<lparr>hsn = h, description = (case d of None \<Rightarrow> [] | Some s \<Rightarrow> s), base_value_cents = b,
          tax_rate_bps = r, quantity = q, unit_price_cents = p\<rparr>)))))))))"

definition vs_line_items :: "json \<Rightarrow> StateMatrix \<Rightarrow> StateMatrix result" where
  "vs_line_items ivd m = (case jfind ivd ''line_items'' of
      Some (JArray xs) \<Rightarrow>
        bindE (mapE (\<lambda>(i, li). vs_line_item i li) (enumerate 0 xs)) (\<lambda>its.
        Inr (m\<lparr>line_items := its\<rparr>))
    | _ \<Rightarrow> Inl (vs_fail ''invoice.line_items'' ''required array not present''))"

definition vs_tax :: "json \<Rightarrow> StateMatrix \<Rightarrow> StateMatrix result" where
  "vs_tax ivd m =
     bindE (object_field ivd ''tax_breakdown''
              (vs_fail ''invoice.tax_breakdown'' ''required object not present'')) (\<lambda>tb.
     bindE (money_or_0 tb ''cgst'') (\<lambda>c.
     bindE (money_or_0 tb ''sgst'') (\<lambda>s.
     bindE (money_or_0 tb ''igst'') (\<lambda>i.
     bindE (money_or_0 tb ''cess'') (\<lambda>e.
     let b = TaxBreakdown0\<lparr>cgst_cents := c, sgst_cents := s, igst_cents := i, cess_cents := e\<rparr> in
     bindE (case jfind tb ''total_tax'' of None \<Rightarrow> Inr (total_of b) | Some v \<Rightarrow> toCents v) (\<lambda>t.
     Inr (m\<lparr>tax := b\<lparr>total_tax_cents := t, has_cgst_sgst := (0 < c \<or> 0 < s),
                      has_igst := (0 < i)\<rparr>\<rparr>)))))))"

definition vs_total :: "json \<Rightarrow> StateMatrix \<Rightarrow> StateMatrix result" where
  "vs_total ivd m = (case jfind ivd ''total_value'' of
      None \<Rightarrow> Inl (vs_fail ''invoice.total_value'' ''required number not present'')
    | Some v \<Rightarrow> bindE (toCents v) (\<lambda>t. Inr (m\<lparr>total_value_cents := t\<rparr>)))"

definition vs_irp :: "json \<Rightarrow> StateMatrix \<Rightarrow> StateMatrix result" where
  "vs_irp doc m = (case jfind doc ''irp'' of
      None \<Rightarrow> Inr m
    | Some j \<Rightarrow>
        bindE (requireE (is_object j) (vs_fail ''irp'' ''must be an object'')) (\<lambda>_.
        bindE (opt_string j ''reported_on'' ''irp.reported_on'') (\<lambda>r.
        Inr (m\<lparr>irp_reported_on := r\<rparr>))))"

definition validateAndSanitize :: "json \<Rightarrow> StateMatrix result" where
  "validateAndSanitize doc =
     bindE (requireE (is_object doc) (vs_fail ''document'' ''root must be a JSON object'')) (\<lambda>_.
     bindE (vs_supplier doc StateMatrix0) (\<lambda>m.
     bindE (vs_buyer doc m) (\<lambda>m.
     bindE (object_field doc ''invoice'' (vs_fail ''invoice'' ''required object not present'')) (\<lambda>ivd.
     bindE (vs_invoice ivd m) (\<lambda>m.
     bindE (vs_line_items ivd m) (\<lambda>m.
     bindE (vs_tax ivd m) (\<lambda>m.
     bindE (vs_total ivd m) (\<lambda>m.
     vs_irp doc m))))))))"

section \<open>Rounding of the inputs\<close>

text \<open>Scaling the binary64 nearest to \<open>n / 100\<close> by 100 stays within a quarter of \<open>n\<close>.\<close>

lemma scaled_hundredths:
  assumes "0 \<le> n" and "n \<le> 10 ^ 15"
  obtains v w where "rnd (of_int n / 100) = Fin v" and "0 \<le> v" and "rnd (v * 100) = Fin w"
    and "0 \<le> w" and "\<bar>w - of_int n\<bar> < 1 / 4"
proof (cases "n = 0")
  case True
  then show ?thesis by (intro that [of 0 0]) simp_all
next
  case False
  let ?q = "of_int n / 100 :: rat"
  have n: "1 \<le> (of_int n :: rat)" "(of_int n :: rat) \<le> 10 ^ 15"
    using False assms by (simp_all del: of_int_power add: of_int_le_iff [where 'a = rat and z = "10 ^ 15", simplified])
  have "(1 :: rat) / 10 ^ 300 \<le> 1 / 100" and "(10 :: rat) ^ 15 / 100 \<le> 10 ^ 299" by simp_all
  then have "1 / 10 ^ 300 \<le> \<bar>?q\<bar>" and "\<bar>?q\<bar> \<le> 10 ^ 299"
    using n by linarith+
  then obtain v where v: "rnd ?q = Fin v" and ve: "\<bar>v - ?q\<bar> \<le> \<bar>?q\<bar> / 2 ^ 53"
    by (rule rnd_rel)
  have p53: "(2 :: rat) ^ 53 = 9007199254740992" and p15: "(10 :: rat) ^ 15 = 1000000000000000"
    by simp_all
  have ve': "\<bar>v * 100 - of_int n\<bar> \<le> of_int n / 2 ^ 53"
    using ve n unfolding p53 by linarith
  have e: "of_int n / (2 :: rat) ^ 53 \<le> 1 / 9" using n unfolding p53 p15 by linarith
  have s: "8 / 9 \<le> v * 100" "v * 100 \<le> 10 ^ 15 + 1" using ve' e n unfolding p53 p15 by linarith+
  have "(1 :: rat) / 10 ^ 300 \<le> 8 / 9" and "(10 :: rat) ^ 15 + 1 \<le> 10 ^ 299" by simp_all
  then have "1 / 10 ^ 300 \<le> \<bar>v * 100\<bar>" and "\<bar>v * 100\<bar> \<le> 10 ^ 299"
    using s by linarith+
  then obtain w where w: "rnd (v * 100) = Fin w" and we: "\<bar>w - v * 100\<bar> \<le> \<bar>v * 100\<bar> / 2 ^ 53"
    by (rule rnd_rel)
  have "\<bar>v * 100\<bar> / 2 ^ 53 \<le> 1 / 8" using s unfolding p53 p15 by linarith
  then have "\<bar>w - of_int n\<bar> < 1 / 4" and "0 \<le> w" and "0 \<le> v" using we ve' e s n by linarith+
  then show ?thesis using v w by (intro that) auto
qed

lemma toCents_float:
  assumes "dmul d (Fin 100) = Fin w" and "isfinite d" and "0 \<le> w" and "w \<le> 10 ^ 15"
  shows "toCents (JFloat d) = Inr (llround w)"
  using assms by (simp add: toCents_def d_llround_def)

text \<open>
  Property C18. An amount written with two decimals survives the binary64 detour: for every
  number of paise up to 10^15, the double nearest to \<open>n / 100\<close> (what parsing the JSON literal
  gives) is converted back to exactly \<open>n\<close> by the scaling and rounding of \<open>money::toCents\<close>.
\<close>

theorem toCents_exact:
  "0 \<le> n \<Longrightarrow> n \<le> 10 ^ 15 \<Longrightarrow> toCents (JFloat (rnd (of_int n / 100))) = Inr n"
proof -
  assume n: "0 \<le> n" "n \<le> 10 ^ 15"
  then obtain v w where vw: "rnd (of_int n / 100) = Fin v" "rnd (v * 100) = Fin w" "0 \<le> w"
    and near: "\<bar>w - of_int n\<bar> < 1 / 4"
    by (rule scaled_hundredths)
  have le: "w \<le> 10 ^ 15"
  proof (cases "n = 10 ^ 15")
    case True
    have "rnd (of_int (10 ^ 13)) = Fin (of_int (10 ^ 13))" by (rule rnd_of_int) simp
    then have "v = 10 ^ 13" using vw(1) True by simp
    moreover have "rnd (of_int (10 ^ 15)) = Fin (of_int (10 ^ 15))" by (rule rnd_of_int) simp
    ultimately show ?thesis using vw(2) by simp
  next
    case False
    then have "n + 1 \<le> 10 ^ 15" using n by simp
    then have "of_int (n + 1) \<le> (of_int (10 ^ 15) :: rat)" by (simp only: of_int_le_iff)
    then have "(of_int n :: rat) + 1 \<le> 10 ^ 15" by simp
    then show ?thesis using near by linarith
  qed
  have "llround w = n" using near by (intro llround_near) linarith
  then show ?thesis using toCents_float [of "Fin v" w] vw le by simp
qed

theorem toCents_exact_witness:
  "toCents (JFloat (rnd (of_int 118000001 / 100))) = Inr 118000001"
  by (rule toCents_exact) simp_all

lemma rateToBps_float:
  assumes "dmul d (Fin 100) = Fin w" and "d = Fin v" and "0 \<le> v" and "w \<le> of_int int_max"
  shows "rateToBps (JFloat d) path = Inr (llround w)"
  using assms by (simp add: rateToBps_def d_llround_def)

text \<open>
  A GST rate written in percent with two decimals becomes exactly that many basis
  points: the double nearest to \<open>n / 100\<close> is converted to \<open>n\<close> by \<open>rateToBps\<close>, for every \<open>n\<close>
  below the largest \<open>int\<close>.
\<close>

theorem rateToBps_exact:
  "0 \<le> n \<Longrightarrow> n < int_max \<Longrightarrow> rateToBps (JFloat (rnd (of_int n / 100))) path = Inr n"
proof -
  assume n: "0 \<le> n" "n < int_max"
  then have "n \<le> 10 ^ 15" by (simp add: int_max_def)
  with n(1) obtain v w where vw: "rnd (of_int n / 100) = Fin v" "0 \<le> v" "rnd (v * 100) = Fin w"
    and near: "\<bar>w - of_int n\<bar> < 1 / 4"
    by (rule scaled_hundredths)
  have "of_int (n + 1) \<le> (of_int int_max :: rat)" using n(2) by (simp only: of_int_le_iff)
  then have "w \<le> of_int int_max" using near by (simp, linarith)
  moreover have "llround w = n" using near by (intro llround_near) linarith
  ultimately show ?thesis using rateToBps_float [of "Fin v" w v] vw by simp
qed

theorem rateToBps_exact_witness:
  "rateToBps (JFloat (rnd (of_int 25 / 100))) ''invoice.line_items[0].tax_rate'' = Inr 25"
  by (rule rateToBps_exact) (simp_all add: int_max_def)

text \<open>Whatever the number, an accepted money value is a non-negative amount below 10^15 paise.\<close>

lemma toCents_range: "toCents j = Inr c \<Longrightarrow> 0 \<le> c \<and> c \<le> 10 ^ 15"
proof -
  assume a: "toCents j = Inr c"
  then obtain d where d: "get_double j = Inr d" "isfinite d"
      "\<not> dlt (dmul d (Fin 100)) (Fin 0)" "\<not> dlt (Fin (10 ^ 15)) (dmul d (Fin 100))"
      "c = d_llround (dmul d (Fin 100))"
    by (auto simp: toCents_def bindE_eq_Inr Let_def)
  obtain w where w: "dmul d (Fin 100) = Fin w"
    using d(2,3,4) rnd_not_NaN by (cases d; cases "dmul d (Fin 100)") auto
  with d have "0 \<le> w" "w \<le> 10 ^ 15" "c = \<lfloor>w + 1 / 2\<rfloor>"
    by (simp_all add: d_llround_def llround_def)
  moreover have "\<lfloor>w + 1 / 2\<rfloor> \<le> 10 ^ 15"
  proof -
    have "w + 1 / 2 < of_int (10 ^ 15 + 1)" using \<open>w \<le> 10 ^ 15\<close> by simp
    then have "\<lfloor>w + 1 / 2\<rfloor> < 10 ^ 15 + 1" by (simp only: floor_less_iff)
    then show ?thesis by simp
  qed
  ultimately show ?thesis by simp
qed

section \<open>Statutory tax\<close>

text \<open>The rule the code implements: the exact tax, rounded half-up to the nearest paisa.\<close>

definition statutory_tax :: "cents \<Rightarrow> int \<Rightarrow> int" where
  "statutory_tax b r = \<lfloor>of_int (b * r) / 10000 + (1 / 2 :: rat)\<rfloor>"

lemma statutory_tax_div: "statutory_tax b r = (b * r + 5000) div 10000"
proof -
  have "of_int (b * r) / 10000 + (1 / 2 :: rat) = of_int (b * r + 5000) / of_int 10000"
    by (simp add: field_simps)
  then show ?thesis unfolding statutory_tax_def by (simp only: floor_divide_of_int_eq)
qed

lemma statutory_tax_nonneg: "0 \<le> b \<Longrightarrow> 0 \<le> r \<Longrightarrow> 0 \<le> statutory_tax b r"
  using mult_nonneg_nonneg [of b r] by (simp add: statutory_tax_div pos_imp_zdiv_nonneg_iff)

lemma statutory_tax_small:
  "b * r + 5001 \<le> i64_max \<Longrightarrow> statutory_tax b r \<le> 922337203685477"
  unfolding statutory_tax_div i64_max_def by linarith

lemma taxOn_iff:
  "taxOn b r = Inr t \<longleftrightarrow>
     0 \<le> b \<and> 0 \<le> r \<and> b * r + 5001 \<le> i64_max \<and> t = statutory_tax b r"
proof -
  have guard: "(b \<noteq> 0 \<and> c_div (i64_max - 5000 - 1) b < r) \<longleftrightarrow> i64_max < b * r + 5001"
    if "0 \<le> b" "0 \<le> r"
  proof (cases "b = 0")
    case True
    then show ?thesis by (simp add: i64_max_def)
  next
    case False
    then have "0 < b" using that by simp
    then have "(i64_max - 5001) div b < r \<longleftrightarrow> i64_max - 5001 < r * b"
      using le_div_iff_mult_le [OF \<open>0 < b\<close>] by (simp add: not_le [symmetric])
    then show ?thesis using \<open>0 < b\<close> by (simp add: i64_max_def mult.commute)
  qed
  have calc: "c_div (i64 (i64 (b * r) + 5000)) 10000 = statutory_tax b r"
    if "0 \<le> b" "0 \<le> r" "b * r + 5001 \<le> i64_max"
  proof -
    have "0 \<le> b * r" using that by simp
    then have "i64 (b * r) = b * r" and "i64 (b * r + 5000) = b * r + 5000"
      using that(3) by (simp_all add: i64_nonneg_id)
    then show ?thesis using \<open>0 \<le> b * r\<close> by (simp add: statutory_tax_div)
  qed
  show ?thesis
    unfolding taxOn_def using guard calc by (auto simp: not_less)
qed

text \<open>
  Property C8. \<open>money::taxOn\<close> is total and exact: it returns a value precisely when base and
  rate are non-negative and the biased product fits in 64 bits, and the value is the exact tax
  rounded half-up to a paisa; on an accepted input the 64-bit arithmetic never wraps.
\<close>

theorem taxOn_spec:
  "taxOn b r = Inr t \<longleftrightarrow>
     0 \<le> b \<and> 0 \<le> r \<and> b * r + 5001 \<le> i64_max \<and> t = statutory_tax b r"
  by (rule taxOn_iff)

lemma taxOn_overflow:
  "0 \<le> b \<Longrightarrow> 0 \<le> r \<Longrightarrow> i64_max < b * r + 5001 \<Longrightarrow>
     taxOn b r = Inl (Overflow_error ''StateMatrix: taxOn overflow'')"
  using taxOn_iff [of b r] by (cases "taxOn b r") (auto simp: taxOn_def split: if_splits)

definition split_of :: "cents \<Rightarrow> int \<Rightarrow> SupplyType \<Rightarrow> TaxBreakdown" where
  "split_of b r ty = (case ty of
     INTRA \<Rightarrow> let t = statutory_tax b (r div 2) in
       \<lparr>cgst_cents = t, sgst_cents = t, igst_cents = 0, cess_cents = 0,
        total_tax_cents = 2 * t, has_cgst_sgst = True, has_igst = False\<rparr>
   | INTER \<Rightarrow> let t = statutory_tax b r in
       \<lparr>cgst_cents = 0, sgst_cents = 0, igst_cents = t, cess_cents = 0,
        total_tax_cents = t, has_cgst_sgst = False, has_igst = True\<rparr>)"

definition head_rate :: "int \<Rightarrow> SupplyType \<Rightarrow> int" where
  "head_rate r ty = (case ty of INTRA \<Rightarrow> r div 2 | INTER \<Rightarrow> r)"

lemma computeTaxSplit_iff:
  assumes "0 \<le> r"
  shows "computeTaxSplit b r ty = Inr s \<longleftrightarrow>
           0 \<le> b \<and> b * head_rate r ty + 5001 \<le> i64_max \<and> s = split_of b r ty"
proof -
  have pos: "0 \<le> head_rate r ty" using assms by (cases ty) (simp_all add: head_rate_def)
  define t where "t = statutory_tax b (head_rate r ty)"
  have tot: "i64 (t + t) = 2 * t" "i64 (2 * t) = 2 * t" "i64 t = t"
    if "0 \<le> b" "b * head_rate r ty + 5001 \<le> i64_max"
    using statutory_tax_nonneg [OF that(1) pos] statutory_tax_small [OF that(2)]
    by (auto simp: t_def i64_max_def intro!: i64_intros)
  show ?thesis
  proof (cases ty)
    case INTRA
    then show ?thesis using assms pos tot
      by (auto simp: computeTaxSplit_def bindE_eq_Inr taxOn_iff head_rate_def split_of_def
          TaxBreakdown0_def total_of_def t_def Let_def)
  next
    case INTER
    then show ?thesis using assms pos tot
      by (auto simp: computeTaxSplit_def bindE_eq_Inr taxOn_iff head_rate_def split_of_def
          TaxBreakdown0_def total_of_def t_def Let_def)
  qed
qed

text \<open>
  Property C17. The split of a line: it succeeds exactly when the rate charged per head passes
  the overflow guard, INTRA gives equal CGST and SGST at half the rate and no IGST, INTER the
  whole rate as IGST, and the total is the sum of the heads without wrap-around.
\<close>

theorem computeTaxSplit_spec:
  assumes "0 \<le> r"
  shows "computeTaxSplit b r ty = Inr s \<longleftrightarrow>
           0 \<le> b \<and> b * head_rate r ty + 5001 \<le> i64_max \<and> s = split_of b r ty"
  using assms by (rule computeTaxSplit_iff)

theorem computeTaxSplit_spec_witness:
  "computeTaxSplit 10000001 1800 INTRA = Inr (split_of 10000001 1800 INTRA) \<and>
   total_tax_cents (split_of 10000001 1800 INTRA) = 1800000"
  using computeTaxSplit_spec [of 1800 10000001 INTRA "split_of 10000001 1800 INTRA"]
  by (simp add: head_rate_def i64_max_def split_of_def statutory_tax_div)

lemma half_up_twice:
  fixes z :: int
  shows "\<bar>2 * ((z + 5000) div 10000) - (2 * z + 5000) div 10000\<bar> \<le> 1"
  by (simp add: abs_le_iff) linarith

text \<open>
  For a rate that halves exactly, the intra-state and the inter-state treatment of
  the same amount carry disjoint heads and their totals differ by at most one paisa (the
  rounding of each head on its own).
\<close>

theorem even_rate_heads_agree:
  assumes "0 \<le> r" and "even r"
    and "computeTaxSplit b r INTRA = Inr x" and "computeTaxSplit b r INTER = Inr y"
  shows "cgst_cents x = sgst_cents x \<and> igst_cents x = 0 \<and> cgst_cents y = 0 \<and> sgst_cents y = 0
    \<and> \<bar>total_tax_cents x - total_tax_cents y\<bar> \<le> 1"
proof -
  obtain h where h: "r = 2 * h" using assms(2) by (rule evenE)
  have x: "x = split_of b r INTRA" and y: "y = split_of b r INTER"
    using assms(3,4) computeTaxSplit_iff [OF assms(1)] by auto
  have "b * r = 2 * (b * h)" using h by simp
  then show ?thesis
    using half_up_twice [of "b * h"] unfolding x y
    by (simp add: split_of_def Let_def statutory_tax_div h)
qed

text \<open>
  The halving \<open>tax_rate_bps / 2\<close> truncates: an intra-state supply at an odd number
  of basis points (0.25% is 25) is taxed as if its rate were one basis point lower, although
  the comment says each head carries exactly half the combined rate.
\<close>

theorem odd_rate_drops_half_point:
  assumes "0 \<le> r" and "odd r"
  shows "computeTaxSplit b r INTRA = computeTaxSplit b (r - 1) INTRA"
proof -
  obtain k where "r = 2 * k + 1" using assms(2) by (rule oddE)
  then have "c_div r 2 = c_div (r - 1) 2" using assms(1) by simp
  then show ?thesis by (simp add: computeTaxSplit_def)
qed

theorem even_rate_heads_agree_witness:
  "\<bar>total_tax_cents (split_of 2500 1800 INTRA) - total_tax_cents (split_of 2500 1800 INTER)\<bar> \<le> 1"
proof -
  have "computeTaxSplit 2500 1800 INTRA = Inr (split_of 2500 1800 INTRA)"
    and "computeTaxSplit 2500 1800 INTER = Inr (split_of 2500 1800 INTER)"
    by code_simp+
  then show ?thesis using even_rate_heads_agree [of 1800 2500] by simp
qed

theorem odd_rate_drops_half_point_witness:
  "computeTaxSplit 10000000 25 INTRA = computeTaxSplit 10000000 24 INTRA \<and>
   computeTaxSplit 10000000 25 INTER \<noteq> computeTaxSplit 10000000 24 INTER"
proof
  show "computeTaxSplit 10000000 25 INTRA = computeTaxSplit 10000000 24 INTRA"
    using odd_rate_drops_half_point [of 25 10000000] by simp
  show "computeTaxSplit 10000000 25 INTER \<noteq> computeTaxSplit 10000000 24 INTER"
    by code_simp
qed

section \<open>What the validator guarantees\<close>

definition money_ok :: "cents \<Rightarrow> bool" where
  "money_ok c \<longleftrightarrow> 0 \<le> c \<and> c \<le> 10 ^ 15"

definition line_ok :: "LineItem \<Rightarrow> bool" where
  "line_ok li \<longleftrightarrow> money_ok (base_value_cents li) \<and>
     0 \<le> tax_rate_bps li \<and> tax_rate_bps li \<le> int_max \<and>
     pred_option money_ok (unit_price_cents li)"

definition breakdown_ok :: "TaxBreakdown \<Rightarrow> bool" where
  "breakdown_ok b \<longleftrightarrow> money_ok (cgst_cents b) \<and> money_ok (sgst_cents b) \<and>
     money_ok (igst_cents b) \<and> money_ok (cess_cents b) \<and>
     0 \<le> total_tax_cents b \<and> total_tax_cents b \<le> 4 * 10 ^ 15 \<and>
     (has_cgst_sgst b \<longleftrightarrow> 0 < cgst_cents b \<or> 0 < sgst_cents b) \<and>
     (has_igst b \<longleftrightarrow> 0 < igst_cents b)"

definition matrix_ok :: "StateMatrix \<Rightarrow> bool" where
  "matrix_ok m \<longleftrightarrow> money_ok (matrix_base_value_cents m) \<and> money_ok (total_value_cents m) \<and>
     list_all line_ok (line_items m) \<and> breakdown_ok (tax m) \<and>
     (irn_present m \<or> irn m = []) \<and>
     pred_option (\<lambda>d. isfinite d \<and> \<not> dlt d (Fin 0)) (aato_crore m)"

lemma money_toCents: "toCents j = Inr c \<Longrightarrow> money_ok c"
  using toCents_range by (simp add: money_ok_def)

lemma money_money_or_0: "money_or_0 j k = Inr c \<Longrightarrow> money_ok c"
  by (auto simp: money_or_0_def money_toCents split: option.splits) (simp add: money_ok_def)

lemma rateToBps_range: "rateToBps j p = Inr r \<Longrightarrow> 0 \<le> r \<and> r \<le> int_max"
proof -
  assume a: "rateToBps j p = Inr r"
  then obtain d where d: "isfinite d" "\<not> dlt d (Fin 0)"
      "\<not> dlt (Fin (of_int int_max)) (dmul d (Fin 100))" "r = d_llround (dmul d (Fin 100))"
    by (auto simp: rateToBps_def bindE_eq_Inr Let_def)
  obtain v where v: "d = Fin v" "0 \<le> v" using d(1,2) by (cases d) auto
  obtain w where w: "rnd (v * 100) = Fin w" "w \<le> of_int int_max" "0 \<le> w"
    using d(3) v rnd_nonneg_cases [of "v * 100"] by auto
  then have "r = \<lfloor>w + 1 / 2\<rfloor>" and "0 \<le> \<lfloor>w + 1 / 2\<rfloor>"
    using d(4) v w by (simp_all add: d_llround_def llround_def)
  moreover have "\<lfloor>w + 1 / 2\<rfloor> \<le> int_max"
  proof -
    have "w + 1 / 2 < of_int (int_max + 1)" using w(2) by simp
    then have "\<lfloor>w + 1 / 2\<rfloor> < int_max + 1" by (simp only: floor_less_iff)
    then show ?thesis by simp
  qed
  ultimately show ?thesis by simp
qed

lemma vs_line_item_ok: "vs_line_item i j = Inr li \<Longrightarrow> line_ok li"
proof -
  assume "vs_line_item i j = Inr li"
  then obtain tr r jb b p where
    "rateToBps tr (li_path i @ ''.tax_rate'') = Inr r" "toCents jb = Inr b"
    "(case jfind j ''unit_price'' of None \<Rightarrow> Inr None
      | Some v \<Rightarrow> bindE (toCents v) (\<lambda>p. Inr (Some p))) = Inr p"
    "base_value_cents li = b" "tax_rate_bps li = r" "unit_price_cents li = p"
    unfolding vs_line_item_def bindE_eq_Inr by (metis (no_types, lifting) LineItem.select_convs Inr_inject)
  then show ?thesis
    by (cases li) (auto simp: line_ok_def bindE_eq_Inr money_toCents
        dest: rateToBps_range split: option.splits)
qed

lemma total_of_ok:
  "money_ok (cgst_cents b) \<Longrightarrow> money_ok (sgst_cents b) \<Longrightarrow> money_ok (igst_cents b) \<Longrightarrow>
   money_ok (cess_cents b) \<Longrightarrow>
   total_of b = cgst_cents b + sgst_cents b + igst_cents b + cess_cents b"
  unfolding total_of_def money_ok_def by (simp add: i64_nonneg_id i64_max_def)

lemma vs_tax_ok:
  assumes "vs_tax j m = Inr m'"
  shows "\<exists>b. m' = m\<lparr>tax := b\<rparr> \<and> breakdown_ok b"
proof -
  obtain tb c s i e t where h: "money_or_0 tb ''cgst'' = Inr c" "money_or_0 tb ''sgst'' = Inr s"
      "money_or_0 tb ''igst'' = Inr i" "money_or_0 tb ''cess'' = Inr e" and
      t: "(case jfind tb ''total_tax'' of
             None \<Rightarrow> Inr (total_of (TaxBreakdown0\<lparr>cgst_cents := c, sgst_cents := s, igst_cents := i, cess_cents := e\<rparr>))
           | Some v \<Rightarrow> toCents v) = Inr t" and
      m': "m' = m\<lparr>tax := TaxBreakdown0\<lparr>cgst_cents := c, sgst_cents := s, igst_cents := i, cess_cents := e,
             total_tax_cents := t, has_cgst_sgst := (0 < c \<or> 0 < s), has_igst := (0 < i)\<rparr>\<rparr>"
    using assms by (auto simp: vs_tax_def bindE_eq_Inr Let_def)
  have ok: "money_ok c" "money_ok s" "money_ok i" "money_ok e" using h money_money_or_0 by blast+
  have "0 \<le> t \<and> t \<le> 4 * 10 ^ 15"
  proof (cases "jfind tb ''total_tax''")
    case None
    then show ?thesis using t ok total_of_ok [of "TaxBreakdown0\<lparr>cgst_cents := c, sgst_cents := s, igst_cents := i, cess_cents := e\<rparr>"]
      by (auto simp: money_ok_def)
  next
    case (Some v)
    then show ?thesis using t money_toCents by (fastforce simp: money_ok_def)
  qed
  then show ?thesis using ok unfolding m' by (auto simp: breakdown_ok_def)
qed

lemma vs_line_items_ok:
  "vs_line_items j m = Inr m' \<Longrightarrow> \<exists>its. m' = m\<lparr>line_items := its\<rparr> \<and> list_all line_ok its"
  by (fastforce simp: vs_line_items_def bindE_eq_Inr list_all_iff split: option.splits json.splits
      dest: mapE_Inr_set intro: vs_line_item_ok)

lemma vs_irn_frame:
  "vs_irn j m = Inr m' \<Longrightarrow> aato_crore m' = aato_crore m \<and> (irn m = [] \<longrightarrow> irn_present m' \<or> irn m' = [])"
  by (auto simp: vs_irn_def split: option.splits json.splits if_splits)

lemma vs_invoice_frame:
  "vs_invoice j m = Inr m' \<Longrightarrow> irn m = [] \<Longrightarrow>
     (irn_present m' \<or> irn m' = []) \<and> money_ok (matrix_base_value_cents m') \<and>
     aato_crore m' = aato_crore m"
proof -
  assume a: "vs_invoice j m = Inr m'" and irn: "irn m = []"
  then obtain n d p h ty c m1 bv where m1: "vs_irn j (m\<lparr>invoice_number := n, invoice_date := d,
        place_of_supply := p, hsn_string := h, supply_type := ty, classification := c\<rparr>) = Inr m1"
    and bv: "(case jfind j ''base_value'' of
         None \<Rightarrow> Inl (vs_fail ''invoice.base_value'' ''required number not present'')
       | Some v \<Rightarrow> toCents v) = Inr bv"
    and m': "Inr (m1\<lparr>matrix_base_value_cents := bv\<rparr>) = (Inr m' :: StateMatrix result)"
    unfolding vs_invoice_def bindE_eq_Inr by (elim exE conjE) (rule that, assumption+)
  have "money_ok bv" using bv money_toCents by (auto split: option.splits)
  then show ?thesis using irn m' vs_irn_frame [OF m1] by auto
qed

lemma vs_supplier_frame:
  "vs_supplier doc m = Inr m' \<Longrightarrow>
     irn m' = irn m \<and> pred_option (\<lambda>d. isfinite d \<and> \<not> dlt d (Fin 0)) (aato_crore m')"
  by (auto simp: vs_supplier_def bindE_eq_Inr split: option.splits)

lemma vs_buyer_frame: "vs_buyer doc m = Inr m' \<Longrightarrow> irn m' = irn m \<and> aato_crore m' = aato_crore m"
  by (auto simp: vs_buyer_def bindE_eq_Inr split: option.splits)

lemma validate_matrix_ok: "validateAndSanitize doc = Inr m \<Longrightarrow> matrix_ok m"
proof -
  assume "validateAndSanitize doc = Inr m"
  then obtain m1 m2 j m3 m4 m5 m6 where
    s: "vs_supplier doc StateMatrix0 = Inr m1" "vs_buyer doc m1 = Inr m2" "vs_invoice j m2 = Inr m3"
      "vs_line_items j m3 = Inr m4" "vs_tax j m4 = Inr m5" "vs_total j m5 = Inr m6" "vs_irp doc m6 = Inr m"
    by (auto simp: validateAndSanitize_def bindE_eq_Inr)
  have irn: "irn m2 = []" and a: "pred_option (\<lambda>d. isfinite d \<and> \<not> dlt d (Fin 0)) (aato_crore m2)"
    using vs_supplier_frame [OF s(1)] vs_buyer_frame [OF s(2)] by (simp_all add: StateMatrix0_def)
  note i = vs_invoice_frame [OF s(3) irn]
  obtain its where l: "m4 = m3\<lparr>line_items := its\<rparr>" "list_all line_ok its"
    using vs_line_items_ok [OF s(4)] by blast
  obtain b where t: "m5 = m4\<lparr>tax := b\<rparr>" "breakdown_ok b" using vs_tax_ok [OF s(5)] by blast
  obtain c where v: "m6 = m5\<lparr>total_value_cents := c\<rparr>" "money_ok c"
    using s(6) by (auto simp: vs_total_def bindE_eq_Inr money_toCents split: option.splits)
  obtain r where "m = m6\<lparr>irp_reported_on := r\<rparr>"
    using s(7) by (cases m6) (auto simp: vs_irp_def bindE_eq_Inr split: option.splits)
  then show ?thesis using i a l t v by (simp add: matrix_ok_def)
qed

text \<open>
  Property C14. What the validator guarantees of every matrix it returns: all money is a
  non-negative amount of at most 10^15 paise, rates fit an \<open>int\<close>, the tax total cannot have
  wrapped, the head flags are derived from the amounts, an IRN is kept only when declared
  present, and the turnover is finite and non-negative.
\<close>

theorem validateAndSanitize_ok: "validateAndSanitize doc = Inr m \<Longrightarrow> matrix_ok m"
  by (rule validate_matrix_ok)

section \<open>Which exceptions leave the validator\<close>

definition invalid :: "exn \<Rightarrow> bool" where
  "invalid e \<longleftrightarrow> (\<exists>s. e = Invalid_argument s)"

text \<open>The keys the validator reads with \<open>at()\<close>, without testing \<open>contains\<close> first.\<close>

definition at_keys :: "string list" where
  "at_keys = [''gstin'', ''name'', ''address_state'', ''number'', ''date'', ''place_of_supply'',
     ''hsn_string'', ''supply_type'', ''classification'', ''hsn'', ''tax_rate'', ''base_value'']"

definition validator_error :: "exn \<Rightarrow> bool" where
  "validator_error e \<longleftrightarrow> invalid e \<or> (\<exists>k \<in> set at_keys. e = key_not_found k)"

lemma invalid_Invalid [simp, fails_intros]: "invalid (Invalid_argument s)"
  by (simp add: invalid_def)

lemma invalid_vs_fail [simp, fails_intros]: "invalid (vs_fail p w)"
  by (simp add: vs_fail_def)

lemma fails_requireString [fails_intros]: "fails_with invalid (requireString v p)"
  by (cases v) (simp_all add: requireString_def)

lemma fails_get_double [fails_intros]: "is_number v \<Longrightarrow> fails_with P (get_double v)"
  by (cases v) simp_all

lemma fails_get_bool [fails_intros]: "is_boolean v \<Longrightarrow> fails_with P (get_bool v)"
  by (cases v) simp_all

lemma fails_toCents [fails_intros]: "fails_with invalid (toCents v)"
  unfolding toCents_def Let_def by (intro fails_intros fails_get_double) (simp_all add: fails_get_double)

lemma fails_rateToBps [fails_intros]: "fails_with invalid (rateToBps v p)"
  unfolding rateToBps_def Let_def by (intro fails_intros) (simp_all add: fails_get_double)

lemma fails_weaken: "fails_with invalid m \<Longrightarrow> fails_with validator_error m"
  by (auto simp: fails_with_def validator_error_def)

lemma fails_object_field [fails_intros]:
  "(\<And>e'. e' = e \<Longrightarrow> P e') \<Longrightarrow> fails_with P (object_field j k e)"
  by (auto simp: object_field_def fails_with_def split: option.splits if_splits)

lemma object_field_object: "object_field j k e = Inr v \<Longrightarrow> is_object v"
  by (auto simp: object_field_def split: option.splits if_splits)

lemma fails_jat: "is_object j \<Longrightarrow> k \<in> set at_keys \<Longrightarrow> fails_with validator_error (jat j k)"
  by (auto simp: jat_def fails_with_def validator_error_def split: option.splits)

lemma fails_string_at:
  "is_object j \<Longrightarrow> k \<in> set at_keys \<Longrightarrow> fails_with validator_error (string_at j k p)"
  unfolding string_at_def by (intro fails_intros fails_jat fails_weaken)

lemma fails_opt_string [fails_intros]: "fails_with invalid (opt_string j k p)"
  unfolding opt_string_def by (auto intro!: fails_intros split: option.split)

lemma fails_money_or_0 [fails_intros]: "fails_with invalid (money_or_0 j k)"
  unfolding money_or_0_def by (auto intro!: fails_intros split: option.split)

lemma validator_error_vs_fail [simp]: "validator_error (vs_fail p w)"
  by (simp add: validator_error_def)

lemma fails_vs_supplier: "fails_with validator_error (vs_supplier doc m)"
  unfolding vs_supplier_def
  by (intro fails_intros fails_string_at)
    (auto simp: at_keys_def dest: object_field_object split: option.split
      intro!: fails_with_bindE fails_get_double)

lemma fails_vs_buyer: "fails_with validator_error (vs_buyer doc m)"
  unfolding vs_buyer_def
  by (rule fails_weaken) (auto intro!: fails_intros split: option.split)

lemma fails_vs_irn: "fails_with validator_error (vs_irn j m)"
  unfolding vs_irn_def by (auto split: option.split json.split)

lemma fails_vs_invoice: "is_object j \<Longrightarrow> fails_with validator_error (vs_invoice j m)"
  unfolding vs_invoice_def
  by (intro fails_intros fails_string_at fails_vs_irn)
    (auto simp: at_keys_def supply_type_of_def classification_of_def
      intro!: fails_weaken [OF fails_toCents] split: option.split)

lemma fails_vs_line_item: "fails_with validator_error (vs_line_item i j)"
  unfolding vs_line_item_def
  by (intro fails_intros fails_string_at fails_jat fails_weaken)
    (auto simp: at_keys_def intro!: fails_intros split: option.split)

lemma fails_vs_line_items: "fails_with validator_error (vs_line_items j m)"
  unfolding vs_line_items_def
  by (auto intro!: fails_with_bindE fails_with_mapE fails_vs_line_item split: option.split json.split)

lemma fails_vs_tax: "fails_with validator_error (vs_tax j m)"
  unfolding vs_tax_def Let_def
  by (intro fails_weaken fails_intros) (auto intro!: fails_intros split: option.split)

lemma fails_vs_total: "fails_with validator_error (vs_total j m)"
  unfolding vs_total_def
  by (rule fails_weaken) (auto intro!: fails_intros split: option.split)

lemma fails_vs_irp: "fails_with validator_error (vs_irp doc m)"
  unfolding vs_irp_def
  by (rule fails_weaken) (auto intro!: fails_intros split: option.split)

lemma fails_validateAndSanitize: "fails_with validator_error (validateAndSanitize doc)"
  unfolding validateAndSanitize_def
  by (intro fails_with_bindE fails_vs_supplier fails_vs_buyer fails_vs_invoice fails_vs_line_items
      fails_vs_tax fails_vs_total fails_vs_irp)
    (auto intro: object_field_object fails_object_field)

text \<open>
  Property C33. The only exceptions that leave \<open>validateAndSanitize\<close> are
  \<open>std::invalid_argument\<close> and, for a mandatory key read with \<open>at()\<close> that is missing, the JSON
  library's \<open>out_of_range\<close> 403; tax overflow and JSON type errors never do.
\<close>

theorem validateAndSanitize_errors:
  "validateAndSanitize doc = Inl e \<Longrightarrow>
     (\<exists>s. e = Invalid_argument s) \<or> (\<exists>k \<in> set at_keys. e = key_not_found k)"
  using fails_validateAndSanitize [of doc]
  by (simp add: fails_with_def validator_error_def invalid_def)

theorem validateAndSanitize_errors_witness:
  "validateAndSanitize (JArray []) = Inl (vs_fail ''document'' ''root must be a JSON object'') \<and>
   ((\<exists>s. vs_fail ''document'' ''root must be a JSON object'' = Invalid_argument s) \<or>
    (\<exists>k \<in> set at_keys. vs_fail ''document'' ''root must be a JSON object'' = key_not_found k))"
proof -
  have a: "validateAndSanitize (JArray []) = Inl (vs_fail ''document'' ''root must be a JSON object'')"
    by (simp add: validateAndSanitize_def)
  show ?thesis using a validateAndSanitize_errors [OF a] by blast
qed

text \<open>
  A document whose supplier has no GSTIN is not reported with
  \<open>std::invalid_argument\<close>, as the header promises for every structural violation: the exception
  is \<open>out_of_range\<close>, which the handler for rejected extractions does not catch.
\<close>

theorem missing_gstin_is_not_invalid_argument:
  assumes "jfind doc ''supplier'' = Some sj" and "is_object sj" and "jfind sj ''gstin'' = None"
  shows "validateAndSanitize doc = Inl (key_not_found ''gstin'')
    \<and> (\<nexists>s. key_not_found ''gstin'' = Invalid_argument s)"
  using assms jfind_is_object [OF assms(1)]
  by (simp add: validateAndSanitize_def vs_supplier_def object_field_def string_at_def jat_def
      key_not_found_def out_of_range_def)

theorem missing_gstin_is_not_invalid_argument_witness:
  "validateAndSanitize (JObject [(''supplier'', JObject [(''name'', JString ''Acme'')])])
     = Inl (key_not_found ''gstin'')"
  using missing_gstin_is_not_invalid_argument
    [of "JObject [(''supplier'', JObject [(''name'', JString ''Acme'')])]"
      "JObject [(''name'', JString ''Acme'')]"]
  by (simp add: omap_get_def)

section \<open>Evaluating concrete documents\<close>

lemma toCents_whole:
  assumes "0 \<le> n" and "n \<le> 10 ^ 13"
  shows "toCents (JFloat (Fin (of_int n))) = Inr (100 * n)" and "toCents (JInt n) = Inr (100 * n)"
    and "toCents (JUInt n) = Inr (100 * n)"
proof -
  have i: "rnd (of_int n) = Fin (of_int n)" using assms by (intro rnd_of_int) simp
  have "rnd (of_int (n * 100)) = Fin (of_int (n * 100))" using assms by (intro rnd_of_int) simp
  then have w: "dmul (Fin (of_int n)) (Fin 100) = Fin (of_int (n * 100))" by simp
  have "of_int (n * 100) \<le> (of_int (10 ^ 15) :: rat)" using assms by (simp only: of_int_le_iff) simp
  then have "toCents (JFloat (Fin (of_int n))) = Inr (llround (of_int (n * 100)))"
    using toCents_float [OF w] assms by simp
  moreover have "llround (of_int (n * 100)) = n * 100" by (rule llround_near) simp
  ultimately show f: "toCents (JFloat (Fin (of_int n))) = Inr (100 * n)" by simp
  show "toCents (JInt n) = Inr (100 * n)" and "toCents (JUInt n) = Inr (100 * n)"
    using f by (simp_all add: toCents_def i)
qed

lemma rateToBps_whole:
  assumes "0 \<le> n" and "n \<le> 10 ^ 6"
  shows "rateToBps (JFloat (Fin (of_int n))) p = Inr (100 * n)" and "rateToBps (JInt n) p = Inr (100 * n)"
    and "rateToBps (JUInt n) p = Inr (100 * n)"
proof -
  have i: "rnd (of_int n) = Fin (of_int n)" using assms by (intro rnd_of_int) simp
  have "rnd (of_int (n * 100)) = Fin (of_int (n * 100))" using assms by (intro rnd_of_int) simp
  then have w: "dmul (Fin (of_int n)) (Fin 100) = Fin (of_int (n * 100))" by simp
  have "of_int (n * 100) \<le> (of_int int_max :: rat)" using assms by (simp only: of_int_le_iff) (simp add: int_max_def)
  then have "rateToBps (JFloat (Fin (of_int n))) p = Inr (llround (of_int (n * 100)))"
    using rateToBps_float [OF w refl] assms by simp
  moreover have "llround (of_int (n * 100)) = n * 100" by (rule llround_near) simp
  ultimately show f: "rateToBps (JFloat (Fin (of_int n))) p = Inr (100 * n)" by simp
  show "rateToBps (JInt n) p = Inr (100 * n)" and "rateToBps (JUInt n) p = Inr (100 * n)"
    using f by (simp_all add: rateToBps_def i)
qed

text \<open>The same for literals, as rewrite rules for evaluating concrete documents.\<close>

lemma money_literals [simp]:
  "toCents (JInt 0) = Inr 0" "toCents (JUInt 0) = Inr 0" "toCents (JFloat (Fin 0)) = Inr 0"
  "numeral k \<le> (10 ^ 13 :: int) \<Longrightarrow> toCents (JInt (numeral k)) = Inr (100 * numeral k)"
  "numeral k \<le> (10 ^ 13 :: int) \<Longrightarrow> toCents (JUInt (numeral k)) = Inr (100 * numeral k)"
  "numeral k \<le> (10 ^ 13 :: int) \<Longrightarrow> toCents (JFloat (Fin (numeral k))) = Inr (100 * numeral k)"
  "numeral k \<le> (10 ^ 6 :: int) \<Longrightarrow> rateToBps (JInt (numeral k)) p = Inr (100 * numeral k)"
  "numeral k \<le> (10 ^ 6 :: int) \<Longrightarrow> rateToBps (JUInt (numeral k)) p = Inr (100 * numeral k)"
  "numeral k \<le> (10 ^ 6 :: int) \<Longrightarrow> rateToBps (JFloat (Fin (numeral k))) p = Inr (100 * numeral k)"
  using toCents_whole [of 0] toCents_whole [of "numeral k"] rateToBps_whole [of "numeral k"]
  by simp_all

lemmas validator_defs = validateAndSanitize_def vs_supplier_def vs_buyer_def vs_invoice_def vs_irn_def
  vs_line_items_def vs_line_item_def vs_tax_def vs_total_def vs_irp_def object_field_def string_at_def
  opt_string_def money_or_0_def requireString_def supply_type_of_def classification_of_def jat_def

end
