(* ===== verification/GSTRGenerator.thy ===== *)
theory GSTRGenerator
  imports StateMatrix
begin

text \<open>
  backend/src/GSTRGenerator.cpp: the three CSV returns. Amounts are printed from integer paise;
  every total the returns carry is recomputed from the line items with the statutory split, and
  every 64-bit addition is wrapped by \<open>i64\<close>. The lemmas show that the CSV text reads back
  (with a reader for RFC 4180) as the rows that were written, that the sums are exact for
  validated invoices up to a stated number of lines, and what is missing from the returns.
\<close>

section \<open>Formatting\<close>

definition centsToRupees :: "cents \<Rightarrow> string" where
  "centsToRupees c = dec_str \<bar>c_div c 100\<bar> @ ''.'' @ two_digits \<bar>c_mod c 100\<bar>"

definition ratePercent :: "int \<Rightarrow> string" where
  "ratePercent r =
     (if c_mod r 100 = 0 then int_str (c_div r 100)
      else take 31 (fmt_f2 (rnd (of_int r / 100))))"

definition needs_quote :: "char \<Rightarrow> bool" where
  "needs_quote c \<longleftrightarrow> c = CHR '','' \<or> c = CHR 0x22 \<or> c = CHR 0x0A \<or> c = CHR 0x0D"

definition csvEscaped :: "string \<Rightarrow> string" where
  "csvEscaped field =
     (if \<not> list_ex needs_quote field then field
      else [CHR 0x22] @ concat (map (\<lambda>ch. if ch = CHR 0x22 then [CHR 0x22, ch] else [ch]) field) @ [CHR 0x22])"

definition csvRow :: "string list \<Rightarrow> string" where
  "csvRow fs = join_with '','' (map csvEscaped fs) @ CRLF"

section \<open>Aggregates\<close>

record TaxAggregate =
  agg_taxable :: cents
  agg_igst :: cents
  agg_cgst :: cents
  agg_sgst :: cents
  agg_cess :: cents
  agg_qty :: dbl

definition TaxAggregate0 :: TaxAggregate where
  "TaxAggregate0 = \<lparr>agg_taxable = 0, agg_igst = 0, agg_cgst = 0, agg_sgst = 0, agg_cess = 0,
     agg_qty = Fin 0\<rparr>"

definition totalTax :: "TaxAggregate \<Rightarrow> cents" where
  "totalTax a = i64 (i64 (i64 (agg_igst a + agg_cgst a) + agg_sgst a) + agg_cess a)"

definition agg_add :: "cents \<Rightarrow> TaxBreakdown \<Rightarrow> dbl \<Rightarrow> TaxAggregate \<Rightarrow> TaxAggregate" where
  "agg_add base s q a =
     \<lparr>agg_taxable = i64 (agg_taxable a + base), agg_igst = i64 (agg_igst a + igst_cents s),
      agg_cgst = i64 (agg_cgst a + cgst_cents s), agg_sgst = i64 (agg_sgst a + sgst_cents s),
      agg_cess = i64 (agg_cess a + cess_cents s), agg_qty = dadd (agg_qty a) q\<rparr>"

definition recomputeSplit :: "StateMatrix \<Rightarrow> LineItem \<Rightarrow> TaxBreakdown result" where
  "recomputeSplit m item = computeTaxSplit (base_value_cents item) (tax_rate_bps item) (supply_type m)"

definition quantityString :: "dbl \<Rightarrow> string" where
  "quantityString q = take 31 (fmt_f2 q)"

definition item_qty :: "LineItem \<Rightarrow> dbl" where
  "item_qty li = (case quantity li of None \<Rightarrow> Fin 0 | Some q \<Rightarrow> q)"

definition placeOfSupplyCode :: "StateMatrix \<Rightarrow> string" where
  "placeOfSupplyCode m =
     (if place_of_supply m = ''same_as_supplier_state'' then supplier_state m else place_of_supply m)"

section \<open>GSTR-1, table 4A\<close>

definition b2b_header :: string where
  "b2b_header = ''gstin_recipient,invoice_number,invoice_date,invoice_value,'' @
     ''place_of_supply,supply_type,gst_rate,taxable_value,igst_amt,'' @
     ''cgst_amt,sgst_amt,cess_amt'' @ CRLF"

definition b2b_totals :: "StateMatrix \<Rightarrow> (cents \<times> cents) result" where
  "b2b_totals m =
     foldE (\<lambda>li (taxable, tx). bindE (recomputeSplit m li) (\<lambda>s.
         Inr (i64 (taxable + base_value_cents li), i64 (tx + total_tax_cents s)))) (line_items m) (0, 0)"

definition b2b_fields :: "StateMatrix \<Rightarrow> string \<Rightarrow> LineItem \<Rightarrow> TaxBreakdown \<Rightarrow> string list" where
  "b2b_fields m invoiceValue li s =
     [case buyer_gstin m of None \<Rightarrow> [] | Some g \<Rightarrow> g,
      invoice_number m, invoice_date m, invoiceValue, placeOfSupplyCode m,
      (if supply_type m = INTRA then ''Intra'' else ''Inter''),
      ratePercent (tax_rate_bps li), centsToRupees (base_value_cents li),
      centsToRupees (igst_cents s), centsToRupees (cgst_cents s),
      centsToRupees (sgst_cents s), centsToRupees (cess_cents s)]"

definition b2b_invoice :: "StateMatrix \<Rightarrow> string list list result" where
  "b2b_invoice m =
     (if classification m \<noteq> B2B then Inr []
      else bindE (b2b_totals m) (\<lambda>(taxable, tx).
        mapE (\<lambda>li. bindE (recomputeSplit m li) (\<lambda>s.
           Inr (b2b_fields m (centsToRupees (i64 (taxable + tx))) li s))) (line_items m)))"

definition gstr1B2B :: "StateMatrix list \<Rightarrow> string result" where
  "gstr1B2B invoices =
     bindE (mapE b2b_invoice invoices) (\<lambda>rs. Inr (b2b_header @ concat (map csvRow (concat rs))))"

section \<open>GSTR-1, HSN summary\<close>

definition hsn_header :: string where
  "hsn_header = ''hsn_code,gst_rate,taxable_value,igst_amt,cgst_amt,sgst_amt,'' @
     ''cess_amt,quantity'' @ CRLF"

type_synonym hsn_table = "((string \<times> int) \<times> TaxAggregate) list"

definition hsn_line :: "StateMatrix \<Rightarrow> LineItem \<Rightarrow> hsn_table \<Rightarrow> hsn_table result" where
  "hsn_line m li agg =
     bindE (recomputeSplit m li) (\<lambda>s.
     Inr (omap_upd (hsn li, tax_rate_bps li) TaxAggregate0
            (agg_add (base_value_cents li) s (item_qty li)) agg))"

definition hsn_aggregate :: "StateMatrix list \<Rightarrow> hsn_table result" where
  "hsn_aggregate invoices = foldE (\<lambda>m. foldE (hsn_line m) (line_items m)) invoices []"

definition hsn_fields :: "(string \<times> int) \<times> TaxAggregate \<Rightarrow> string list" where
  "hsn_fields e = (case e of ((h, bps), a) \<Rightarrow>
     [h, ratePercent bps, centsToRupees (agg_taxable a), centsToRupees (agg_igst a),
      centsToRupees (agg_cgst a), centsToRupees (agg_sgst a), centsToRupees (agg_cess a),
      quantityString (agg_qty a)])"

definition gstr1HsnSummary :: "StateMatrix list \<Rightarrow> string result" where
  "gstr1HsnSummary invoices =
     bindE (hsn_aggregate invoices) (\<lambda>agg. Inr (hsn_header @ concat (map (csvRow \<circ> hsn_fields) agg)))"

section \<open>GSTR-3B, table 4\<close>

definition b3_header :: string where
  "b3_header = ''section,description,taxable_value,igst_amt,cgst_amt,sgst_amt,'' @
     ''cess_amt,total_tax_amt'' @ CRLF"

record Buckets =
  intra :: TaxAggregate
  inter :: TaxAggregate
  hasIntra :: bool
  hasInter :: bool

definition Buckets0 :: Buckets where
  "Buckets0 = \<lparr>intra = TaxAggregate0, inter = TaxAggregate0, hasIntra = False, hasInter = False\<rparr>"

definition b3_line :: "StateMatrix \<Rightarrow> LineItem \<Rightarrow> Buckets \<Rightarrow> Buckets result" where
  "b3_line m li b =
     bindE (recomputeSplit m li) (\<lambda>s.
     let add = agg_add (base_value_cents li) s (item_qty li) in
     Inr (if supply_type m = INTRA then b\<lparr>intra := add (intra b), hasIntra := True\<rparr>
          else b\<lparr>inter := add (inter b), hasInter := True\<rparr>))"

definition b3_buckets :: "StateMatrix list \<Rightarrow> Buckets result" where
  "b3_buckets invoices = foldE (\<lambda>m. foldE (b3_line m) (line_items m)) invoices Buckets0"

definition b3_fields :: "string \<Rightarrow> string \<Rightarrow> TaxAggregate \<Rightarrow> string list" where
  "b3_fields sec desc a =
     [sec, desc, centsToRupees (agg_taxable a), centsToRupees (agg_igst a), centsToRupees (agg_cgst a),
      centsToRupees (agg_sgst a), centsToRupees (agg_cess a), centsToRupees (totalTax a)]"

definition b3_rows :: "Buckets \<Rightarrow> string list list" where
  "b3_rows b =
     (if hasIntra b then [b3_fields ''4A-Intra'' ''Outward taxable supplies - intra-state'' (intra b)] else []) @
     (if hasInter b then [b3_fields ''4A-Inter'' ''Outward taxable supplies - inter-state'' (inter b)] else [])"

definition gstr3B :: "StateMatrix list \<Rightarrow> string result" where
  "gstr3B invoices =
     bindE (b3_buckets invoices) (\<lambda>b. Inr (b3_header @ concat (map csvRow (b3_rows b))))"

section \<open>Reading the CSV back\<close>

text \<open>
  A reader for RFC 4180, independent of the writer: fields separated by commas, rows ended by
  CRLF, a field quoted as a whole or not at all, a quote inside a quoted field doubled.
\<close>

datatype csv_mode = At_start | Plain | Quoted | Closed

fun csv_read :: "csv_mode \<Rightarrow> string \<Rightarrow> string list \<Rightarrow> string \<Rightarrow> string list list option" where
  "csv_read md f r [] = (if md = At_start \<and> r = [] then Some [] else None)"
| "csv_read md f r (c # s) =
     (if md = Quoted then
        (if c = CHR 0x22 then csv_read Closed f r s else csv_read Quoted (f @ [c]) r s)
      else if c = CHR 0x22 then
        (if md = At_start then csv_read Quoted [] r s
         else if md = Closed then csv_read Quoted (f @ [c]) r s else None)
      else if c = CHR '','' then csv_read At_start [] (r @ [f]) s
      else if c = CHR 0x0D then
        (case s of d # s' \<Rightarrow>
            (if d = CHR 0x0A then map_option (Cons (r @ [f])) (csv_read At_start [] [] s') else None)
          | [] \<Rightarrow> None)
      else if c = CHR 0x0A \<or> md = Closed then None
      else csv_read Plain (f @ [c]) r s)"

definition csv_parse :: "string \<Rightarrow> string list list option" where
  "csv_parse s = csv_read At_start [] [] s"

lemma csv_read_plain:
  "\<not> list_ex needs_quote xs \<Longrightarrow> xs \<noteq> [] \<Longrightarrow> md = At_start \<or> md = Plain \<Longrightarrow>
     csv_read md f r (xs @ t) = csv_read Plain (f @ xs) r t"
proof (induction xs arbitrary: f md)
  case (Cons x xs)
  then have "csv_read md f r ((x # xs) @ t) = csv_read Plain (f @ [x]) r (xs @ t)"
    by (auto simp: needs_quote_def)
  then show ?case using Cons by (cases "xs = []") auto
qed simp

lemma csv_read_quoted:
  "csv_read Quoted f r (concat (map (\<lambda>ch. if ch = CHR 0x22 then [CHR 0x22, ch] else [ch]) xs) @ t) =
     csv_read Quoted (f @ xs) r t"
  by (induction xs arbitrary: f) simp_all

lemma csv_read_field:
  "csv_read At_start [] r (csvEscaped f @ CHR '','' # t) = csv_read At_start [] (r @ [f]) t"
  "csv_read At_start [] r (csvEscaped f @ CRLF @ t) = map_option (Cons (r @ [f])) (csv_read At_start [] [] t)"
proof -
  have q: "csv_read At_start [] r (csvEscaped f @ u) = csv_read Closed f r u" if "list_ex needs_quote f" for u
    using that by (simp add: csvEscaped_def csv_read_quoted)
  have p: "csv_read At_start [] r (csvEscaped f @ u) = csv_read Plain f r u"
    if "\<not> list_ex needs_quote f" "f \<noteq> []" for u
    using that csv_read_plain [of f At_start "[]" r u] by (simp add: csvEscaped_def)
  have e: "csvEscaped [] = []" by (simp add: csvEscaped_def)
  have c: "csv_read md f r (CHR '','' # t) = csv_read At_start [] (r @ [f]) t"
    "csv_read md f r (CRLF @ t) = map_option (Cons (r @ [f])) (csv_read At_start [] [] t)"
    if "md \<noteq> Quoted" for md f
    using that by (simp_all add: CRLF_def)
  consider "f = []" | "f \<noteq> []" "\<not> list_ex needs_quote f" | "list_ex needs_quote f" by blast
  note cases = this
  show "csv_read At_start [] r (csvEscaped f @ CHR '','' # t) = csv_read At_start [] (r @ [f]) t"
    by (cases rule: cases) (simp_all add: q p e c del: csv_read.simps)
  show "csv_read At_start [] r (csvEscaped f @ CRLF @ t) = map_option (Cons (r @ [f])) (csv_read At_start [] [] t)"
    by (cases rule: cases) (simp_all add: q p e c del: csv_read.simps)
qed

lemma csv_read_row:
  "fs \<noteq> [] \<Longrightarrow> csv_read At_start [] r (csvRow fs @ t) =
     map_option (Cons (r @ fs)) (csv_read At_start [] [] t)"
proof (induction fs arbitrary: r rule: induct_list012)
  case (2 f)
  then show ?case by (simp add: csvRow_def csv_read_field)
next
  case (3 f g fs)
  then show ?case by (simp add: csvRow_def csv_read_field)
qed simp

lemma csv_parse_rows:
  "[] \<notin> set rows \<Longrightarrow> csv_parse (concat (map csvRow rows)) = Some rows"
  unfolding csv_parse_def
  by (induction rows) (auto simp: csv_read_row)

section \<open>Reading the numbers back\<close>

definition rupees_value :: "string \<Rightarrow> cents" where
  "rupees_value s = (case split_at CHR ''.'' s of
     [w, f] \<Rightarrow> 100 * digits_val 0 w + digits_val 0 f | _ \<Rightarrow> 0)"

lemma digits_no_dot: "list_all is_digit s \<Longrightarrow> CHR ''.'' \<notin> set s"
  by (auto simp: list_all_iff)

lemma split_at_two: "c \<notin> set a \<Longrightarrow> c \<notin> set b \<Longrightarrow> split_at c (a @ c # b) = [a, b]"
  by (simp add: split_at_append split_at_single)

lemma centsToRupees_abs:
  "centsToRupees c = dec_str (\<bar>c\<bar> div 100) @ ''.'' @ two_digits (\<bar>c\<bar> mod 100)"
proof -
  have d: "\<bar>c_div c 100\<bar> = \<bar>c\<bar> div 100"
    by (cases "c = 0") (auto simp: c_div_def abs_mult abs_sgn_eq pos_imp_zdiv_nonneg_iff)
  have "c = sgn c * \<bar>c\<bar>" by (simp add: mult_sgn_abs)
  then have "c_mod c 100 = sgn c * (\<bar>c\<bar> mod 100)"
    by (simp add: c_mod_def c_div_def algebra_simps flip: minus_div_mult_eq_mod)
  then have "\<bar>c_mod c 100\<bar> = \<bar>c\<bar> mod 100"
    by (cases "c = 0") (auto simp: abs_mult abs_sgn_eq)
  then show ?thesis using d by (simp add: centsToRupees_def)
qed

lemma rupees_back: "rupees_value (centsToRupees c) = \<bar>c\<bar>"
proof -
  have d: "CHR ''.'' \<notin> set (dec_str n)" "CHR ''.'' \<notin> set (two_digits n)" if "0 \<le> n" for n
    using that digits_no_dot dec_str_digits two_digits_digits by auto
  have "split_at CHR ''.'' (centsToRupees c) = [dec_str (\<bar>c\<bar> div 100), two_digits (\<bar>c\<bar> mod 100)]"
    using split_at_two [OF d(1) d(2), of "\<bar>c\<bar> div 100" "\<bar>c\<bar> mod 100"] by (simp add: centsToRupees_abs)
  then show ?thesis by (simp add: rupees_value_def)
qed

text \<open>
  The rupee amounts of the returns determine the paise: every amount is printed with
  at least one digit, a point and exactly two decimals, and reads back as its absolute value (the
  sign is dropped by the two calls of \<open>std::abs\<close>).
\<close>

theorem centsToRupees_value:
  "rupees_value (centsToRupees c) = \<bar>c\<bar> \<and>
   (\<exists>w f. centsToRupees c = w @ ''.'' @ f \<and> length f = 2 \<and> list_all is_digit (w @ f) \<and> w \<noteq> [])"
proof (intro conjI)
  show "\<exists>w f. centsToRupees c = w @ ''.'' @ f \<and> length f = 2 \<and> list_all is_digit (w @ f) \<and> w \<noteq> []"
    using two_digits_length [of "\<bar>c\<bar> mod 100"] dec_str_digits [of "\<bar>c\<bar> div 100"]
      two_digits_digits [of "\<bar>c\<bar> mod 100"]
    unfolding centsToRupees_abs
    by - (rule exI [where x = "dec_str (\<bar>c\<bar> div 100)"],
        rule exI [where x = "two_digits (\<bar>c\<bar> mod 100)"], simp add: pos_imp_zdiv_nonneg_iff)
qed (rule rupees_back)

section \<open>The returns as tables\<close>

definition b2b_columns :: "string list" where
  "b2b_columns = [''gstin_recipient'', ''invoice_number'', ''invoice_date'', ''invoice_value'',
     ''place_of_supply'', ''supply_type'', ''gst_rate'', ''taxable_value'', ''igst_amt'',
     ''cgst_amt'', ''sgst_amt'', ''cess_amt'']"

definition hsn_columns :: "string list" where
  "hsn_columns = [''hsn_code'', ''gst_rate'', ''taxable_value'', ''igst_amt'', ''cgst_amt'',
     ''sgst_amt'', ''cess_amt'', ''quantity'']"

definition b3_columns :: "string list" where
  "b3_columns = [''section'', ''description'', ''taxable_value'', ''igst_amt'', ''cgst_amt'',
     ''sgst_amt'', ''cess_amt'', ''total_tax_amt'']"

lemma header_rows:
  "b2b_header = csvRow b2b_columns" "hsn_header = csvRow hsn_columns" "b3_header = csvRow b3_columns"
  by (simp_all add: b2b_header_def hsn_header_def b3_header_def b2b_columns_def hsn_columns_def
      b3_columns_def csvRow_def csvEscaped_def needs_quote_def)

lemma columns_nonempty [simp]: "b2b_columns \<noteq> []" "hsn_columns \<noteq> []" "b3_columns \<noteq> []"
  by (simp_all add: b2b_columns_def hsn_columns_def b3_columns_def)

lemma csv_parse_table:
  "hd_row \<noteq> [] \<Longrightarrow> [] \<notin> set rows \<Longrightarrow>
     csv_parse (csvRow hd_row @ concat (map csvRow rows)) = Some (hd_row # rows)"
  using csv_parse_rows [of "hd_row # rows"] by simp

lemma b2b_invoice_rows:
  "b2b_invoice m = Inr rows \<Longrightarrow> r \<in> set rows \<Longrightarrow> r \<noteq> []"
  by (auto simp: b2b_invoice_def bindE_eq_Inr b2b_fields_def split: if_splits dest!: mapE_Inr_set)

text \<open>
  Property C28. Whatever bytes the documents contain, commas, quotes and line breaks included, the
  three returns read back, by the rules of RFC 4180, as the rows that were written: the GSTR-1
  rows invoice by invoice, the HSN entries, the GSTR-3B buckets, each under its header row.
\<close>

theorem returns_read_back:
  "(gstr1B2B ms = Inr out \<longrightarrow>
      (\<exists>rs. mapE b2b_invoice ms = Inr rs \<and> csv_parse out = Some (b2b_columns # concat rs))) \<and>
   (gstr1HsnSummary ms = Inr out \<longrightarrow>
      (\<exists>agg. hsn_aggregate ms = Inr agg \<and> csv_parse out = Some (hsn_columns # map hsn_fields agg))) \<and>
   (gstr3B ms = Inr out \<longrightarrow>
      (\<exists>b. b3_buckets ms = Inr b \<and> csv_parse out = Some (b3_columns # b3_rows b)))"
proof (intro conjI impI)
  assume "gstr1B2B ms = Inr out"
  then obtain rs where rs: "mapE b2b_invoice ms = Inr rs"
    and out: "out = csvRow b2b_columns @ concat (map csvRow (concat rs))"
    by (auto simp: gstr1B2B_def bindE_eq_Inr header_rows)
  have "[] \<notin> set (concat rs)"
  proof
    assume "[] \<in> set (concat rs)"
    then obtain r where "r \<in> set rs" "[] \<in> set r" by auto
    then show False using mapE_Inr_set [OF rs] b2b_invoice_rows by blast
  qed
  note csv_parse_table [OF columns_nonempty(1) this]
  then show "\<exists>rs. mapE b2b_invoice ms = Inr rs \<and> csv_parse out = Some (b2b_columns # concat rs)"
    using rs unfolding out by blast
next
  assume "gstr1HsnSummary ms = Inr out"
  then obtain agg where agg: "hsn_aggregate ms = Inr agg"
    and out: "out = csvRow hsn_columns @ concat (map csvRow (map hsn_fields agg))"
    by (auto simp: gstr1HsnSummary_def bindE_eq_Inr header_rows)
  have "[] \<notin> set (map hsn_fields agg)" by (auto simp: hsn_fields_def)
  note csv_parse_table [OF columns_nonempty(2) this]
  then show "\<exists>agg. hsn_aggregate ms = Inr agg \<and> csv_parse out = Some (hsn_columns # map hsn_fields agg)"
    using agg unfolding out by blast
next
  assume "gstr3B ms = Inr out"
  then obtain b where b: "b3_buckets ms = Inr b"
    and out: "out = csvRow b3_columns @ concat (map csvRow (b3_rows b))"
    by (auto simp: gstr3B_def bindE_eq_Inr header_rows)
  have "[] \<notin> set (b3_rows b)" by (auto simp: b3_rows_def b3_fields_def split: if_splits)
  note csv_parse_table [OF columns_nonempty(3) this]
  then show "\<exists>b. b3_buckets ms = Inr b \<and> csv_parse out = Some (b3_columns # b3_rows b)"
    using b unfolding out by blast
qed

section \<open>When a return can be generated\<close>

definition ms_lines :: "StateMatrix list \<Rightarrow> (StateMatrix \<times> LineItem) list" where
  "ms_lines ms = concat (map (\<lambda>m. map (Pair m) (line_items m)) ms)"

definition line_base :: "StateMatrix \<times> LineItem \<Rightarrow> cents" where
  "line_base p = base_value_cents (snd p)"

definition line_tax :: "StateMatrix \<times> LineItem \<Rightarrow> TaxBreakdown" where
  "line_tax p = split_of (line_base p) (tax_rate_bps (snd p)) (supply_type (fst p))"

definition line_taxable :: "StateMatrix \<times> LineItem \<Rightarrow> bool" where
  "line_taxable p \<longleftrightarrow>
     line_base p * head_rate (tax_rate_bps (snd p)) (supply_type (fst p)) + 5001 \<le> i64_max"

definition tax_overflow :: exn where
  "tax_overflow = Overflow_error ''StateMatrix: taxOn overflow''"

lemma head_rate_nonneg: "0 \<le> r \<Longrightarrow> 0 \<le> head_rate r ty"
  by (cases ty) (simp_all add: head_rate_def)

lemma computeTaxSplit_overflow:
  "0 \<le> b \<Longrightarrow> 0 \<le> r \<Longrightarrow> i64_max < b * head_rate r ty + 5001 \<Longrightarrow>
     computeTaxSplit b r ty = Inl tax_overflow"
  using taxOn_overflow [of b "head_rate r ty"] head_rate_nonneg [of r ty]
  by (cases ty) (simp_all add: computeTaxSplit_def head_rate_def tax_overflow_def)

lemma recomputeSplit_eq:
  assumes "line_ok l"
  shows "recomputeSplit m l =
           (if line_taxable (m, l) then Inr (line_tax (m, l)) else Inl tax_overflow)"
proof -
  have "0 \<le> base_value_cents l" "0 \<le> tax_rate_bps l"
    using assms by (auto simp: line_ok_def money_ok_def)
  then show ?thesis
    using computeTaxSplit_overflow computeTaxSplit_iff
    by (auto simp: recomputeSplit_def line_taxable_def line_tax_def line_base_def not_le)
qed

lemma mapE_guard:
  "(\<And>x. x \<in> set xs \<Longrightarrow> f x = (if G x then Inr (g x) else Inl e)) \<Longrightarrow>
     mapE f xs = (if \<forall>x \<in> set xs. G x then Inr (map g xs) else Inl e)"
  by (induction xs) auto

lemma foldE_guard:
  "(\<And>x s. x \<in> set xs \<Longrightarrow> f x s = (if G x then Inr (g x s) else Inl e)) \<Longrightarrow>
     foldE f xs s = (if \<forall>x \<in> set xs. G x then Inr (fold g xs s) else Inl e)"
  by (induction xs arbitrary: s) auto

lemma foldE_map: "foldE f (map g xs) = foldE (\<lambda>x. f (g x)) xs"
proof
  show "foldE f (map g xs) s = foldE (\<lambda>x. f (g x)) xs s" for s
    by (induction xs arbitrary: s) (auto intro!: bindE_cong)
qed

lemma matrix_line_ok: "matrix_ok m \<Longrightarrow> l \<in> set (line_items m) \<Longrightarrow> line_ok l"
  by (simp add: matrix_ok_def list_all_iff)

lemma ms_lines_ok: "list_all matrix_ok ms \<Longrightarrow> p \<in> set (ms_lines ms) \<Longrightarrow> line_ok (snd p)"
  by (auto simp: ms_lines_def list_all_iff matrix_line_ok)

lemma foldE_lines:
  assumes "list_all matrix_ok ms"
    and "\<And>m l s. line_ok l \<Longrightarrow> f m l s =
           (if line_taxable (m, l) then Inr (g (m, l) s) else Inl tax_overflow)"
  shows "foldE (\<lambda>m. foldE (f m) (line_items m)) ms s =
           (if \<forall>p \<in> set (ms_lines ms). line_taxable p then Inr (fold g (ms_lines ms) s)
            else Inl tax_overflow)"
proof -
  have "foldE (\<lambda>m. foldE (f m) (line_items m)) ms s =
      foldE (\<lambda>m. foldE (\<lambda>p. f (fst p) (snd p)) (map (Pair m) (line_items m))) ms s"
    by (simp add: foldE_map)
  also have "\<dots> = foldE (\<lambda>p. f (fst p) (snd p)) (ms_lines ms) s"
    by (simp add: foldE_concat ms_lines_def)
  also have "\<dots> = (if \<forall>p \<in> set (ms_lines ms). line_taxable p then Inr (fold g (ms_lines ms) s)
      else Inl tax_overflow)"
    using assms by (intro foldE_guard) (auto dest: ms_lines_ok)
  finally show ?thesis .
qed

definition agg_step :: "StateMatrix \<times> LineItem \<Rightarrow> TaxAggregate \<Rightarrow> TaxAggregate" where
  "agg_step p = agg_add (line_base p) (line_tax p) (item_qty (snd p))"

definition agg_of :: "(StateMatrix \<times> LineItem) list \<Rightarrow> TaxAggregate" where
  "agg_of ps = fold agg_step ps TaxAggregate0"

definition line_key :: "StateMatrix \<times> LineItem \<Rightarrow> string \<times> int" where
  "line_key p = (hsn (snd p), tax_rate_bps (snd p))"

lemma hsn_aggregate_eq:
  assumes "list_all matrix_ok ms"
  shows "hsn_aggregate ms =
    (if \<forall>p \<in> set (ms_lines ms). line_taxable p
     then Inr (fold (\<lambda>p. omap_upd (line_key p) TaxAggregate0 (agg_step p)) (ms_lines ms) [])
     else Inl tax_overflow)"
  unfolding hsn_aggregate_def
  by (rule foldE_lines [OF assms])
    (auto simp: hsn_line_def recomputeSplit_eq line_key_def agg_step_def line_base_def)

definition is_intra :: "StateMatrix \<times> LineItem \<Rightarrow> bool" where
  "is_intra p \<longleftrightarrow> supply_type (fst p) = INTRA"

definition bucket_step :: "StateMatrix \<times> LineItem \<Rightarrow> Buckets \<Rightarrow> Buckets" where
  "bucket_step p b =
     (if is_intra p then b\<lparr>intra := agg_step p (intra b), hasIntra := True\<rparr>
      else b\<lparr>inter := agg_step p (inter b), hasInter := True\<rparr>)"

lemma fold_bucket_step:
  "fold bucket_step ps b =
     \<lparr>intra = fold agg_step (filter is_intra ps) (intra b),
      inter = fold agg_step (filter (Not \<circ> is_intra) ps) (inter b),
      hasIntra = (hasIntra b \<or> (\<exists>p \<in> set ps. is_intra p)),
      hasInter = (hasInter b \<or> (\<exists>p \<in> set ps. \<not> is_intra p))\<rparr>"
  by (induction ps arbitrary: b) (auto simp: bucket_step_def)

lemma b3_buckets_eq:
  assumes "list_all matrix_ok ms"
  shows "b3_buckets ms =
    (if \<forall>p \<in> set (ms_lines ms). line_taxable p
     then Inr \<lparr>intra = agg_of (filter is_intra (ms_lines ms)),
               inter = agg_of (filter (Not \<circ> is_intra) (ms_lines ms)),
               hasIntra = (\<exists>p \<in> set (ms_lines ms). is_intra p),
               hasInter = (\<exists>p \<in> set (ms_lines ms). \<not> is_intra p)\<rparr>
     else Inl tax_overflow)"
proof -
  have "b3_buckets ms =
    (if \<forall>p \<in> set (ms_lines ms). line_taxable p then Inr (fold bucket_step (ms_lines ms) Buckets0)
     else Inl tax_overflow)"
    unfolding b3_buckets_def
    by (rule foldE_lines [OF assms])
      (auto simp: b3_line_def recomputeSplit_eq bucket_step_def is_intra_def agg_step_def line_base_def Let_def)
  then show ?thesis by (simp add: fold_bucket_step Buckets0_def agg_of_def)
qed

section \<open>The sums are exact\<close>

text \<open>
  A bound on the number of lines under which no 64-bit sum of a return can wrap: a validated
  line adds at most 10^15 paise of value and less than 10^15 paise of tax per head.
\<close>

definition max_lines :: nat where
  "max_lines = 3000"

definition lines_fit :: "StateMatrix list \<Rightarrow> bool" where
  "lines_fit ms \<longleftrightarrow> list_all matrix_ok ms \<and> length (ms_lines ms) \<le> max_lines"

definition sums_ok :: "(StateMatrix \<times> LineItem) list \<Rightarrow> bool" where
  "sums_ok ps \<longleftrightarrow> length ps \<le> max_lines \<and> (\<forall>p \<in> set ps. line_ok (snd p) \<and> line_taxable p)"

lemma fold_i64_sum:
  assumes "\<forall>x \<in> set xs. 0 \<le> f x \<and> f x \<le> B" and "0 \<le> a" and "a + int (length xs) * B \<le> i64_max"
  shows "fold (\<lambda>x a. i64 (a + f x)) xs a = a + sum_list (map f xs)"
  using assms
proof (induction xs arbitrary: a)
  case (Cons x xs)
  then have x: "0 \<le> f x" "f x \<le> B" by simp_all
  then have "0 \<le> int (length xs) * B" by simp
  note nn = this
  have le: "a + (B + int (length xs) * B) \<le> i64_max"
    using Cons.prems(3) by (simp add: distrib_right)
  have "a + f x \<le> i64_max" and "a + f x + int (length xs) * B \<le> i64_max" and "0 \<le> a + f x"
    using x nn le Cons.prems(2) by linarith+
  then have "i64 (a + f x) = a + f x" and "a + f x + int (length xs) * B \<le> i64_max"
    by (simp_all add: i64_nonneg_id)
  then show ?case using Cons x by simp
qed simp

lemma sum_list_bounds:
  fixes f :: "'a \<Rightarrow> int"
  assumes "\<forall>x \<in> set xs. 0 \<le> f x \<and> f x \<le> B"
  shows "0 \<le> sum_list (map f xs) \<and> sum_list (map f xs) \<le> int (length xs) * B"
  using assms by (induction xs) (auto simp: distrib_right)

lemma line_tax_bounds:
  assumes "line_ok (snd p)" and "line_taxable p"
  shows "0 \<le> line_base p \<and> line_base p \<le> 10 ^ 15"
    and "0 \<le> igst_cents (line_tax p) \<and> igst_cents (line_tax p) \<le> 922337203685477"
    and "0 \<le> cgst_cents (line_tax p) \<and> cgst_cents (line_tax p) \<le> 922337203685477"
    and "0 \<le> sgst_cents (line_tax p) \<and> sgst_cents (line_tax p) \<le> 922337203685477"
    and "cess_cents (line_tax p) = 0"
    and "total_tax_cents (line_tax p) =
           igst_cents (line_tax p) + cgst_cents (line_tax p) + sgst_cents (line_tax p)"
proof -
  let ?r = "tax_rate_bps (snd p)" and ?ty = "supply_type (fst p)"
  have b: "0 \<le> line_base p" "line_base p \<le> 10 ^ 15" and r: "0 \<le> ?r"
    using assms(1) by (auto simp: line_ok_def money_ok_def line_base_def)
  then show "0 \<le> line_base p \<and> line_base p \<le> 10 ^ 15" by simp
  have t: "0 \<le> statutory_tax (line_base p) (head_rate ?r ?ty)"
    "statutory_tax (line_base p) (head_rate ?r ?ty) \<le> 922337203685477"
    using statutory_tax_nonneg [OF b(1) head_rate_nonneg [OF r, of ?ty]]
      statutory_tax_small [of "line_base p" "head_rate ?r ?ty"] assms(2)
    by (simp_all add: line_taxable_def)
  then show "0 \<le> igst_cents (line_tax p) \<and> igst_cents (line_tax p) \<le> 922337203685477"
    and "0 \<le> cgst_cents (line_tax p) \<and> cgst_cents (line_tax p) \<le> 922337203685477"
    and "0 \<le> sgst_cents (line_tax p) \<and> sgst_cents (line_tax p) \<le> 922337203685477"
    and "cess_cents (line_tax p) = 0"
    and "total_tax_cents (line_tax p) =
           igst_cents (line_tax p) + cgst_cents (line_tax p) + sgst_cents (line_tax p)"
    by (cases ?ty; simp add: line_tax_def split_of_def head_rate_def Let_def)+
qed

lemma agg_fold_fields:
  "agg_taxable (fold agg_step ps a) = fold (\<lambda>p t. i64 (t + line_base p)) ps (agg_taxable a)"
  "agg_igst (fold agg_step ps a) = fold (\<lambda>p t. i64 (t + igst_cents (line_tax p))) ps (agg_igst a)"
  "agg_cgst (fold agg_step ps a) = fold (\<lambda>p t. i64 (t + cgst_cents (line_tax p))) ps (agg_cgst a)"
  "agg_sgst (fold agg_step ps a) = fold (\<lambda>p t. i64 (t + sgst_cents (line_tax p))) ps (agg_sgst a)"
  "agg_cess (fold agg_step ps a) = fold (\<lambda>p t. i64 (t + cess_cents (line_tax p))) ps (agg_cess a)"
  by (induction ps arbitrary: a; simp add: agg_step_def agg_add_def)+

abbreviation sum_of :: "(StateMatrix \<times> LineItem \<Rightarrow> cents) \<Rightarrow> (StateMatrix \<times> LineItem) list \<Rightarrow> cents" where
  "sum_of f ps \<equiv> sum_list (map f ps)"

lemma agg_of_exact:
  assumes "sums_ok ps"
  shows "agg_taxable (agg_of ps) = sum_of line_base ps"
    and "agg_igst (agg_of ps) = sum_of (igst_cents \<circ> line_tax) ps"
    and "agg_cgst (agg_of ps) = sum_of (cgst_cents \<circ> line_tax) ps"
    and "agg_sgst (agg_of ps) = sum_of (sgst_cents \<circ> line_tax) ps"
    and "agg_cess (agg_of ps) = 0"
proof -
  have n: "int (length ps) * 10 ^ 15 \<le> i64_max"
    using assms by (simp add: sums_ok_def max_lines_def i64_max_def)
  have s: "fold (\<lambda>p t. i64 (t + f p)) ps 0 = sum_of f ps" if "\<forall>p \<in> set ps. 0 \<le> f p \<and> f p \<le> 10 ^ 15" for f
    using fold_i64_sum [OF that order_refl] n by simp
  have b: "\<forall>p \<in> set ps. line_ok (snd p) \<and> line_taxable p"
    using assms by (simp add: sums_ok_def)
  show "agg_taxable (agg_of ps) = sum_of line_base ps"
    using b line_tax_bounds(1) by (simp add: agg_of_def agg_fold_fields TaxAggregate0_def s)
  have h: "fold (\<lambda>p t. i64 (t + h (line_tax p))) ps 0 = sum_of (h \<circ> line_tax) ps"
    if "\<And>p. line_ok (snd p) \<Longrightarrow> line_taxable p \<Longrightarrow>
          0 \<le> h (line_tax p) \<and> h (line_tax p) \<le> 922337203685477" for h
    using s [of "h \<circ> line_tax"] b that by fastforce
  show "agg_igst (agg_of ps) = sum_of (igst_cents \<circ> line_tax) ps"
    using h [of igst_cents] line_tax_bounds(2) by (simp add: agg_of_def agg_fold_fields TaxAggregate0_def)
  show "agg_cgst (agg_of ps) = sum_of (cgst_cents \<circ> line_tax) ps"
    using h [of cgst_cents] line_tax_bounds(3) by (simp add: agg_of_def agg_fold_fields TaxAggregate0_def)
  show "agg_sgst (agg_of ps) = sum_of (sgst_cents \<circ> line_tax) ps"
    using h [of sgst_cents] line_tax_bounds(4) by (simp add: agg_of_def agg_fold_fields TaxAggregate0_def)
  show "agg_cess (agg_of ps) = 0"
    using b line_tax_bounds(5) by (simp add: agg_of_def agg_fold_fields TaxAggregate0_def s cong: map_cong)
qed

section \<open>Grouping by HSN and rate\<close>

lemma sum_group:
  fixes f :: "'a \<Rightarrow> int"
  assumes "finite K" and "key ` set xs \<subseteq> K"
  shows "(\<Sum>k\<in>K. sum_list (map f (filter (\<lambda>x. key x = k) xs))) = sum_list (map f xs)"
  using assms(2)
proof (induction xs)
  case (Cons x xs)
  have "(\<Sum>k\<in>K. sum_list (map f (filter (\<lambda>x. key x = k) (x # xs)))) =
      (\<Sum>k\<in>K. (if key x = k then f x else 0) + sum_list (map f (filter (\<lambda>x. key x = k) xs)))"
    by (intro sum.cong) auto
  also have "\<dots> = f x + sum_list (map f xs)"
    using Cons assms(1) by (simp add: sum.distrib)
  finally show ?case by simp
qed simp

definition hsn_groups :: "(StateMatrix \<times> LineItem) list \<Rightarrow> hsn_table" where
  "hsn_groups ps = map (\<lambda>k. (k, agg_of (filter (\<lambda>p. line_key p = k) ps)))
     (sorted_list_of_set (line_key ` set ps))"

lemma fold_omap_groups:
  "fold (\<lambda>p. omap_upd (line_key p) TaxAggregate0 (agg_step p)) ps [] = hsn_groups ps"
proof -
  define m where "m = fold (\<lambda>p. omap_upd (line_key p) TaxAggregate0 (agg_step p)) ps []"
  have m: "m = fold (\<lambda>p m. omap_put (line_key p) (agg_step p
      (case omap_get m (line_key p) of None \<Rightarrow> TaxAggregate0 | Some v \<Rightarrow> v)) m) ps []"
    by (simp add: m_def omap_upd_def [abs_def])
  have inv: "omap_inv m"
    unfolding m by (rule omap.ok_fold_aggregate) (simp add: omap_inv_def)
  have get: "map_of m k = (if k \<in> line_key ` set ps
      then Some (agg_of (filter (\<lambda>p. line_key p = k) ps)) else None)" for k
    using omap.get_fold_aggregate [where f = agg_step and d = TaxAggregate0 and key = line_key
        and xs = ps and m = "[]" and k = k]
    unfolding m [symmetric] by (auto simp: omap_get_def agg_of_def)
  have keys: "map fst m = sorted_list_of_set (line_key ` set ps)"
  proof (rule sorted_distinct_set_unique)
    show "sorted (map fst m)" "distinct (map fst m)"
      using inv unfolding omap_inv_def by (simp_all add: strict_sorted_iff)
    have "set (map fst m) = {k. map_of m k \<noteq> None}"
      by (simp add: map_of_eq_None_iff)
    then show "set (map fst m) = set (sorted_list_of_set (line_key ` set ps))"
      by (auto simp: get)
  qed simp_all
  have "m = map (\<lambda>k. (k, the (map_of m k))) (map fst m)"
  proof (rule nth_equalityI)
    show "m ! i = map (\<lambda>k. (k, the (map_of m k))) (map fst m) ! i" if "i < length m" for i
      using that map_of_eq_Some_iff [OF omap_inv_distinct [OF inv]] nth_mem [OF that]
      by (cases "m ! i") (simp, metis option.sel)
  qed simp
  then have "m = map (\<lambda>k. (k, the (map_of m k))) (sorted_list_of_set (line_key ` set ps))"
    by (simp only: keys)
  also have "\<dots> = hsn_groups ps"
    unfolding hsn_groups_def by (intro map_cong refl) (auto simp: get)
  finally show ?thesis by (simp add: m_def)
qed


lemma sums_ok_filter: "sums_ok ps \<Longrightarrow> sums_ok (filter P ps)"
  by (auto simp: sums_ok_def intro: order_trans [OF length_filter_le])

lemma sum_groups:
  assumes "sums_ok ps" and "\<And>qs. sums_ok qs \<Longrightarrow> h (agg_of qs) = sum_of f qs"
  shows "sum_list (map (h \<circ> snd) (hsn_groups ps)) = sum_of f ps"
proof -
  have "sum_list (map (h \<circ> snd) (hsn_groups ps)) =
      (\<Sum>k\<in>line_key ` set ps. h (agg_of (filter (\<lambda>p. line_key p = k) ps)))"
    by (simp add: hsn_groups_def comp_def sum_list_distinct_conv_sum_set)
  also have "\<dots> = (\<Sum>k\<in>line_key ` set ps. sum_of f (filter (\<lambda>p. line_key p = k) ps))"
    using assms by (intro sum.cong) (auto intro: sums_ok_filter)
  also have "\<dots> = sum_of f ps" by (rule sum_group) auto
  finally show ?thesis .
qed

lemma lines_fit_sums_ok:
  "lines_fit ms \<Longrightarrow> \<forall>p \<in> set (ms_lines ms). line_taxable p \<Longrightarrow> sums_ok (ms_lines ms)"
  by (simp add: lines_fit_def sums_ok_def) (blast intro: ms_lines_ok)

section \<open>Reconciling the returns\<close>

text \<open>Column \<open>i\<close> of a CSV text below its header row, in paise.\<close>

definition csv_column :: "nat \<Rightarrow> string \<Rightarrow> cents list" where
  "csv_column i out = (case csv_parse out of
     Some (h # rows) \<Rightarrow> map (\<lambda>r. rupees_value (r ! i)) rows | _ \<Rightarrow> [])"

lemma hsn_column:
  assumes "gstr1HsnSummary ms = Inr out" and "hsn_aggregate ms = Inr agg"
  shows "csv_column i out = map (\<lambda>e. rupees_value (hsn_fields e ! i)) agg"
proof -
  have out: "out = csvRow hsn_columns @ concat (map csvRow (map hsn_fields agg))"
    using assms by (simp add: gstr1HsnSummary_def header_rows)
  have "[] \<notin> set (map hsn_fields agg)" by (auto simp: hsn_fields_def)
  note csv_parse_table [OF columns_nonempty(2) this]
  then show ?thesis unfolding out by (simp add: csv_column_def)
qed

lemma b3_column:
  assumes "gstr3B ms = Inr out" and "b3_buckets ms = Inr b"
  shows "csv_column i out = map (\<lambda>r. rupees_value (r ! i)) (b3_rows b)"
proof -
  have out: "out = csvRow b3_columns @ concat (map csvRow (b3_rows b))"
    using assms by (simp add: gstr3B_def header_rows)
  have "[] \<notin> set (b3_rows b)" by (auto simp: b3_rows_def b3_fields_def split: if_splits)
  note csv_parse_table [OF columns_nonempty(3) this]
  then show ?thesis unfolding out by (simp add: csv_column_def)
qed

lemma sum_of_nonneg:
  fixes f :: "'a \<Rightarrow> int"
  shows "(\<And>x. x \<in> set xs \<Longrightarrow> 0 \<le> f x) \<Longrightarrow> 0 \<le> sum_list (map f xs)"
  by (induction xs) auto

lemma sum_filter_split:
  fixes f :: "'a \<Rightarrow> int"
  shows "sum_list (map f (filter P xs)) + sum_list (map f (filter (Not \<circ> P) xs)) = sum_list (map f xs)"
  by (induction xs) auto

lemma b3_rows_sum:
  fixes h :: "string list \<Rightarrow> int"
  shows "sum_list (map h (b3_rows b)) =
    (if hasIntra b then h (b3_fields ''4A-Intra'' ''Outward taxable supplies - intra-state'' (intra b)) else 0) +
    (if hasInter b then h (b3_fields ''4A-Inter'' ''Outward taxable supplies - inter-state'' (inter b)) else 0)"
  by (simp add: b3_rows_def)

text \<open>
  A column that prints the member \<open>sel\<close> of the aggregates adds up, in both returns, to the sum
  of \<open>f\<close> over all lines, when \<open>sel\<close> of an aggregate is exactly the sum of \<open>f\<close>.
\<close>

lemma column_sums:
  assumes fit: "lines_fit ms" and tx: "\<forall>p \<in> set (ms_lines ms). line_taxable p"
    and sel: "\<And>qs. sums_ok qs \<Longrightarrow> sel (agg_of qs) = sum_of f qs"
    and f: "\<And>p. line_ok (snd p) \<Longrightarrow> line_taxable p \<Longrightarrow> 0 \<le> f p"
  shows "gstr1HsnSummary ms = Inr h \<Longrightarrow> (\<And>e. hsn_fields e ! i = centsToRupees (sel (snd e))) \<Longrightarrow>
           sum_list (csv_column i h) = sum_of f (ms_lines ms)"
    and "gstr3B ms = Inr g \<Longrightarrow> (\<And>s d a. b3_fields s d a ! i = centsToRupees (sel a)) \<Longrightarrow>
           sum_list (csv_column i g) = sum_of f (ms_lines ms)"
proof -
  let ?ps = "ms_lines ms"
  have ok: "sums_ok ?ps" and ms: "list_all matrix_ok ms"
    using lines_fit_sums_ok [OF fit tx] fit by (simp_all add: lines_fit_def)
  have abs: "\<bar>sel (agg_of qs)\<bar> = sum_of f qs" if "sums_ok qs" for qs
    using sum_of_nonneg [of qs f] f sel [OF that] that by (auto simp: sums_ok_def)
  show "sum_list (csv_column i h) = sum_of f ?ps"
    if "gstr1HsnSummary ms = Inr h" "\<And>e. hsn_fields e ! i = centsToRupees (sel (snd e))"
    using hsn_column [OF that(1)] hsn_aggregate_eq [OF ms] tx
      sum_groups [where h = "\<lambda>a. \<bar>sel a\<bar>", OF ok abs]
    by (simp add: fold_omap_groups that(2) rupees_back comp_def)
  show "sum_list (csv_column i g) = sum_of f ?ps"
    if "gstr3B ms = Inr g" "\<And>s d a. b3_fields s d a ! i = centsToRupees (sel a)"
  proof -
    have q: "(if \<exists>p \<in> set ?ps. P p then \<bar>sel (agg_of (filter P ?ps))\<bar> else 0) = sum_of f (filter P ?ps)"
      for P
      using abs [OF sums_ok_filter [OF ok], of P] filter_False [of ?ps P] by simp
    have "b3_buckets ms = Inr \<lparr>intra = agg_of (filter is_intra ?ps),
        inter = agg_of (filter (Not \<circ> is_intra) ?ps),
        hasIntra = (\<exists>p \<in> set ?ps. is_intra p), hasInter = (\<exists>p \<in> set ?ps. (Not \<circ> is_intra) p)\<rparr>"
      using b3_buckets_eq [OF ms] tx by simp
    note col = b3_column [OF that(1) this]
    show ?thesis
      unfolding col b3_rows_sum that(2) rupees_back Buckets.simps q sum_filter_split by simp
  qed
qed

lemma totalTax_exact: "sums_ok qs \<Longrightarrow> totalTax (agg_of qs) = sum_of (total_tax_cents \<circ> line_tax) qs"
proof -
  assume ok: "sums_ok qs"
  have n: "int (length qs) * 922337203685477 \<le> 3000 * 922337203685477"
    using ok by (simp add: sums_ok_def max_lines_def)
  have b: "0 \<le> sum_of (h \<circ> line_tax) qs \<and> sum_of (h \<circ> line_tax) qs \<le> 3000 * 922337203685477"
    if "\<And>p. line_ok (snd p) \<Longrightarrow> line_taxable p \<Longrightarrow>
          0 \<le> h (line_tax p) \<and> h (line_tax p) \<le> 922337203685477" for h
    using sum_list_bounds [of qs "h \<circ> line_tax" 922337203685477] that ok n by (auto simp: sums_ok_def)
  note bs = b [where h = igst_cents, OF line_tax_bounds(2)] b [where h = cgst_cents, OF line_tax_bounds(3)]
    b [where h = sgst_cents, OF line_tax_bounds(4)]
  have "sum_of (total_tax_cents \<circ> line_tax) qs =
      sum_of (\<lambda>p. igst_cents (line_tax p) + cgst_cents (line_tax p) + sgst_cents (line_tax p)) qs"
    using ok line_tax_bounds(6) by (intro arg_cong [where f = sum_list] map_cong) (auto simp: sums_ok_def)
  also have "\<dots> = sum_of (igst_cents \<circ> line_tax) qs + sum_of (cgst_cents \<circ> line_tax) qs
      + sum_of (sgst_cents \<circ> line_tax) qs"
    by (simp add: sum_list_addf comp_def)
  finally show ?thesis
    using bs unfolding totalTax_def agg_of_exact [OF ok] by (simp add: i64_nonneg_id i64_max_def)
qed

text \<open>
  Property C3. The two summaries reconcile: for at most \<open>max_lines\<close> lines of validated invoices,
  when both returns are generated, the printed columns of the HSN summary and of GSTR-3B
  (taxable value, IGST, CGST, SGST, cess) add up to the same amounts, which are the exact sums of
  the statutory values of the lines; no 64-bit sum has wrapped. The cess column is always zero.
\<close>

theorem returns_reconcile:
  assumes "lines_fit ms" and "gstr1HsnSummary ms = Inr h" and "gstr3B ms = Inr g"
  shows "map (\<lambda>i. sum_list (csv_column i h)) [2, 3, 4, 5, 6] =
      [sum_of line_base (ms_lines ms), sum_of (igst_cents \<circ> line_tax) (ms_lines ms),
       sum_of (cgst_cents \<circ> line_tax) (ms_lines ms), sum_of (sgst_cents \<circ> line_tax) (ms_lines ms), 0] \<and>
     map (\<lambda>i. sum_list (csv_column i g)) [2, 3, 4, 5, 6] = map (\<lambda>i. sum_list (csv_column i h)) [2, 3, 4, 5, 6] \<and>
     sum_list (csv_column 7 g) = sum_of (total_tax_cents \<circ> line_tax) (ms_lines ms)"
proof -
  have tx: "\<forall>p \<in> set (ms_lines ms). line_taxable p"
    using assms(1,2) hsn_aggregate_eq [of ms]
    by (auto simp: lines_fit_def gstr1HsnSummary_def split: if_splits)
  note c = column_sums [OF assms(1) tx]
  have zero: "agg_cess (agg_of qs) = sum_of (\<lambda>_. 0) qs" if "sums_ok qs" for qs
    using agg_of_exact(5) [OF that] by simp
  have z: "sum_of (\<lambda>_. 0) (ms_lines ms) = 0" by (induction "ms_lines ms") auto
  note colsH = c(1) [where sel = agg_taxable, OF agg_of_exact(1)]
    c(1) [where sel = agg_igst, OF agg_of_exact(2)]
    c(1) [where sel = agg_cgst, OF agg_of_exact(3)]
    c(1) [where sel = agg_sgst, OF agg_of_exact(4)]
    c(1) [where sel = agg_cess, OF zero]
  note colsG = c(2) [where sel = agg_taxable, OF agg_of_exact(1)]
    c(2) [where sel = agg_igst, OF agg_of_exact(2)]
    c(2) [where sel = agg_cgst, OF agg_of_exact(3)]
    c(2) [where sel = agg_sgst, OF agg_of_exact(4)]
    c(2) [where sel = agg_cess, OF zero]
  have h: "sum_list (csv_column 2 h) = sum_of line_base (ms_lines ms)"
    "sum_list (csv_column 3 h) = sum_of (igst_cents \<circ> line_tax) (ms_lines ms)"
    "sum_list (csv_column 4 h) = sum_of (cgst_cents \<circ> line_tax) (ms_lines ms)"
    "sum_list (csv_column 5 h) = sum_of (sgst_cents \<circ> line_tax) (ms_lines ms)"
    "sum_list (csv_column 6 h) = sum_of (\<lambda>_. 0) (ms_lines ms)"
    by (rule colsH [OF _ _ assms(2)]; simp add: line_tax_bounds hsn_fields_def split: prod.split)+
  have g: "sum_list (csv_column 2 g) = sum_of line_base (ms_lines ms)"
    "sum_list (csv_column 3 g) = sum_of (igst_cents \<circ> line_tax) (ms_lines ms)"
    "sum_list (csv_column 4 g) = sum_of (cgst_cents \<circ> line_tax) (ms_lines ms)"
    "sum_list (csv_column 5 g) = sum_of (sgst_cents \<circ> line_tax) (ms_lines ms)"
    "sum_list (csv_column 6 g) = sum_of (\<lambda>_. 0) (ms_lines ms)"
    by (rule colsG [OF _ _ assms(3)]; simp add: line_tax_bounds b3_fields_def)+
  have A: "map (\<lambda>i. sum_list (csv_column i h)) [2, 3, 4, 5, 6] =
      [sum_of line_base (ms_lines ms), sum_of (igst_cents \<circ> line_tax) (ms_lines ms),
       sum_of (cgst_cents \<circ> line_tax) (ms_lines ms), sum_of (sgst_cents \<circ> line_tax) (ms_lines ms), 0]"
    using h z by simp
  have B: "map (\<lambda>i. sum_list (csv_column i g)) [2, 3, 4, 5, 6] = map (\<lambda>i. sum_list (csv_column i h)) [2, 3, 4, 5, 6]"
    using h g by simp
  have C: "sum_list (csv_column 7 g) = sum_of (total_tax_cents \<circ> line_tax) (ms_lines ms)"
    by (rule c(2) [where sel = totalTax, OF totalTax_exact _ assms(3)])
      (simp_all add: line_tax_bounds b3_fields_def)
  show ?thesis using A B C by blast
qed

section \<open>GSTR-1 table 4A, row by row\<close>

definition invoice_lines :: "StateMatrix \<Rightarrow> (StateMatrix \<times> LineItem) list" where
  "invoice_lines m = map (Pair m) (line_items m)"

definition invoice_value :: "StateMatrix \<Rightarrow> cents" where
  "invoice_value m = sum_of line_base (invoice_lines m) + sum_of (total_tax_cents \<circ> line_tax) (invoice_lines m)"

definition b2b_rows :: "StateMatrix \<Rightarrow> string list list" where
  "b2b_rows m = map (\<lambda>l. b2b_fields m (centsToRupees (invoice_value m)) l (line_tax (m, l))) (line_items m)"

lemma ms_lines_invoices: "ms_lines ms = concat (map invoice_lines ms)"
  by (simp add: ms_lines_def invoice_lines_def [abs_def])

lemma fold_pair:
  "fold (\<lambda>x (a, b). (f x a, g x b)) xs (a, b) = (fold f xs a, fold g xs b)"
  by (induction xs arbitrary: a b) auto

lemma bindE_foldE_Nil [simp]: "bindE m (foldE f []) = m"
  by (cases m) auto

lemma b2b_totals_eq:
  assumes "matrix_ok m"
  shows "b2b_totals m =
    (if \<forall>p \<in> set (invoice_lines m). line_taxable p
     then Inr (fold (\<lambda>p t. i64 (t + line_base p)) (invoice_lines m) 0,
               fold (\<lambda>p t. i64 (t + total_tax_cents (line_tax p))) (invoice_lines m) 0)
     else Inl tax_overflow)"
proof -
  let ?f = "\<lambda>m li (taxable, tx). bindE (recomputeSplit m li) (\<lambda>s.
         Inr (i64 (taxable + base_value_cents li), i64 (tx + total_tax_cents s)))"
  let ?g = "\<lambda>p (a, b). (i64 (a + line_base p), i64 (b + total_tax_cents (line_tax p)))"
  have "?f n li s = (if line_taxable (n, li) then Inr (?g (n, li) s) else Inl tax_overflow)"
    if "line_ok li" for n li s
    using that by (cases s) (simp add: recomputeSplit_eq line_base_def)
  from foldE_lines [of "[m]" ?f ?g "(0, 0)", OF _ this] assms
  have "b2b_totals m = (if \<forall>p \<in> set (ms_lines [m]). line_taxable p
     then Inr (fold ?g (ms_lines [m]) (0, 0)) else Inl tax_overflow)"
    by (simp add: b2b_totals_def)
  then show ?thesis
    by (simp add: ms_lines_invoices fold_pair [where f = "\<lambda>p a. i64 (a + line_base p)"
          and g = "\<lambda>p b. i64 (b + total_tax_cents (line_tax p))"])
qed

lemma b2b_totals_exact:
  assumes ok: "sums_ok (invoice_lines m)"
  shows "fold (\<lambda>p t. i64 (t + line_base p)) (invoice_lines m) 0 = sum_of line_base (invoice_lines m)"
    and "fold (\<lambda>p t. i64 (t + total_tax_cents (line_tax p))) (invoice_lines m) 0 =
           sum_of (total_tax_cents \<circ> line_tax) (invoice_lines m)"
    and "i64 (sum_of line_base (invoice_lines m) + sum_of (total_tax_cents \<circ> line_tax) (invoice_lines m)) =
           invoice_value m"
proof -
  let ?ps = "invoice_lines m"
  have n: "length ?ps \<le> 3000" and p: "\<forall>p \<in> set ?ps. line_ok (snd p) \<and> line_taxable p"
    using ok by (simp_all add: sums_ok_def max_lines_def)
  have b: "\<forall>p \<in> set ?ps. 0 \<le> line_base p \<and> line_base p \<le> 10 ^ 15"
    using p line_tax_bounds(1) by blast
  have t: "\<forall>p \<in> set ?ps. 0 \<le> (total_tax_cents \<circ> line_tax) p \<and> (total_tax_cents \<circ> line_tax) p \<le> 2 * 10 ^ 15"
  proof
    fix p assume "p \<in> set ?ps"
    then have q: "line_ok (snd p)" "line_taxable p" using p by auto
    have "igst_cents (line_tax p) = 0 \<or> cgst_cents (line_tax p) = 0 \<and> sgst_cents (line_tax p) = 0"
      by (cases "supply_type (fst p)") (simp_all add: line_tax_def split_of_def Let_def)
    then show "0 \<le> (total_tax_cents \<circ> line_tax) p \<and> (total_tax_cents \<circ> line_tax) p \<le> 2 * 10 ^ 15"
      using line_tax_bounds [OF q] by auto
  qed
  show "fold (\<lambda>p t. i64 (t + line_base p)) ?ps 0 = sum_of line_base ?ps"
    using fold_i64_sum [OF b order_refl] n by (simp add: i64_max_def)
  show "fold (\<lambda>p t. i64 (t + total_tax_cents (line_tax p))) ?ps 0 = sum_of (total_tax_cents \<circ> line_tax) ?ps"
    using fold_i64_sum [OF t order_refl] n by (simp add: i64_max_def comp_def)
  show "i64 (sum_of line_base ?ps + sum_of (total_tax_cents \<circ> line_tax) ?ps) = invoice_value m"
    using sum_list_bounds [OF b] sum_list_bounds [OF t] n
    by (simp add: invoice_value_def i64_nonneg_id i64_max_def comp_def)
qed

lemma b2b_invoice_eq:
  assumes "matrix_ok m" and "length (line_items m) \<le> max_lines"
  shows "b2b_invoice m =
    (if classification m \<noteq> B2B then Inr []
     else if \<forall>p \<in> set (invoice_lines m). line_taxable p then Inr (b2b_rows m) else Inl tax_overflow)"
proof (cases "classification m = B2B \<and> (\<forall>p \<in> set (invoice_lines m). line_taxable p)")
  case True
  then have tx: "\<forall>p \<in> set (invoice_lines m). line_taxable p" by simp
  have "sums_ok (invoice_lines m)"
    using assms tx by (auto simp: sums_ok_def invoice_lines_def matrix_line_ok)
  note ex = b2b_totals_exact [OF this]
  have "mapE (\<lambda>li. bindE (recomputeSplit m li) (\<lambda>s.
           Inr (b2b_fields m (centsToRupees (invoice_value m)) li s))) (line_items m) =
      (if \<forall>l \<in> set (line_items m). line_taxable (m, l) then Inr (b2b_rows m) else Inl tax_overflow)"
    unfolding b2b_rows_def
    by (rule mapE_guard) (use assms(1) in \<open>auto simp: recomputeSplit_eq matrix_line_ok\<close>)
  then show ?thesis
    using True b2b_totals_eq [OF assms(1)] tx ex
    by (simp add: b2b_invoice_def) (simp add: invoice_lines_def)
next
  case False
  then show ?thesis using b2b_totals_eq [OF assms(1)] by (auto simp: b2b_invoice_def)
qed

lemma invoice_lines_subset: "m \<in> set ms \<Longrightarrow> set (invoice_lines m) \<subseteq> set (ms_lines ms)"
  by (auto simp: ms_lines_invoices)

lemma invoice_lines_length: "m \<in> set ms \<Longrightarrow> length (line_items m) \<le> length (ms_lines ms)"
proof -
  assume "m \<in> set ms"
  then have "length (invoice_lines m) \<le> sum_list (map (length \<circ> invoice_lines) ms)"
    using member_le_sum_list [of "length (invoice_lines m)" "map (length \<circ> invoice_lines) ms"] by force
  then show ?thesis by (simp add: ms_lines_invoices length_concat invoice_lines_def comp_def)
qed

definition b2b_invoices :: "StateMatrix list \<Rightarrow> StateMatrix list" where
  "b2b_invoices ms = filter (\<lambda>m. classification m = B2B) ms"

lemma mapE_b2b_invoice:
  assumes "lines_fit ms"
  shows "mapE b2b_invoice ms =
    (if \<forall>p \<in> set (ms_lines (b2b_invoices ms)). line_taxable p
     then Inr (map (\<lambda>m. if classification m = B2B then b2b_rows m else []) ms)
     else Inl tax_overflow)"
proof -
  have "mapE b2b_invoice ms =
    (if \<forall>m \<in> set ms. classification m = B2B \<longrightarrow> (\<forall>p \<in> set (invoice_lines m). line_taxable p)
     then Inr (map (\<lambda>m. if classification m = B2B then b2b_rows m else []) ms)
     else Inl tax_overflow)"
  proof (rule mapE_guard)
    fix m assume m: "m \<in> set ms"
    then have "matrix_ok m" "length (line_items m) \<le> max_lines"
      using assms invoice_lines_length [OF m] by (auto simp: lines_fit_def list_all_iff)
    then show "b2b_invoice m =
      (if classification m = B2B \<longrightarrow> (\<forall>p \<in> set (invoice_lines m). line_taxable p)
       then Inr (if classification m = B2B then b2b_rows m else []) else Inl tax_overflow)"
      by (auto simp: b2b_invoice_eq)
  qed
  moreover have "(\<forall>m \<in> set ms. classification m = B2B \<longrightarrow> (\<forall>p \<in> set (invoice_lines m). line_taxable p))
      \<longleftrightarrow> (\<forall>p \<in> set (ms_lines (b2b_invoices ms)). line_taxable p)"
    by (auto simp: ms_lines_invoices b2b_invoices_def)
  ultimately show ?thesis by simp
qed

lemma concat_b2b_rows:
  "concat (map (\<lambda>m. if classification m = B2B then b2b_rows m else []) ms) =
     concat (map b2b_rows (b2b_invoices ms))"
  by (induction ms) (auto simp: b2b_invoices_def)

text \<open>
  Property C19. Table 4A of GSTR-1 is complete and exact: for at most \<open>max_lines\<close> lines of
  validated invoices whose B2B lines pass the overflow guard, the text is generated and reads
  back as one row per line of each B2B invoice, in order and with no row for any other invoice;
  every row carries the statutory split of its line and, as invoice value, the exact sum of the
  taxable values and taxes of its invoice (never the amount the document claimed).
\<close>

theorem gstr1B2B_rows:
  assumes "lines_fit ms" and "\<forall>p \<in> set (ms_lines (b2b_invoices ms)). line_taxable p"
  shows "\<exists>out. gstr1B2B ms = Inr out \<and>
    csv_parse out = Some (b2b_columns # concat (map (\<lambda>m.
      map (\<lambda>l. b2b_fields m (centsToRupees (sum_of line_base (invoice_lines m)
                     + sum_of (total_tax_cents \<circ> line_tax) (invoice_lines m))) l (line_tax (m, l)))
        (line_items m)) (b2b_invoices ms)))"
proof -
  let ?rows = "concat (map b2b_rows (b2b_invoices ms))"
  have "[] \<notin> set ?rows" by (auto simp: b2b_rows_def b2b_fields_def)
  note csv_parse_table [OF columns_nonempty(1) this]
  then show ?thesis
    using mapE_b2b_invoice [OF assms(1)] assms(2)
    by (simp add: gstr1B2B_def header_rows concat_b2b_rows b2b_rows_def [abs_def] invoice_value_def)
qed

text \<open>
  Property C34. When a return is refused: for validated invoices the only exception is the tax
  overflow; it stops the HSN summary and GSTR-3B exactly when some line fails the guard of
  \<open>taxOn\<close>, and table 4A exactly when a line of a B2B invoice does.
\<close>

theorem returns_refused_iff:
  assumes "lines_fit ms"
  shows "(gstr1HsnSummary ms = Inl e \<longleftrightarrow> e = tax_overflow \<and> (\<exists>p \<in> set (ms_lines ms). \<not> line_taxable p)) \<and>
    (gstr3B ms = Inl e \<longleftrightarrow> e = tax_overflow \<and> (\<exists>p \<in> set (ms_lines ms). \<not> line_taxable p)) \<and>
    (gstr1B2B ms = Inl e \<longleftrightarrow>
       e = tax_overflow \<and> (\<exists>p \<in> set (ms_lines (b2b_invoices ms)). \<not> line_taxable p))"
  using assms mapE_b2b_invoice [OF assms]
  by (auto simp: gstr1HsnSummary_def gstr3B_def gstr1B2B_def lines_fit_def hsn_aggregate_eq b3_buckets_eq)

section \<open>The returns of a concrete invoice\<close>

definition sample_line :: LineItem where
  "sample_line = \<lparr>hsn = ''8471'', description = ''Laptop'', base_value_cents = 100000,
     tax_rate_bps = 1800, quantity = None, unit_price_cents = None\<rparr>"

definition sample_invoice :: StateMatrix where
  "sample_invoice = StateMatrix0\<lparr>classification := B2B, supply_type := INTER, line_items := [sample_line]\<rparr>"

lemma sample_ok:
  "lines_fit [sample_invoice]" "ms_lines [sample_invoice] = [(sample_invoice, sample_line)]"
  "line_taxable (sample_invoice, sample_line)" "b2b_invoices [sample_invoice] = [sample_invoice]"
  "list_all matrix_ok [sample_invoice]"
  by (simp_all add: lines_fit_def ms_lines_def sample_invoice_def sample_line_def matrix_ok_def
      line_ok_def money_ok_def breakdown_ok_def StateMatrix0_def TaxBreakdown0_def int_max_def
      max_lines_def line_taxable_def line_base_def head_rate_def i64_max_def b2b_invoices_def)

lemma sample_fields:
  "hsn sample_line = ''8471''" "tax_rate_bps sample_line = 1800" "base_value_cents sample_line = 100000"
  "line_items sample_invoice = [sample_line]" "supply_type sample_invoice = INTER"
  by (simp_all add: sample_line_def sample_invoice_def)

lemma sample_generated: "\<exists>h. gstr1HsnSummary [sample_invoice] = Inr h" "\<exists>g. gstr3B [sample_invoice] = Inr g"
  using hsn_aggregate_eq [OF sample_ok(5)] b3_buckets_eq [OF sample_ok(5)]
  by (simp_all add: sample_ok gstr1HsnSummary_def gstr3B_def)

theorem returns_read_back_witness:
  "\<exists>out b. gstr3B [sample_invoice] = Inr out \<and> b3_buckets [sample_invoice] = Inr b \<and>
     csv_parse out = Some (b3_columns # b3_rows b)"
  using returns_read_back [of "[sample_invoice]"] sample_generated(2) by blast


theorem returns_reconcile_witness:
  "\<exists>g. gstr3B [sample_invoice] = Inr g \<and> sum_list (csv_column 7 g) = 18000"
proof -
  obtain h g where hg: "gstr1HsnSummary [sample_invoice] = Inr h" "gstr3B [sample_invoice] = Inr g"
    using sample_generated by blast
  have "total_tax_cents (line_tax (sample_invoice, sample_line)) = 18000"
    by (simp add: line_tax_def split_of_def line_base_def sample_fields statutory_tax_div)
  then show ?thesis
    using returns_reconcile [OF sample_ok(1) hg] hg(2) by (simp add: sample_ok)
qed

theorem gstr1B2B_rows_witness:
  "\<exists>out r. gstr1B2B [sample_invoice] = Inr out \<and> csv_parse out = Some [b2b_columns, r] \<and>
     r ! 3 = ''1180.00'' \<and> r ! 8 = ''180.00''"
proof -
  have t: "line_tax (sample_invoice, sample_line) = split_of 100000 1800 INTER"
    by (simp add: line_tax_def line_base_def sample_fields)
  have v: "centsToRupees 118000 = ''1180.00''" "centsToRupees 18000 = ''180.00''"
    by (simp_all add: centsToRupees_def two_digits_def dec_str.simps)
  show ?thesis
    using gstr1B2B_rows [OF sample_ok(1)]
    by (auto simp: sample_ok invoice_lines_def t b2b_fields_def sample_fields line_base_def split_of_def
        statutory_tax_div v)
qed

theorem returns_refused_iff_witness:
  "gstr3B [sample_invoice] \<noteq> Inl tax_overflow \<and> gstr1B2B [sample_invoice] \<noteq> Inl tax_overflow"
  using returns_refused_iff [OF sample_ok(1), of tax_overflow] by (simp add: sample_ok)

end
