(* ===== verification/Schema_Walk.thy ===== *)
theory Schema_Walk
  imports StateMatrix
begin

text \<open>
  \<open>StateMatrix::validateAgainstSchema\<close> (backend/src/StateMatrix.cpp): the walk of a
  gemini_schema-shaped tree along a document, the declarative conformance relation it decides,
  and the shipped schema of config/gemini_schema.json, for which conformance makes every key
  the validator reads with \<open>at()\<close> present.
\<close>

section \<open>The walk\<close>

definition skip_key :: "string \<Rightarrow> json \<Rightarrow> bool" where
  "skip_key k spec \<longleftrightarrow> k = [] \<or> hd k = CHR ''$'' \<or> \<not> jcontains spec ''$type''"

definition required_flag :: "json \<Rightarrow> bool result" where
  "required_flag spec = value_or get_bool spec ''$required'' False"

text \<open>
  \<open>Walker::node\<close>: the messages it appends, or the exception a malformed schema node provokes
  in \<open>schema.value\<close>.
\<close>

function walk_node :: "json \<Rightarrow> json \<Rightarrow> string \<Rightarrow> string list result" where
  "walk_node actual schema path =
     bindE (value_str schema ''$type'' []) (\<lambda>t0.
     let type = (if t0 = [] then ''object'' else t0) in
     if type = ''object'' then
       (if \<not> is_object actual then Inr [path @ '': expected object'']
        else bindE (mapE (\<lambda>(key, sub).
                if skip_key key sub then Inr []
                else bindE (required_flag sub) (\<lambda>required.
                  case jfind actual key of
                    None \<Rightarrow> Inr (if required then [path @ ''.'' @ key @ '': missing required field''] else [])
                  | Some v \<Rightarrow> walk_node v sub (path @ ''.'' @ key))) (items schema))
             (\<lambda>ess. Inr (concat ess)))
     else if type = ''array'' then
       (if \<not> is_array actual then Inr [path @ '': expected array'']
        else (case jfind schema ''$item'' of
            None \<Rightarrow> Inr []
          | Some itemSchema \<Rightarrow>
              bindE (mapE (\<lambda>(i, v). walk_node v itemSchema (path @ ''['' @ int_str (int i) @ '']''))
                       (enumerate 0 (elems actual)))
                (\<lambda>ess. Inr (concat ess))))
     else if type = ''string'' then Inr (if is_string actual then [] else [path @ '': expected string''])
     else if type = ''number'' then Inr (if is_number actual then [] else [path @ '': expected number''])
     else if type = ''boolean'' then Inr (if is_boolean actual then [] else [path @ '': expected boolean''])
     else Inr [path @ '': unknown schema $type '' @ [CHR 0x27] @ type @ [CHR 0x27]])"
  by pat_completeness auto
termination
  by (relation "measure (\<lambda>(a, s, p). size s)") (auto intro: items_size jfind_size)

declare walk_node.simps [simp del]

definition validateAgainstSchema :: "json \<Rightarrow> json \<Rightarrow> string list result" where
  "validateAgainstSchema doc schema =
     (if \<not> is_object schema then Inr [''schema: root must be an object'']
      else if \<not> is_object doc then Inr [''document: root must be an object'']
      else bindE (mapE (\<lambda>(key, sub).
              if skip_key key sub then Inr []
              else bindE (required_flag sub) (\<lambda>required.
                case jfind doc key of
                  None \<Rightarrow> Inr (if required then
                     [''document: missing required field '' @ [CHR 0x27] @ key @ [CHR 0x27]] else [])
                | Some v \<Rightarrow> walk_node v sub key)) (items schema))
           (\<lambda>ess. Inr (concat ess)))"

section \<open>Conformance\<close>

definition node_type :: "json \<Rightarrow> string" where
  "node_type s = (case jfind s ''$type'' of
     Some (JString t) \<Rightarrow> (if t = [] then ''object'' else t) | _ \<Rightarrow> ''object'')"

definition is_required :: "json \<Rightarrow> bool" where
  "is_required s \<longleftrightarrow> jfind s ''$required'' = Some (JBool True)"

fun conforms :: "json \<Rightarrow> json \<Rightarrow> bool" where
  "conforms a s \<longleftrightarrow>
     (let t = node_type s in
      if t = ''object'' then is_object a \<and>
        list_all (\<lambda>(k, sub). skip_key k sub \<or>
          (case jfind a k of None \<Rightarrow> \<not> is_required sub | Some v \<Rightarrow> conforms v sub)) (items s)
      else if t = ''array'' then is_array a \<and>
        (case jfind s ''$item'' of None \<Rightarrow> True | Some it \<Rightarrow> list_all (\<lambda>v. conforms v it) (elems a))
      else if t = ''string'' then is_string a
      else if t = ''number'' then is_number a
      else t = ''boolean'' \<and> is_boolean a)"

declare conforms.simps [simp del]

definition conforms_root :: "json \<Rightarrow> json \<Rightarrow> bool" where
  "conforms_root doc schema \<longleftrightarrow> is_object doc \<and>
     list_all (\<lambda>(k, sub). skip_key k sub \<or>
       (case jfind doc k of None \<Rightarrow> \<not> is_required sub | Some v \<Rightarrow> conforms v sub)) (items schema)"

text \<open>Schemas on which the walk cannot throw: the shape the configuration file has.\<close>

definition spec_ok :: "json \<Rightarrow> bool" where
  "spec_ok s \<longleftrightarrow> is_object s \<and>
     (case jfind s ''$type'' of None \<Rightarrow> True | Some t \<Rightarrow> is_string t) \<and>
     (case jfind s ''$required'' of None \<Rightarrow> True | Some r \<Rightarrow> is_boolean r)"

fun schema_ok :: "json \<Rightarrow> bool" where
  "schema_ok s \<longleftrightarrow> spec_ok s \<and>
     list_all (\<lambda>(k, sub). skip_key k sub \<or> schema_ok sub) (items s) \<and>
     (case jfind s ''$item'' of None \<Rightarrow> True | Some it \<Rightarrow> schema_ok it)"

declare schema_ok.simps [simp del]

lemma spec_ok_type:
  assumes "spec_ok s"
  shows "\<exists>t. value_str s ''$type'' [] = Inr t \<and> node_type s = (if t = [] then ''object'' else t)"
proof (cases "jfind s ''$type''")
  case None
  with assms show ?thesis
    by (intro exI [of _ "[]"]) (simp add: spec_ok_def value_or_def node_type_def)
next
  case (Some v)
  with assms show ?thesis
    by (cases v) (simp_all add: spec_ok_def value_or_def node_type_def)
qed

lemma spec_ok_required: "spec_ok s \<Longrightarrow> required_flag s = Inr (is_required s)"
  by (cases "jfind s ''$required''")
    (auto simp: spec_ok_def value_or_def required_flag_def is_required_def is_boolean_iff)

lemma list_all_enumerate: "list_all (\<lambda>(i, b). P b) (enumerate n xs) \<longleftrightarrow> list_all P xs"
  by (induction xs arbitrary: n) simp_all

lemma mapE_total:
  assumes "\<And>x. x \<in> set xs \<Longrightarrow> \<exists>y. f x = Inr y \<and> (y = [] \<longleftrightarrow> p x)"
  shows "\<exists>ys. mapE f xs = Inr ys \<and> (concat ys = [] \<longleftrightarrow> list_all p xs)"
  using assms
proof (induction xs)
  case Nil
  then show ?case by simp
next
  case (Cons x xs)
  obtain y where y: "f x = Inr y" "y = [] \<longleftrightarrow> p x" using Cons.prems by auto
  obtain ys where "mapE f xs = Inr ys" "concat ys = [] \<longleftrightarrow> list_all p xs" using Cons by auto
  with y show ?case by auto
qed

lemma walk_node_total:
  "schema_ok s \<Longrightarrow> \<exists>errs. walk_node a s p = Inr errs \<and> (errs = [] \<longleftrightarrow> conforms a s)"
proof (induction a s p rule: walk_node.induct)
  case (1 a s p)
  have ok: "spec_ok s" and sub: "\<And>k v. (k, v) \<in> set (items s) \<Longrightarrow> skip_key k v \<or> schema_ok v"
    and it: "\<And>v. jfind s ''$item'' = Some v \<Longrightarrow> schema_ok v"
    using "1.prems" by (auto simp: schema_ok.simps [of s] list_all_iff)
  obtain t0 where t0: "value_str s ''$type'' [] = Inr t0"
    and t: "node_type s = (if t0 = [] then ''object'' else t0)"
    using spec_ok_type [OF ok] by blast
  consider "node_type s = ''object''" | "node_type s = ''array''"
    | "node_type s \<noteq> ''object''" "node_type s \<noteq> ''array''" by blast
  then show ?case
  proof cases
    case 1
    let ?f = "\<lambda>(key, sub). if skip_key key sub then Inr []
                else bindE (required_flag sub) (\<lambda>required.
                  case jfind a key of
                    None \<Rightarrow> Inr (if required then [p @ ''.'' @ key @ '': missing required field''] else [])
                  | Some v \<Rightarrow> walk_node v sub (p @ ''.'' @ key))"
    let ?p = "\<lambda>(k, sub). skip_key k sub \<or>
       (case jfind a k of None \<Rightarrow> \<not> is_required sub | Some v \<Rightarrow> conforms v sub)"
    have loop: "\<exists>ys. mapE ?f (items s) = Inr ys \<and> (concat ys = [] \<longleftrightarrow> list_all ?p (items s))"
      if obj: "is_object a"
    proof (rule mapE_total)
      fix x assume x: "x \<in> set (items s)"
      obtain k v where kv: "x = (k, v)" by (cases x)
      show "\<exists>y. ?f x = Inr y \<and> (y = [] \<longleftrightarrow> ?p x)"
      proof (cases "skip_key k v")
        case True
        then show ?thesis by (simp add: kv)
      next
        case False
        then have s: "schema_ok v" using sub x kv by auto
        then have r: "required_flag v = Inr (is_required v)"
          using spec_ok_required schema_ok.simps by blast
        show ?thesis
        proof (cases "jfind a k")
          case None
          then show ?thesis using False r by (simp add: kv)
        next
          case (Some b)
          then show ?thesis
            using "1.IH"(1) [OF t0 refl _ _ x kv [symmetric] False r Some s] t 1 obj False r by (auto simp: kv)
        qed
      qed
    qed
    have w1: "walk_node a s p = (if \<not> is_object a then Inr [p @ '': expected object'']
        else bindE (mapE ?f (items s)) (\<lambda>ess. Inr (concat ess)))"
      by (subst walk_node.simps) (simp only: t0 bindE_Inr Let_def t [symmetric] 1 if_True simp_thms)
    have c1: "conforms a s \<longleftrightarrow> is_object a \<and> list_all ?p (items s)"
      by (subst conforms.simps) (simp only: Let_def 1 if_True simp_thms)
    show ?thesis
    proof (cases "is_object a")
      case True
      obtain ys where ys: "mapE ?f (items s) = Inr ys" "concat ys = [] \<longleftrightarrow> list_all ?p (items s)"
        using loop [OF True] by (elim exE conjE) (rule that)
      show ?thesis
      proof (intro exI conjI)
        show "walk_node a s p = Inr (concat ys)"
          unfolding w1 using True by (simp only: if_False not_not ys(1) bindE_Inr simp_thms)
        show "concat ys = [] \<longleftrightarrow> conforms a s"
          unfolding c1 using True ys(2) by (simp only: simp_thms)
      qed
    next
      case False
      then show ?thesis unfolding w1 c1 by simp
    qed
  next
    case 2
    have w2: "walk_node a s p = (if \<not> is_array a then Inr [p @ '': expected array'']
        else (case jfind s ''$item'' of
            None \<Rightarrow> Inr []
          | Some itemSchema \<Rightarrow>
              bindE (mapE (\<lambda>(i, v). walk_node v itemSchema (p @ ''['' @ int_str (int i) @ '']''))
                       (enumerate 0 (elems a)))
                (\<lambda>ess. Inr (concat ess))))"
      by (subst walk_node.simps) (simp add: t0 t [symmetric] 2)
    have c2: "conforms a s \<longleftrightarrow> is_array a \<and>
        (case jfind s ''$item'' of None \<Rightarrow> True | Some it \<Rightarrow> list_all (\<lambda>v. conforms v it) (elems a))"
      by (subst conforms.simps) (simp add: 2)
    show ?thesis
    proof (cases "jfind s ''$item''")
      case None
      then show ?thesis unfolding w2 c2 by simp
    next
      case (Some v)
      let ?f = "\<lambda>(i, b). walk_node b v (p @ ''['' @ int_str (int i) @ '']'')"
      have "\<exists>ys. mapE ?f (enumerate 0 (elems a)) = Inr ys \<and>
          (concat ys = [] \<longleftrightarrow> list_all (\<lambda>(i, b). conforms b v) (enumerate 0 (elems a)))"
        if arr: "is_array a"
      proof (rule mapE_total)
        fix x assume x: "x \<in> set (enumerate 0 (elems a))"
        obtain i b where ib: "x = (i, b)" by (cases x)
        show "\<exists>y. ?f x = Inr y \<and> (y = [] \<longleftrightarrow> (\<lambda>(i, b). conforms b v) x)"
          using "1.IH"(2) [OF t0 refl _ _ _ Some x ib [symmetric] it [OF Some]] t 2 arr by (auto simp: ib)
      qed
      moreover have "list_all (\<lambda>(i, b). conforms b v) (enumerate 0 (elems a)) \<longleftrightarrow>
          list_all (\<lambda>b. conforms b v) (elems a)"
        by (rule list_all_enumerate)
      ultimately show ?thesis using Some unfolding w2 c2 by (cases "is_array a") auto
    qed
  next
    case 3
    then show ?thesis
      by (subst walk_node.simps, subst conforms.simps) (auto simp: t0 t [symmetric] Let_def)
  qed
qed

lemma schema_decides:
  assumes "schema_ok schema"
  shows "\<exists>errs. validateAgainstSchema doc schema = Inr errs \<and>
           (errs = [] \<longleftrightarrow> conforms_root doc schema)"
proof (cases "is_object doc")
  case False
  then show ?thesis using assms
    by (auto simp: validateAgainstSchema_def conforms_root_def schema_ok.simps [of schema] spec_ok_def)
next
  case True
  have obj: "is_object schema"
    and sub: "\<And>k v. (k, v) \<in> set (items schema) \<Longrightarrow> skip_key k v \<or> schema_ok v"
    using assms by (auto simp: schema_ok.simps [of schema] spec_ok_def list_all_iff)
  let ?f = "\<lambda>(key, sub). if skip_key key sub then Inr []
              else bindE (required_flag sub) (\<lambda>required.
                case jfind doc key of
                  None \<Rightarrow> Inr (if required then
                     [''document: missing required field '' @ [CHR 0x27] @ key @ [CHR 0x27]] else [])
                | Some v \<Rightarrow> walk_node v sub key)"
  let ?p = "\<lambda>(k, sub). skip_key k sub \<or>
       (case jfind doc k of None \<Rightarrow> \<not> is_required sub | Some v \<Rightarrow> conforms v sub)"
  have "\<exists>ys. mapE ?f (items schema) = Inr ys \<and> (concat ys = [] \<longleftrightarrow> list_all ?p (items schema))"
  proof (rule mapE_total)
    fix x assume x: "x \<in> set (items schema)"
    obtain k v where kv: "x = (k, v)" by (cases x)
    show "\<exists>y. ?f x = Inr y \<and> (y = [] \<longleftrightarrow> ?p x)"
    proof (cases "skip_key k v")
      case True
      then show ?thesis by (simp add: kv)
    next
      case False
      then have s: "schema_ok v" using sub x kv by auto
      then have "required_flag v = Inr (is_required v)"
        using spec_ok_required schema_ok.simps by blast
      then show ?thesis using False walk_node_total [OF s] by (auto simp: kv split: option.split)
    qed
  qed
  then show ?thesis using True obj by (auto simp: validateAgainstSchema_def conforms_root_def)
qed

text \<open>
  Property C15. On every well-formed schema the walk returns, and it reports no error exactly when
  the document conforms: required fields present, every present field and array element of the
  declared type, recursively.
\<close>

theorem validateAgainstSchema_decides:
  assumes "schema_ok schema"
  shows "\<exists>errs. validateAgainstSchema doc schema = Inr errs \<and>
           (errs = [] \<longleftrightarrow> conforms_root doc schema)"
  using assms by (rule schema_decides)

text \<open>One step of \<open>conforms\<close> at a node of known type, for evaluating concrete documents.\<close>

lemma conforms_steps:
  "node_type s = ''object'' \<Longrightarrow> conforms a s \<longleftrightarrow> is_object a \<and>
     list_all (\<lambda>(k, sub). skip_key k sub \<or>
       (case jfind a k of None \<Rightarrow> \<not> is_required sub | Some v \<Rightarrow> conforms v sub)) (items s)"
  "node_type s = ''array'' \<Longrightarrow> conforms a s \<longleftrightarrow> is_array a \<and>
     (case jfind s ''$item'' of None \<Rightarrow> True | Some it \<Rightarrow> list_all (\<lambda>v. conforms v it) (elems a))"
  "node_type s = ''string'' \<Longrightarrow> conforms a s \<longleftrightarrow> is_string a"
  "node_type s = ''number'' \<Longrightarrow> conforms a s \<longleftrightarrow> is_number a"
  "node_type s = ''boolean'' \<Longrightarrow> conforms a s \<longleftrightarrow> is_boolean a"
  by (subst conforms.simps; simp)+

section \<open>The shipped schema\<close>

definition schema_line_items :: json where
  "schema_line_items = JObject [
    (''$item'', JObject [
      (''base_value'', JObject [
        (''$required'', JBool True),
        (''$type'', JString ''number''),
        (''description'', JString ''Line taxable value in INR.'')]),
      (''description'', JObject [
        (''$required'', JBool False),
        (''$type'', JString ''string''),
        (''description'', JString ''Item description text.'')]),
      (''hsn'', JObject [
        (''$required'', JBool True),
        (''$type'', JString ''string''),
        (''description'', JString ''Goods/service HSN or SAC code.'')]),
      (''quantity'', JObject [
        (''$required'', JBool False),
        (''$type'', JString ''number'')]),
      (''tax_rate'', JObject [
        (''$required'', JBool True),
        (''$type'', JString ''number''),
        (''description'', JString ''Combined GST rate percent (e.g. 18).'')]),
      (''unit_price'', JObject [
        (''$required'', JBool False),
        (''$type'', JString ''number''),
        (''description'', JString ''Per-unit price without tax.'')])]),
    (''$required'', JBool True),
    (''$type'', JString ''array'')]"

definition schema_tax_breakdown :: json where
  "schema_tax_breakdown = JObject [
    (''$required'', JBool True),
    (''$type'', JString ''object''),
    (''cess'', JObject [
      (''$required'', JBool False),
      (''$type'', JString ''number''),
      (''description'', JString ''GST compensation cess, if any.'')]),
    (''cgst'', JObject [
      (''$required'', JBool False),
      (''$type'', JString ''number''),
      (''description'', JString ''Central GST amount in INR.'')]),
    (''has_cgst_sgst'', JObject [
      (''$required'', JBool True),
      (''$type'', JString ''boolean''),
      (''description'', JString ''Computed: any CGST or SGST present.'')]),
    (''has_igst'', JObject [
      (''$required'', JBool True),
      (''$type'', JString ''boolean''),
      (''description'', JString ''Computed: any IGST present.'')]),
    (''igst'', JObject [
      (''$required'', JBool False),
      (''$type'', JString ''number''),
      (''description'', JString ''Integrated GST amount in INR.'')]),
    (''sgst'', JObject [
      (''$required'', JBool False),
      (''$type'', JString ''number''),
      (''description'', JString ''State/UT GST amount in INR.'')]),
    (''total_tax'', JObject [
      (''$required'', JBool True),
      (''$type'', JString ''number''),
      (''description'', JString ''Sum of all tax heads in INR.'')])]"

definition schema_supplier :: json where
  "schema_supplier = JObject [
    (''$required'', JBool True),
    (''$type'', JString ''object''),
    (''aato_crore'', JObject [
      (''$required'', JBool False),
      (''$type'', JString ''number''),
      (''description'', JString ''Aggregate Annual Turnover of the supplier in INR Crore from the prior completed FY. Absent if unknown; drives e-invoicing checks (R-EINV-001).'')]),
    (''address_state'', JObject [
      (''$required'', JBool True),
      (''$type'', JString ''string''),
      (''description'', JString (''Two-letter GST state code (e.g. MH, KA) of the supplier'' @ [CHR 0x27] @ ''s principal place of business.''))]),
    (''gstin'', JObject [
      (''$required'', JBool True),
      (''$type'', JString ''string''),
      (''description'', JString ''15-char supplier GSTIN, format 22BBBBB0000C1Z5.'')]),
    (''name'', JObject [
      (''$required'', JBool True),
      (''$type'', JString ''string''),
      (''description'', JString ''Legal supplier name as printed.'')])]"

definition schema_buyer :: json where
  "schema_buyer = JObject [
    (''$required'', JBool False),
    (''$type'', JString ''object''),
    (''address_state'', JObject [
      (''$required'', JBool False),
      (''$type'', JString ''string''),
      (''description'', JString (''Two-letter GST state code of the buyer'' @ [CHR 0x27] @ ''s place of business.''))]),
    (''description'', JString ''Absent/empty when the buyer is unregistered (B2C) or cannot be determined.''),
    (''gstin'', JObject [
      (''$required'', JBool False),
      (''$type'', JString ''string''),
      (''description'', JString ''15-char buyer GSTIN. Presence distinguishes B2B from B2C (R-CLASS-007).'')]),
    (''name'', JObject [
      (''$required'', JBool False),
      (''$type'', JString ''string''),
      (''description'', JString ''Legal buyer name as printed.'')]),
    (''registered'', JObject [
      (''$required'', JBool False),
      (''$type'', JString ''boolean''),
      (''description'', JString ''true if buyer holds a valid GSTIN, else false.'')])]"

definition schema_invoice :: json where
  "schema_invoice = JObject [
    (''$required'', JBool True),
    (''$type'', JString ''object''),
    (''base_value'', JObject [
      (''$required'', JBool True),
      (''$type'', JString ''number''),
      (''description'', JString ''Total taxable base value in INR before tax (sum of line item base values).'')]),
    (''classification'', JObject [
      (''$required'', JBool True),
      (''$type'', JString ''string''),
      (''description'', JString ([CHR 0x27] @ ''B2B'' @ [CHR 0x27] @ '', '' @ [CHR 0x27] @ ''B2C'' @ [CHR 0x27] @ '', or '' @ [CHR 0x27] @ ''UNDETERMINED'' @ [CHR 0x27] @ '' (triggers R-CLASS-007 gap interrogation).''))]),
    (''date'', JObject [
      (''$required'', JBool True),
      (''$type'', JString ''string''),
      (''description'', JString ''Invoice date YYYY-MM-DD.'')]),
    (''hsn_string'', JObject [
      (''$required'', JBool True),
      (''$type'', JString ''string''),
      (''description'', JString ''Comma-delimited HSN codes found (R-HSN-005 digit check).'')]),
    (''irn'', JObject [
      (''$required'', JBool False),
      (''$type'', JString ''string''),
      (''description'', JString ''The 64-character IRN when irn_present.'')]),
    (''irn_present'', JObject [
      (''$required'', JBool True),
      (''$type'', JString ''boolean''),
      (''description'', JString ''true if a 64-char IRN string is visible on the invoice.'')]),
    (''line_items'', schema_line_items),
    (''number'', JObject [
      (''$required'', JBool True),
      (''$type'', JString ''string''),
      (''description'', JString ''Invoice number exactly as printed.'')]),
    (''place_of_supply'', JObject [
      (''$required'', JBool True),
      (''$type'', JString ''string''),
      (''description'', JString (''One of '' @ [CHR 0x27] @ ''same_as_supplier_state'' @ [CHR 0x27] @ '' (intra) or a two-letter GST state code (inter).''))]),
    (''supply_type'', JObject [
      (''$required'', JBool True),
      (''$type'', JString ''string''),
      (''description'', JString ([CHR 0x27] @ ''INTRA'' @ [CHR 0x27] @ '' or '' @ [CHR 0x27] @ ''INTER'' @ [CHR 0x27] @ '' derived from place_of_supply.''))]),
    (''tax_breakdown'', schema_tax_breakdown),
    (''total_value'', JObject [
      (''$required'', JBool True),
      (''$type'', JString ''number''),
      (''description'', JString ''Grand total = base_value + total_tax in INR.'')])]"

definition schema_irp :: json where
  "schema_irp = JObject [
    (''$required'', JBool False),
    (''$type'', JString ''object''),
    (''acknowledgment_no'', JObject [
      (''$required'', JBool False),
      (''$type'', JString ''string''),
      (''description'', JString ''IRP acknowledgement number when available.'')]),
    (''description'', JString ''IRP filing metadata for e-invoiced transactions (R-IRP-002).''),
    (''reported_on'', JObject [
      (''$required'', JBool False),
      (''$type'', JString ''string''),
      (''description'', JString ''IRP acknowledgment date YYYY-MM-DD.'')])]"

definition schema_extraction_confidence :: json where
  "schema_extraction_confidence = JObject [
    (''$required'', JBool False),
    (''$type'', JString ''object''),
    (''overall_score'', JObject [
      (''$required'', JBool False),
      (''$type'', JString ''number''),
      (''description'', JString ''0..1 extraction confidence.'')]),
    (''warnings'', JObject [
      (''$item'', JObject [
        (''$type'', JString ''string'')]),
      (''$required'', JBool False),
      (''$type'', JString ''array''),
      (''description'', JString ''Human-readable extraction warnings.'')])]"

definition gemini_schema :: json where
  "gemini_schema = JObject [
    (''$schema_description'', JString ''Strict JSON contract for invoice extraction. Gemini Pro (Phase 2, live mode) and the offline MockExtractor (Phase 1) MUST return a document conforming to this tree. Field paths here are referenced by config/rules_2026.json and validated natively by StateMatrix using nlohmann/json type-checking (no external json-schema-validator dependency).''),
    (''buyer'', schema_buyer),
    (''extraction_confidence'', schema_extraction_confidence),
    (''invoice'', schema_invoice),
    (''irp'', schema_irp),
    (''meta'', JObject [
      (''amount_scale'', JUInt 2),
      (''currency'', JString ''INR''),
      (''date_format'', JString ''YYYY-MM-DD''),
      (''format_version'', JString ''1.0'')]),
    (''supplier'', schema_supplier)]"

lemmas gemini_schema_defs = gemini_schema_def schema_supplier_def schema_buyer_def schema_invoice_def
  schema_irp_def schema_extraction_confidence_def schema_line_items_def schema_tax_breakdown_def

lemma gemini_schema_ok: "schema_ok gemini_schema"
  by code_simp


text \<open>Following a required field of a conforming document.\<close>

definition required_sub :: "json \<Rightarrow> string \<Rightarrow> json option" where
  "required_sub s k = (case jfind s k of None \<Rightarrow> None
     | Some v \<Rightarrow> (if skip_key k v \<or> \<not> is_required v then None else Some v))"

lemma required_field:
  "list_all (\<lambda>(k, v). skip_key k v \<or>
       (case jfind a k of None \<Rightarrow> \<not> is_required v | Some b \<Rightarrow> conforms b v)) (items s) \<Longrightarrow>
   required_sub s k = Some v \<Longrightarrow> \<exists>b. jfind a k = Some b \<and> conforms b v"
  by (auto simp: required_sub_def list_all_iff jfind_items [of s] dest!: map_of_SomeD
      split: option.splits if_splits)

lemma conforms_object:
  "conforms a s \<Longrightarrow> node_type s = ''object'' \<Longrightarrow>
     is_object a \<and> (\<forall>k v. required_sub s k = Some v \<longrightarrow> (\<exists>b. jfind a k = Some b \<and> conforms b v))"
  by (subst (asm) conforms.simps) (auto intro: required_field)

lemma conforms_array:
  "conforms a s \<Longrightarrow> node_type s = ''array'' \<Longrightarrow> jfind s ''$item'' = Some it \<Longrightarrow>
     \<exists>xs. a = JArray xs \<and> (\<forall>x \<in> set xs. conforms x it)"
  by (subst (asm) conforms.simps) (auto simp: is_array_iff list_all_iff)

definition schema_item :: json where
  "schema_item = the (jfind schema_line_items ''$item'')"

lemma schema_nodes:
  "node_type schema_supplier = ''object''" "node_type schema_invoice = ''object''"
  "node_type schema_line_items = ''array''" "node_type schema_item = ''object''"
  "required_sub gemini_schema ''supplier'' = Some schema_supplier"
  "required_sub gemini_schema ''invoice'' = Some schema_invoice"
  "required_sub schema_invoice ''line_items'' = Some schema_line_items"
  "jfind schema_line_items ''$item'' = Some schema_item"
  by code_simp+

lemma schema_at_keys:
  "list_all (\<lambda>k. required_sub schema_supplier k \<noteq> None) [''gstin'', ''name'', ''address_state'']"
  "list_all (\<lambda>k. required_sub schema_invoice k \<noteq> None)
     [''number'', ''date'', ''place_of_supply'', ''hsn_string'', ''supply_type'', ''classification'']"
  "list_all (\<lambda>k. required_sub schema_item k \<noteq> None) [''hsn'', ''tax_rate'', ''base_value'']"
  by code_simp+

lemma gemini_required:
  assumes "conforms_root doc gemini_schema"
  obtains sj iv xs where "jfind doc ''supplier'' = Some sj" and "is_object sj"
    and "list_all (\<lambda>k. jfind sj k \<noteq> None) [''gstin'', ''name'', ''address_state'']"
    and "jfind doc ''invoice'' = Some iv" and "is_object iv"
    and "list_all (\<lambda>k. jfind iv k \<noteq> None)
      [''number'', ''date'', ''place_of_supply'', ''hsn_string'', ''supply_type'', ''classification'']"
    and "jfind iv ''line_items'' = Some (JArray xs)"
    and "\<And>x. x \<in> set xs \<Longrightarrow> is_object x \<and> list_all (\<lambda>k. jfind x k \<noteq> None) [''hsn'', ''tax_rate'', ''base_value'']"
proof -
  have root: "\<exists>b. jfind doc k = Some b \<and> conforms b v" if "required_sub gemini_schema k = Some v" for k v
    using assms that required_field unfolding conforms_root_def by blast
  obtain sj where sj: "jfind doc ''supplier'' = Some sj" "conforms sj schema_supplier"
    using root schema_nodes by blast
  obtain iv where iv: "jfind doc ''invoice'' = Some iv" "conforms iv schema_invoice"
    using root schema_nodes by blast
  note s = conforms_object [OF sj(2) schema_nodes(1)] and i = conforms_object [OF iv(2) schema_nodes(2)]
  obtain b where b: "jfind iv ''line_items'' = Some b" "conforms b schema_line_items"
    using i schema_nodes by blast
  obtain xs where xs: "b = JArray xs" "\<forall>x \<in> set xs. conforms x schema_item"
    using conforms_array [OF b(2) schema_nodes(3,8)] by blast
  show ?thesis
  proof (rule that [OF sj(1) _ _ iv(1) _ _ b(1) [unfolded xs(1)]])
    show "is_object sj" "is_object iv" using s i by auto
    show "list_all (\<lambda>k. jfind sj k \<noteq> None) [''gstin'', ''name'', ''address_state'']"
      using schema_at_keys(1) s by (fastforce simp: list_all_iff)
    show "list_all (\<lambda>k. jfind iv k \<noteq> None)
      [''number'', ''date'', ''place_of_supply'', ''hsn_string'', ''supply_type'', ''classification'']"
      using schema_at_keys(2) i by (fastforce simp: list_all_iff)
    fix x assume "x \<in> set xs"
    then show "is_object x \<and> list_all (\<lambda>k. jfind x k \<noteq> None) [''hsn'', ''tax_rate'', ''base_value'']"
      using xs(2) conforms_object [OF _ schema_nodes(4)] schema_at_keys(3) by (fastforce simp: list_all_iff)
  qed
qed

section \<open>Conforming documents and the validator\<close>

lemma jat_present: "jfind j k \<noteq> None \<Longrightarrow> fails_with invalid (jat j k)"
  by (auto simp: jat_def fails_with_def jfind_is_object)

lemma fails_string_at_present:
  "jfind j k \<noteq> None \<Longrightarrow> fails_with invalid (string_at j k p)"
  unfolding string_at_def by (intro fails_with_bindE jat_present fails_requireString)

lemma supplier_invalid:
  assumes "jfind doc ''supplier'' = Some sj" and "is_object sj"
    and "list_all (\<lambda>k. jfind sj k \<noteq> None) [''gstin'', ''name'', ''address_state'']"
  shows "fails_with invalid (vs_supplier doc m)"
proof -
  have "object_field doc ''supplier'' e = Inr sj" for e
    using assms(1,2) by (simp add: object_field_def)
  moreover have "fails_with invalid (string_at sj k p)"
    if "k \<in> {''gstin'', ''name'', ''address_state''}" for k p
    using assms(3) that by (intro fails_string_at_present) auto
  ultimately show ?thesis unfolding vs_supplier_def
    by (auto intro!: fails_with_bindE fails_get_double split: option.split)
qed

lemma invoice_invalid:
  assumes "list_all (\<lambda>k. jfind iv k \<noteq> None)
      [''number'', ''date'', ''place_of_supply'', ''hsn_string'', ''supply_type'', ''classification'']"
  shows "fails_with invalid (vs_invoice iv m)"
proof -
  have "fails_with invalid (string_at iv k p)"
    if "k \<in> {''number'', ''date'', ''place_of_supply'', ''hsn_string'', ''supply_type'', ''classification''}" for k p
    using assms that by (intro fails_string_at_present) auto
  moreover have "fails_with invalid (vs_irn iv m)" for m
    unfolding vs_irn_def by (auto split: option.split json.split)
  ultimately show ?thesis unfolding vs_invoice_def
    by (intro fails_with_bindE)
      (auto simp: supply_type_of_def classification_of_def intro!: fails_toCents split: option.split)
qed

lemma line_item_invalid:
  assumes "list_all (\<lambda>k. jfind x k \<noteq> None) [''hsn'', ''tax_rate'', ''base_value'']"
  shows "fails_with invalid (vs_line_item i x)"
proof -
  have "fails_with invalid (jat x k)" "fails_with invalid (string_at x k p)"
    if "k \<in> {''hsn'', ''tax_rate'', ''base_value''}" for k p
    using assms that by (auto intro!: fails_string_at_present jat_present)
  then show ?thesis unfolding vs_line_item_def
    by (intro fails_with_bindE) (auto intro!: fails_intros split: option.split)
qed

lemma line_items_invalid:
  assumes "jfind iv ''line_items'' = Some (JArray xs)"
    and "\<And>x. x \<in> set xs \<Longrightarrow> list_all (\<lambda>k. jfind x k \<noteq> None) [''hsn'', ''tax_rate'', ''base_value'']"
  shows "fails_with invalid (vs_line_items iv m)"
proof -
  have "fails_with invalid (case p of (i, x) \<Rightarrow> vs_line_item i x)" if "p \<in> set (enumerate 0 xs)" for p
  proof -
    obtain i x where p: "p = (i, x)" by (cases p)
    then have "x \<in> set xs" using that by (auto simp: enumerate_eq_zip dest: set_zip_rightD)
    then show ?thesis using line_item_invalid [OF assms(2)] by (simp add: p)
  qed
  then show ?thesis using assms(1) unfolding vs_line_items_def
    by (auto intro!: fails_with_bindE fails_with_mapE)
qed

lemma rest_invalid:
  "fails_with invalid (vs_buyer doc m)" "fails_with invalid (vs_tax j m)"
  "fails_with invalid (vs_total j m)" "fails_with invalid (vs_irp doc m)"
  unfolding vs_buyer_def vs_tax_def vs_total_def vs_irp_def Let_def
     apply (auto intro!: fails_intros split: option.split)[1]
    apply (intro fails_intros; auto intro!: fails_intros split: option.split)[1]
   apply (auto intro!: fails_intros split: option.split)[1]
  apply (auto intro!: fails_intros split: option.split)[1]
  done

lemma conforming_rejection:
  assumes c: "conforms_root doc gemini_schema"
  shows "fails_with invalid (validateAndSanitize doc)"
proof -
  have doc: "is_object doc" using c by (simp add: conforms_root_def)
  show ?thesis
  proof (rule gemini_required [OF c])
    fix sj iv xs
    assume s: "jfind doc ''supplier'' = Some sj" "is_object sj"
        "list_all (\<lambda>k. jfind sj k \<noteq> None) [''gstin'', ''name'', ''address_state'']"
      and i: "jfind doc ''invoice'' = Some iv" "is_object iv"
        "list_all (\<lambda>k. jfind iv k \<noteq> None)
          [''number'', ''date'', ''place_of_supply'', ''hsn_string'', ''supply_type'', ''classification'']"
      and l: "jfind iv ''line_items'' = Some (JArray xs)"
        "\<And>x. x \<in> set xs \<Longrightarrow> is_object x \<and> list_all (\<lambda>k. jfind x k \<noteq> None) [''hsn'', ''tax_rate'', ''base_value'']"
    have "object_field doc ''invoice'' e' = Inr iv" for e'
      using i(1,2) by (simp add: object_field_def)
    then show ?thesis
      unfolding validateAndSanitize_def using doc
      by (auto intro!: fails_with_bindE supplier_invalid [OF s] invoice_invalid [OF i(3)]
          line_items_invalid [OF l(1)] rest_invalid dest: l(2))
  qed
qed

text \<open>
  Property C26. The boundary checks compose: a document that passes \<open>validateAgainstSchema\<close> with
  the shipped config/gemini_schema.json (what \<open>GeminiClient\<close> demands) can only be rejected by
  \<open>validateAndSanitize\<close> with \<open>std::invalid_argument\<close>, the exception the upload handler turns into
  a rejection message.
\<close>

theorem conforming_rejection_is_invalid_argument:
  assumes "validateAgainstSchema doc gemini_schema = Inr []"
    and "validateAndSanitize doc = Inl e"
  shows "\<exists>s. e = Invalid_argument s"
  using conforming_rejection [of doc] schema_decides [OF gemini_schema_ok, of doc] assms
  by (auto simp: fails_with_def invalid_def)

end
