(* ===== verification/MockExtractor.thy ===== *)
theory MockExtractor
  imports Schema_Walk
begin

text \<open>
  backend/src/MockExtractor.cpp: the offline extractor and its built-in document, a compliant
  inter-state B2B invoice. The document also serves as the concrete input of several
  witnesses: it conforms to the shipped schema and the validator accepts it.
\<close>

definition default_irn :: string where
  "default_irn = ''0123456789abcdef0123456789abcdef0123456789abcdef0123456789abcdef''"

definition default_supplier :: json where
  "default_supplier = mk_object
     [(''gstin'', JString ''27AAPFU0939F1ZV''),
      (''name'', JString ''Acme Retail Pvt Ltd''),
      (''address_state'', JString ''MH''),
      (''aato_crore'', JFloat (Fin (13 / 2)))]"

definition default_buyer :: json where
  "default_buyer = mk_object
     [(''gstin'', JString ''29ABCDE1234F1Z5''),
      (''name'', JString ''Karnataka Buyers''),
      (''address_state'', JString ''KA''),
      (''registered'', JBool True)]"

definition default_invoice :: json where
  "default_invoice = mk_object
     [(''number'', JString ''INV-2026-0001''),
      (''date'', JString ''2026-04-01''),
      (''place_of_supply'', JString ''KA''),
      (''supply_type'', JString ''INTER''),
      (''classification'', JString ''B2B''),
      (''irn_present'', JBool True),
      (''irn'', JString default_irn),
      (''hsn_string'', JString ''84713000''),
      (''base_value'', JFloat (Fin 1000)),
      (''line_items'', JArray
         [mk_object
            [(''hsn'', JString ''84713000''),
             (''description'', JString ''Laptop''),
             (''quantity'', JInt 2),
             (''unit_price'', JFloat (Fin 500)),
             (''base_value'', JFloat (Fin 1000)),
             (''tax_rate'', JInt 18)]]),
      (''tax_breakdown'', mk_object
         [(''cgst'', JInt 0),
          (''sgst'', JInt 0),
          (''igst'', JFloat (Fin 180)),
          (''cess'', JInt 0),
          (''has_cgst_sgst'', JBool False),
          (''has_igst'', JBool True),
          (''total_tax'', JFloat (Fin 180))]),
      (''total_value'', JFloat (Fin 1180))]"

definition buildDefaultDocument :: json where
  "buildDefaultDocument = mk_object
     [(''supplier'', default_supplier),
      (''buyer'', default_buyer),
      (''invoice'', default_invoice),
      (''irp'', mk_object
         [(''reported_on'', JString ''2026-04-05''),
          (''acknowledgment_no'', JString ''IRP-12345'')]),
      (''extraction_confidence'', mk_object
         [(''overall_score'', JFloat (rnd (98 / 100))),
          (''warnings'', JArray [])])]"

text \<open>An extractor turns the uploaded buffer into a document or throws.\<close>

type_synonym extractor = "string \<Rightarrow> string \<Rightarrow> json result"

definition mockExtract :: "json \<Rightarrow> extractor" where
  "mockExtract document base64_data mime_type = Inr document"

section \<open>The built-in document\<close>

definition default_matrix :: StateMatrix where
  "default_matrix = \<lparr>supplier_gstin = ''27AAPFU0939F1ZV'', supplier_name = ''Acme Retail Pvt Ltd'',
     supplier_state = ''MH'', aato_crore = Some (Fin (13 / 2)),
     buyer_gstin = Some ''29ABCDE1234F1Z5'', buyer_name = Some ''Karnataka Buyers'',
     buyer_state = Some ''KA'', buyer_registered = Some True,
     invoice_number = ''INV-2026-0001'', invoice_date = ''2026-04-01'', place_of_supply = ''KA'',
     irn = default_irn, hsn_string = ''84713000'', supply_type = INTER, classification = B2B,
     irn_present = True, irp_reported_on = Some ''2026-04-05'',
     line_items = [\<lparr>hsn = ''84713000'', description = ''Laptop'', base_value_cents = 100000,
        tax_rate_bps = 1800, quantity = Some (Fin 2), unit_price_cents = Some 50000\<rparr>],
     matrix_base_value_cents = 100000, total_value_cents = 118000,
     tax = \<lparr>cgst_cents = 0, sgst_cents = 0, igst_cents = 18000, cess_cents = 0,
        total_tax_cents = 18000, has_cgst_sgst = False, has_igst = True\<rparr>\<rparr>"

text \<open>The same document with one member of the invoice replaced.\<close>

definition invoice_with :: "string \<Rightarrow> json \<Rightarrow> json" where
  "invoice_with k v = jset default_invoice k v"

definition document_with :: "string \<Rightarrow> json \<Rightarrow> json" where
  "document_with k v = jset buildDefaultDocument ''invoice'' (invoice_with k v)"

lemma jfind_invoice_with:
  "jfind (invoice_with k v) k' = (if k' = k then Some v else jfind default_invoice k')"
  by (simp add: invoice_with_def jfind_jset default_invoice_def)

lemma jfind_document_with:
  "jfind (document_with k v) k' =
     (if k' = ''invoice'' then Some (invoice_with k v) else jfind buildDefaultDocument k')"
  by (simp add: document_with_def jfind_jset buildDefaultDocument_def)

lemma is_object_samples [simp]:
  "is_object (invoice_with k v)" "is_object (document_with k v)"
  "is_object default_invoice" "is_object buildDefaultDocument"
  by (simp_all add: invoice_with_def document_with_def default_invoice_def buildDefaultDocument_def)

text \<open>What each part of the validator reads from the document, whatever its HSN string.\<close>

lemma default_supplier_part:
  "jfind doc ''supplier'' = Some default_supplier \<Longrightarrow>
   vs_supplier doc m = Inr (m\<lparr>supplier_gstin := ''27AAPFU0939F1ZV'',
      supplier_name := ''Acme Retail Pvt Ltd'', supplier_state := ''MH'', aato_crore := Some (Fin (13 / 2))\<rparr>)"
  by (simp add: default_supplier_def validator_defs jfind_mk_object)

lemma default_buyer_part:
  "jfind doc ''buyer'' = Some default_buyer \<Longrightarrow>
   vs_buyer doc m = Inr (m\<lparr>buyer_registered := Some True,
      buyer_gstin := Some ''29ABCDE1234F1Z5'', buyer_name := Some ''Karnataka Buyers'',
      buyer_state := Some ''KA''\<rparr>)"
  by (simp add: default_buyer_def validator_defs jfind_mk_object)

lemma default_irp_part:
  "jfind doc ''irp'' = jfind buildDefaultDocument ''irp'' \<Longrightarrow>
   vs_irp doc m = Inr (m\<lparr>irp_reported_on := Some ''2026-04-05''\<rparr>)"
  by (simp add: buildDefaultDocument_def validator_defs jfind_mk_object)

lemma default_invoice_parts:
  assumes "\<And>k. k \<noteq> ''hsn_string'' \<Longrightarrow> jfind iv k = jfind default_invoice k"
    and "jfind iv ''hsn_string'' = Some (JString h)" and "is_object iv"
  shows "vs_invoice iv m = Inr (m\<lparr>invoice_number := ''INV-2026-0001'',
      invoice_date := ''2026-04-01'', place_of_supply := ''KA'', hsn_string := h,
      supply_type := INTER, classification := B2B, irn_present := True, irn := default_irn,
      matrix_base_value_cents := 100000\<rparr>)"
    and "vs_line_items iv m = Inr (m\<lparr>line_items := line_items default_matrix\<rparr>)"
    and "vs_tax iv m = Inr (m\<lparr>tax := tax default_matrix\<rparr>)"
    and "vs_total iv m = Inr (m\<lparr>total_value_cents := 118000\<rparr>)"
  using assms rnd_of_int [of 2]
  by (simp_all add: default_invoice_def default_matrix_def validator_defs jfind_mk_object TaxBreakdown0_def)

lemma validate_sample:
  assumes "is_object doc" and "\<And>k. k \<noteq> ''invoice'' \<Longrightarrow> jfind doc k = jfind buildDefaultDocument k"
    and "jfind doc ''invoice'' = Some iv"
    and "\<And>k. k \<noteq> ''hsn_string'' \<Longrightarrow> jfind iv k = jfind default_invoice k"
    and "jfind iv ''hsn_string'' = Some (JString h)" and "is_object iv"
  shows "validateAndSanitize doc = Inr (default_matrix\<lparr>hsn_string := h\<rparr>)"
proof -
  have "jfind doc ''supplier'' = Some default_supplier" "jfind doc ''buyer'' = Some default_buyer"
    "jfind doc ''irp'' = jfind buildDefaultDocument ''irp''"
    using assms(2) by (simp_all add: buildDefaultDocument_def jfind_mk_object)
  then show ?thesis
    using assms(1,3,6) default_supplier_part default_buyer_part default_irp_part
      default_invoice_parts [OF assms(4,5,6)]
    by (simp add: validateAndSanitize_def object_field_def default_matrix_def StateMatrix0_def)
qed

lemma validate_default: "validateAndSanitize buildDefaultDocument = Inr default_matrix"
proof -
  have "jfind buildDefaultDocument ''invoice'' = Some default_invoice"
    "jfind default_invoice ''hsn_string'' = Some (JString (hsn_string default_matrix))"
    by (simp_all add: buildDefaultDocument_def default_invoice_def default_matrix_def jfind_mk_object)
  then have "validateAndSanitize buildDefaultDocument = Inr (default_matrix\<lparr>hsn_string := hsn_string default_matrix\<rparr>)"
    by (intro validate_sample [of _ default_invoice]) simp_all
  then show ?thesis by simp
qed

lemma validate_with_hsn:
  "validateAndSanitize (document_with ''hsn_string'' (JString h)) = Inr (default_matrix\<lparr>hsn_string := h\<rparr>)"
  by (rule validate_sample [of _ "invoice_with ''hsn_string'' (JString h)"])
    (simp_all add: jfind_document_with jfind_invoice_with)

text \<open>With another supply type the document still conforms: the schema asks for a string, no more.\<close>

lemmas schema_eval = conforms_steps node_type_def is_required_def skip_key_def jcontains_def
  omap_get_def jfind_mk_object

lemma supplier_conforms: "conforms default_supplier schema_supplier"
  by (simp add: schema_eval default_supplier_def schema_supplier_def)

lemma buyer_conforms: "conforms default_buyer schema_buyer"
  by (simp add: schema_eval default_buyer_def schema_buyer_def)

lemma invoice_conforms: "conforms default_invoice schema_invoice"
  by (simp add: schema_eval default_invoice_def schema_invoice_def schema_line_items_def
      schema_tax_breakdown_def)

lemma invoice_with_supply_conforms: "conforms (invoice_with ''supply_type'' (JString st)) schema_invoice"
  by (simp add: schema_eval jfind_invoice_with default_invoice_def schema_invoice_def
      schema_line_items_def schema_tax_breakdown_def)

lemma document_conforms: "conforms_root buildDefaultDocument gemini_schema"
  using supplier_conforms buyer_conforms invoice_conforms
  by (simp add: conforms_root_def schema_eval buildDefaultDocument_def gemini_schema_def
      schema_irp_def schema_extraction_confidence_def)

lemma document_with_supply_conforms: "conforms_root (document_with ''supply_type'' (JString st)) gemini_schema"
  using supplier_conforms buyer_conforms invoice_with_supply_conforms [of st]
  by (simp add: conforms_root_def schema_eval jfind_document_with buildDefaultDocument_def
      gemini_schema_def schema_irp_def schema_extraction_confidence_def)

lemma schema_document_with_supply:
  "validateAgainstSchema (document_with ''supply_type'' (JString st)) gemini_schema = Inr []"
  using schema_decides [OF gemini_schema_ok, of "document_with ''supply_type'' (JString st)"]
    document_with_supply_conforms by auto

lemma schema_default: "validateAgainstSchema buildDefaultDocument gemini_schema = Inr []"
  using schema_decides [OF gemini_schema_ok, of buildDefaultDocument] document_conforms by auto

theorem validateAndSanitize_ok_witness: "matrix_ok default_matrix"
  by (rule validateAndSanitize_ok [OF validate_default])

theorem validateAgainstSchema_decides_witness:
  "schema_ok gemini_schema \<and>
   (\<exists>errs. validateAgainstSchema (JObject []) gemini_schema = Inr errs \<and>
      (errs = [] \<longleftrightarrow> conforms_root (JObject []) gemini_schema))"
  using gemini_schema_ok validateAgainstSchema_decides [OF gemini_schema_ok] by blast

text \<open>A supply type the schema (a plain string) admits and the code does not.\<close>

theorem conforming_rejection_is_invalid_argument_witness:
  "\<exists>e. validateAndSanitize (document_with ''supply_type'' (JString ''EXPORT'')) = Inl e \<and> (\<exists>s. e = Invalid_argument s)"
proof -
  have "vs_invoice (invoice_with ''supply_type'' (JString ''EXPORT'')) m
      = Inl (vs_fail ''invoice.supply_type''
             (''must be '' @ [CHR 0x27] @ ''INTRA'' @ [CHR 0x27] @ '' or '' @ [CHR 0x27] @ ''INTER'' @ [CHR 0x27]))" for m
    by (simp add: vs_invoice_def string_at_def jat_def requireString_def supply_type_of_def
        jfind_invoice_with default_invoice_def jfind_mk_object)
  then have "\<forall>m. validateAndSanitize (document_with ''supply_type'' (JString ''EXPORT'')) \<noteq> Inr m"
    by (auto simp: validateAndSanitize_def object_field_def jfind_document_with bindE_eq_Inr)
  then obtain e where e: "validateAndSanitize (document_with ''supply_type'' (JString ''EXPORT'')) = Inl e"
    by (cases "validateAndSanitize (document_with ''supply_type'' (JString ''EXPORT''))") auto
  show ?thesis
    using e conforming_rejection_is_invalid_argument [OF schema_document_with_supply e] by blast
qed

end
