(* ===== verification/Json_Dump.thy ===== *)
theory Json_Dump
  imports Json_Value
begin

text \<open>
  \<open>json::dump()\<close> with its default arguments (no indentation, \<open>ensure_ascii\<close> off, strict error
  handler), from the serializer of backend/include/json.hpp: the UTF-8 automaton of \<open>decode\<close>,
  \<open>dump_escaped\<close> and the recursive \<open>dump\<close>. How a finite double is printed (the shortest-digits
  algorithm) is the parameter \<open>ft\<close>. The lemmas show that dumping throws exactly when a string
  or a key of the value is not well-formed UTF-8, and that what it writes for a string contains
  no quote, backslash or control character other than its own escapes.
\<close>

section \<open>The UTF-8 automaton\<close>

text \<open>
  The first 256 entries of \<open>utf8d\<close> give the class of a byte, the rest the next state for a
  state (0 accepts, 1 rejects) and a class, sixteen to a state.
\<close>

definition utf8_class :: "nat \<Rightarrow> nat" where
  "utf8_class b =
     (if b < 0x80 then 0 else if b < 0x90 then 1 else if b < 0xA0 then 9 else if b < 0xC0 then 7
      else if b < 0xC2 then 8 else if b < 0xE0 then 2 else if b = 0xE0 then 10 else if b < 0xED then 3
      else if b = 0xED then 4 else if b < 0xF0 then 3 else if b = 0xF0 then 11 else if b < 0xF4 then 6
      else if b = 0xF4 then 5 else 8)"

definition utf8_rows :: "nat list list" where
  "utf8_rows =
     [[0, 1, 2, 3, 5, 8, 7, 1, 1, 1, 4, 6, 1, 1, 1, 1],
      [1, 1, 1, 1, 1, 1, 1, 1, 1, 1, 1, 1, 1, 1, 1, 1],
      [1, 0, 1, 1, 1, 1, 1, 0, 1, 0, 1, 1, 1, 1, 1, 1],
      [1, 2, 1, 1, 1, 1, 1, 2, 1, 2, 1, 1, 1, 1, 1, 1],
      [1, 1, 1, 1, 1, 1, 1, 2, 1, 1, 1, 1, 1, 1, 1, 1],
      [1, 2, 1, 1, 1, 1, 1, 1, 1, 2, 1, 1, 1, 1, 1, 1],
      [1, 1, 1, 1, 1, 1, 1, 3, 1, 3, 1, 1, 1, 1, 1, 1],
      [1, 3, 1, 1, 1, 1, 1, 3, 1, 3, 1, 1, 1, 1, 1, 1],
      [1, 3, 1, 1, 1, 1, 1, 1, 1, 1, 1, 1, 1, 1, 1, 1]]"

definition utf8_next :: "nat \<Rightarrow> nat \<Rightarrow> nat" where
  "utf8_next st b = utf8_rows ! st ! utf8_class b"

definition utf8_codep :: "nat \<Rightarrow> nat \<Rightarrow> nat \<Rightarrow> nat" where
  "utf8_codep st codep b =
     (if st \<noteq> 0 then b mod 0x40 + codep * 0x40 else b mod (0xFF div 2 ^ utf8_class b + 1))"

section \<open>Strings\<close>

definition byte_of :: "char \<Rightarrow> nat" where
  "byte_of c = of_char c"

definition hex_upper :: "nat \<Rightarrow> char" where
  "hex_upper n = (if n < 10 then char_of (48 + n) else char_of (55 + n))"

definition hex_lower :: "nat \<Rightarrow> char" where
  "hex_lower n = (if n < 10 then char_of (48 + n) else char_of (87 + n))"

definition hex_bytes :: "nat \<Rightarrow> string" where
  "hex_bytes b = [hex_upper (b div 16), hex_upper (b mod 16)]"

text \<open>What is written for the byte \<open>c\<close> that completes the code point \<open>cp\<close>.\<close>

definition escape_cp :: "char \<Rightarrow> nat \<Rightarrow> string" where
  "escape_cp c cp =
     (if cp = 0x08 then [CHR 0x5C, CHR ''b'']
      else if cp = 0x09 then [CHR 0x5C, CHR ''t'']
      else if cp = 0x0A then [CHR 0x5C, CHR ''n'']
      else if cp = 0x0C then [CHR 0x5C, CHR ''f'']
      else if cp = 0x0D then [CHR 0x5C, CHR ''r'']
      else if cp = 0x22 then [CHR 0x5C, CHR 0x22]
      else if cp = 0x5C then [CHR 0x5C, CHR 0x5C]
      else if cp \<le> 0x1F then [CHR 0x5C, CHR ''u'', CHR ''0'', CHR ''0'', hex_lower (cp div 16), hex_lower (cp mod 16)]
      else [c])"

text \<open>
  The loop of \<open>dump_escaped\<close>: automaton state, code point so far, index, last byte seen and the
  bytes left. The 512-byte buffer is written out whenever it fills, so the output is the
  concatenation of what each byte appends; when the handler throws, nothing of it is used.
\<close>

definition dump_escaped_end :: "nat \<Rightarrow> nat \<Rightarrow> string result" where
  "dump_escaped_end st l =
     (if st = 0 then Inr []
      else Inl (type_error 316 (''incomplete UTF-8 string; last byte: 0x'' @ hex_bytes l)))"

fun dump_escaped_from :: "nat \<Rightarrow> nat \<Rightarrow> nat \<Rightarrow> nat \<Rightarrow> string \<Rightarrow> string result" where
  "dump_escaped_from st codep i l [] = dump_escaped_end st l"
| "dump_escaped_from st codep i l (c # s) =
     (let b = byte_of c; st' = utf8_next st b; codep' = utf8_codep st codep b in
      if st' = 0 then
        bindE (dump_escaped_from st' codep' (i + 1) b s) (\<lambda>out. Inr (escape_cp c codep' @ out))
      else if st' = 1 then
        Inl (type_error 316 (''invalid UTF-8 byte at index '' @ int_str (int i) @ '': 0x'' @ hex_bytes b))
      else bindE (dump_escaped_from st' codep' (i + 1) b s) (\<lambda>out. Inr (c # out)))"

definition dump_escaped :: "string \<Rightarrow> string result" where
  "dump_escaped s = dump_escaped_from 0 0 0 0 s"

section \<open>Integers\<close>

text \<open>
  \<open>dump_integer\<close> fills its buffer backwards, two digits at a time, into the number of characters
  \<open>count_digits\<close> announced; \<open>digits_back\<close> is that loop, returning what it has written.
\<close>

function count_digits_from :: "int \<Rightarrow> int \<Rightarrow> int" where
  "count_digits_from n x =
     (if x < 10 then n else if x < 100 then n + 1 else if x < 1000 then n + 2
      else if x < 10000 then n + 3 else count_digits_from (n + 4) (x div 10000))"
  by pat_completeness auto
termination
  by (relation "measure (\<lambda>(n, x). nat x)") auto

declare count_digits_from.simps [simp del]

definition count_digits :: "int \<Rightarrow> int" where
  "count_digits x = count_digits_from 1 x"

definition digits_to_99 :: "int \<Rightarrow> string" where
  "digits_to_99 d = [digit_char (d div 10), digit_char (d mod 10)]"

function digits_back :: "int \<Rightarrow> string \<Rightarrow> string" where
  "digits_back x out =
     (if 100 \<le> x then digits_back (x div 100) (digits_to_99 (x mod 100) @ out)
      else if 10 \<le> x then digits_to_99 x @ out
      else digit_char x # out)"
  by pat_completeness auto
termination
  by (relation "measure (\<lambda>(x, out). nat x)") auto

declare digits_back.simps [simp del]

text \<open>The buffer from which \<open>n_chars\<close> bytes are written: the sign at its front, the digits at its end.\<close>

definition dump_integer :: "int \<Rightarrow> string" where
  "dump_integer x =
     (if x = 0 then ''0''
      else if x < 0 then
        (let abs_value = - (x + 1) + 1; n_chars = 1 + count_digits abs_value in
         take (nat n_chars) (''-'' @ digits_back abs_value []))
      else take (nat (count_digits x)) (digits_back x []))"

section \<open>Values\<close>

definition dump_float :: "(dbl \<Rightarrow> string) \<Rightarrow> dbl \<Rightarrow> string" where
  "dump_float ft d = (if isfinite d then ft d else ''null'')"

definition dump_string :: "string \<Rightarrow> string result" where
  "dump_string s = bindE (dump_escaped s) (\<lambda>t. Inr ([CHR 0x22] @ t @ [CHR 0x22]))"

text \<open>The compact rendering of an object and of an array, from their rendered members.\<close>

definition dump_members :: "string list \<Rightarrow> string" where
  "dump_members ps = ''{'' @ join_with '','' ps @ ''}''"

definition dump_elements :: "string list \<Rightarrow> string" where
  "dump_elements ps = ''['' @ join_with '','' ps @ '']''"

fun dump :: "(dbl \<Rightarrow> string) \<Rightarrow> json \<Rightarrow> string result" where
  "dump ft (JObject es) =
     bindE (mapE (\<lambda>e. bindE (dump_string (fst e)) (\<lambda>k. bindE (dump ft (snd e)) (\<lambda>v.
              Inr (k @ '':'' @ v)))) es) (\<lambda>ps. Inr (dump_members ps))"
| "dump ft (JArray xs) =
     bindE (mapE (dump ft) xs) (\<lambda>ps. Inr (dump_elements ps))"
| "dump ft (JString s) = dump_string s"
| "dump ft (JBool b) = Inr (if b then ''true'' else ''false'')"
| "dump ft (JInt i) = Inr (dump_integer i)"
| "dump ft (JUInt i) = Inr (dump_integer i)"
| "dump ft (JFloat d) = Inr (dump_float ft d)"
| "dump ft JNull = Inr ''null''"

section \<open>Well-formed UTF-8\<close>

text \<open>The encoding of RFC 3629, independent of the automaton.\<close>

definition scalar_value :: "nat \<Rightarrow> bool" where
  "scalar_value cp \<longleftrightarrow> cp < 0xD800 \<or> (0xE000 \<le> cp \<and> cp < 0x110000)"

definition utf8_encode :: "nat \<Rightarrow> nat list" where
  "utf8_encode cp =
     (if cp < 0x80 then [cp]
      else if cp < 0x800 then [0xC0 + cp div 0x40, 0x80 + cp mod 0x40]
      else if cp < 0x10000 then
        [0xE0 + cp div 0x1000, 0x80 + cp div 0x40 mod 0x40, 0x80 + cp mod 0x40]
      else [0xF0 + cp div 0x40000, 0x80 + cp div 0x1000 mod 0x40, 0x80 + cp div 0x40 mod 0x40,
            0x80 + cp mod 0x40])"

definition well_formed_utf8 :: "string \<Rightarrow> bool" where
  "well_formed_utf8 s \<longleftrightarrow>
     (\<exists>cps. list_all scalar_value cps \<and> map byte_of s = concat (map utf8_encode cps))"

text \<open>The automaton as a predicate on bytes.\<close>

fun utf8_run :: "nat \<Rightarrow> nat list \<Rightarrow> bool" where
  "utf8_run st [] \<longleftrightarrow> st = 0"
| "utf8_run st (b # bs) \<longleftrightarrow> utf8_next st b \<noteq> 1 \<and> utf8_run (utf8_next st b) bs"

lemma byte_of_less [simp]: "byte_of c < 256"
  by (simp add: byte_of_def)

lemma utf8_next_0:
  "utf8_next 0 b = (if b < 0x80 then 0 else if b < 0xC2 then 1 else if b < 0xE0 then 2
     else if b = 0xE0 then 4 else if b < 0xED then 3 else if b = 0xED then 5 else if b < 0xF0 then 3
     else if b = 0xF0 then 6 else if b < 0xF4 then 7 else if b = 0xF4 then 8 else 1)"
  by (simp add: utf8_next_def utf8_class_def utf8_rows_def)

lemma utf8_next_rest:
  "utf8_next 2 b = (if 0x80 \<le> b \<and> b < 0xC0 then 0 else 1)"
  "utf8_next 3 b = (if 0x80 \<le> b \<and> b < 0xC0 then 2 else 1)"
  "utf8_next 4 b = (if 0xA0 \<le> b \<and> b < 0xC0 then 2 else 1)"
  "utf8_next 5 b = (if 0x80 \<le> b \<and> b < 0xA0 then 2 else 1)"
  "utf8_next 6 b = (if 0x90 \<le> b \<and> b < 0xC0 then 3 else 1)"
  "utf8_next 7 b = (if 0x80 \<le> b \<and> b < 0xC0 then 3 else 1)"
  "utf8_next 8 b = (if 0x80 \<le> b \<and> b < 0x90 then 3 else 1)"
  by (simp_all add: utf8_next_def utf8_class_def utf8_rows_def)

lemma utf8_run_encode:
  assumes "scalar_value cp"
  shows "utf8_run 0 (utf8_encode cp @ bs) \<longleftrightarrow> utf8_run 0 bs"
proof -
  define x where "x = cp mod 64"
  define q where "q = cp div 64"
  define y where "y = q mod 64"
  define r where "r = q div 64"
  define z where "z = r mod 64"
  define w where "w = r div 64"
  have lt: "x < 64" "y < 64" "z < 64" by (simp_all add: x_def y_def z_def)
  have cp: "cp = 64 * q + x" "q = 64 * r + y" "r = 64 * w + z"
    by (simp_all add: x_def q_def y_def r_def z_def w_def)
  have d: "cp div 64 = q" "cp div 4096 = r" "cp div 262144 = w" "cp mod 64 = x" "q mod 64 = y" "r mod 64 = z"
    by (simp_all add: x_def q_def y_def r_def z_def w_def div_mult2_eq [symmetric])
  consider "cp < 0x80" | "0x80 \<le> cp" "cp < 0x800" | "0x800 \<le> cp" "cp < 0x10000" | "0x10000 \<le> cp"
    by linarith
  then show ?thesis
  proof cases
    case 1
    then show ?thesis by (simp add: utf8_encode_def utf8_next_0)
  next
    case 2
    then have "2 \<le> q" "q < 32" using cp lt by linarith+
    then show ?thesis using 2 d lt by (simp add: utf8_encode_def utf8_next_0 utf8_next_rest)
  next
    case 3
    then have "r < 16" "r = 0 \<Longrightarrow> 32 \<le> y" using cp lt by linarith+
    moreover have "r = 13 \<Longrightarrow> y < 32" using assms 3 cp lt unfolding scalar_value_def by linarith
    ultimately show ?thesis using 3 d lt
      by (cases "r = 0"; cases "r = 13") (auto simp: utf8_encode_def utf8_next_0 utf8_next_rest)
  next
    case 4
    then have "w < 5" "w = 0 \<Longrightarrow> 16 \<le> z" using cp lt assms unfolding scalar_value_def by linarith+
    moreover have "w = 4 \<Longrightarrow> z < 16" using assms 4 cp lt unfolding scalar_value_def by linarith
    ultimately show ?thesis using 4 d lt
      by (cases "w = 0"; cases "w = 4") (auto simp: utf8_encode_def utf8_next_0 utf8_next_rest)
  qed
qed

lemma utf8_run_2: "utf8_run 2 bs \<longleftrightarrow> (\<exists>c r. bs = (0x80 + c) # r \<and> c < 64 \<and> utf8_run 0 r)"
proof (cases bs)
  case (Cons b r)
  then show ?thesis
    by (auto simp: utf8_next_rest intro!: exI [of _ "b - 0x80"])
qed simp

lemma utf8_run_tail:
  "utf8_run 3 bs \<longleftrightarrow> (\<exists>c r. bs = (0x80 + c) # r \<and> c < 64 \<and> utf8_run 2 r)"
  "utf8_run 4 bs \<longleftrightarrow> (\<exists>c r. bs = (0x80 + c) # r \<and> 32 \<le> c \<and> c < 64 \<and> utf8_run 2 r)"
  "utf8_run 5 bs \<longleftrightarrow> (\<exists>c r. bs = (0x80 + c) # r \<and> c < 32 \<and> utf8_run 2 r)"
  "utf8_run 6 bs \<longleftrightarrow> (\<exists>c r. bs = (0x80 + c) # r \<and> 16 \<le> c \<and> c < 64 \<and> utf8_run 3 r)"
  "utf8_run 7 bs \<longleftrightarrow> (\<exists>c r. bs = (0x80 + c) # r \<and> c < 64 \<and> utf8_run 3 r)"
  "utf8_run 8 bs \<longleftrightarrow> (\<exists>c r. bs = (0x80 + c) # r \<and> c < 16 \<and> utf8_run 3 r)"
  by (cases bs; auto simp: utf8_next_rest intro!: exI [of _ "hd bs - 0x80"])+

text \<open>The first code point of an accepted sequence.\<close>

lemma utf8_run_step:
  assumes "utf8_run 0 (b # bs)"
  shows "\<exists>cp bs'. scalar_value cp \<and> b # bs = utf8_encode cp @ bs' \<and> utf8_run 0 bs'"
proof -
  have l2: ?thesis if "b = 0xC0 + h" "2 \<le> h" "h < 32" "utf8_run 2 bs" for h
  proof -
    from that(4) obtain c r where r: "bs = (0x80 + c) # r" "c < 64" "utf8_run 0 r"
      by (auto simp: utf8_run_2)
    then show ?thesis using that
      by (intro exI [of _ "64 * h + c"] exI [of _ r]) (auto simp: scalar_value_def utf8_encode_def)
  qed
  have l3: ?thesis if "b = 0xE0 + h" "h < 16" "bs = (0x80 + c) # r" "c < 64" "utf8_run 2 r"
      "h = 0 \<longrightarrow> 32 \<le> c" "h = 13 \<longrightarrow> c < 32" for h c r
  proof -
    from that(5) obtain d s where s: "r = (0x80 + d) # s" "d < 64" "utf8_run 0 s"
      by (auto simp: utf8_run_2)
    define q where "q = 64 * h + c"
    define cp where "cp = 64 * q + d"
    have m: "cp div 64 = q" "cp mod 64 = d" using s(2) by (simp_all add: cp_def)
    moreover have "q div 64 = h" "q mod 64 = c" using that(4) by (simp_all add: q_def)
    moreover have "cp div 4096 = cp div 64 div 64" by (simp add: div_mult2_eq [symmetric])
    ultimately have n: "q mod 64 = c" "cp div 4096 = h" by simp_all
    have "q < 0x400" "0x20 \<le> q" using that unfolding q_def by linarith+
    moreover have "q < 0x360 \<or> 0x380 \<le> q"
      using that(4,7) by (cases "h = 13"; cases "h < 13") (auto simp: q_def)
    ultimately have "scalar_value cp" "0x800 \<le> cp" "cp < 0x10000"
      using s unfolding scalar_value_def cp_def by linarith+
    then show ?thesis using that s m n
      by (intro exI [of _ cp] exI [of _ s]) (auto simp: utf8_encode_def)
  qed
  have l4: ?thesis if "b = 0xF0 + h" "h < 5" "bs = (0x80 + c) # r" "c < 64" "utf8_run 3 r"
      "h = 0 \<longrightarrow> 16 \<le> c" "h = 4 \<longrightarrow> c < 16" for h c r
  proof -
    from that(5) obtain d e s where s: "r = (0x80 + d) # (0x80 + e) # s" "d < 64" "e < 64" "utf8_run 0 s"
      by (auto simp: utf8_run_2 utf8_run_tail)
    define p where "p = 64 * h + c"
    define q where "q = 64 * p + d"
    define cp where "cp = 64 * q + e"
    have cm: "cp div 64 = q" "cp mod 64 = e" using s(3) by (simp_all add: cp_def)
    have qm: "q div 64 = p" "q mod 64 = d" using s(2) by (simp_all add: q_def)
    have "p div 64 = h" "p mod 64 = c" using that(4) by (simp_all add: p_def)
    note m = cm qm this
    moreover have "cp div 4096 = cp div 64 div 64" "cp div 262144 = cp div 64 div 64 div 64"
      by (simp_all add: div_mult2_eq [symmetric])
    ultimately have n: "cp div 4096 = p" "cp div 262144 = h" by simp_all
    have p: "0x10 \<le> p" "p < 0x110" using that unfolding p_def by linarith+
    then have q: "0x400 \<le> q" "q < 0x4400" using s(2) unfolding q_def by linarith+
    then have big: "0x10000 \<le> cp" "cp < 0x110000"
      using s(3) unfolding cp_def by linarith+
    then have "scalar_value cp" by (simp add: scalar_value_def)
    note this big
    then show ?thesis using that s m n
      by (intro exI [of _ cp] exI [of _ s]) (auto simp: utf8_encode_def)
  qed
  have run: "utf8_next 0 b \<noteq> 1" "utf8_run (utf8_next 0 b) bs" using assms by simp_all
  consider "b < 0x80" | "0xC2 \<le> b" "b < 0xE0" | "b = 0xE0" | "0xE0 < b" "b < 0xF0" "b \<noteq> 0xED" | "b = 0xED"
    | "b = 0xF0" | "0xF0 < b" "b < 0xF4" | "b = 0xF4" | "0x80 \<le> b" "b < 0xC2" | "0xF5 \<le> b"
    by linarith
  then show ?thesis
  proof cases
    case 1
    with run show ?thesis
      by (intro exI [of _ b] exI [of _ bs]) (simp add: utf8_next_0 scalar_value_def utf8_encode_def)
  next
    case 2
    with run show ?thesis by (intro l2 [of "b - 0xC0"]) (auto simp: utf8_next_0)
  next
    case 3
    with run show ?thesis using l3 [of 0] by (auto simp: utf8_next_0 utf8_run_tail)
  next
    case 4
    with run have "utf8_run 3 bs" by (auto simp: utf8_next_0 split: if_splits)
    then obtain c r where "bs = (0x80 + c) # r" "c < 64" "utf8_run 2 r" by (auto simp: utf8_run_tail)
    moreover obtain h where "b = 0xE0 + h" using 4(1) less_imp_add_positive by blast
    ultimately show ?thesis using 4 l3 [of h c r] by simp
  next
    case 5
    with run show ?thesis using l3 [of 13] by (auto simp: utf8_next_0 utf8_run_tail)
  next
    case 6
    with run show ?thesis using l4 [of 0] by (auto simp: utf8_next_0 utf8_run_tail(4))
  next
    case 7
    with run have "utf8_run 7 bs" by (auto simp: utf8_next_0 split: if_splits)
    then obtain c r where "bs = (0x80 + c) # r" "c < 64" "utf8_run 3 r" by (auto simp: utf8_run_tail(5))
    moreover obtain h where "b = 0xF0 + h" using 7(1) less_imp_add_positive by blast
    ultimately show ?thesis using 7 l4 [of h c r] by simp
  next
    case 8
    with run show ?thesis using l4 [of 4] by (auto simp: utf8_next_0 utf8_run_tail(6))
  qed (use run in \<open>auto simp: utf8_next_0\<close>)
qed

lemma utf8_run_iff:
  "utf8_run 0 bs \<longleftrightarrow> (\<exists>cps. list_all scalar_value cps \<and> bs = concat (map utf8_encode cps))"
proof
  show "\<exists>cps. list_all scalar_value cps \<and> bs = concat (map utf8_encode cps)" if "utf8_run 0 bs"
    using that
  proof (induction bs rule: length_induct)
    case (1 bs)
    show ?case
    proof (cases bs)
      case Nil
      then show ?thesis by (intro exI [of _ "[]"]) simp
    next
      case (Cons b bs')
      with 1(2) obtain cp rest where s: "scalar_value cp" "bs = utf8_encode cp @ rest" "utf8_run 0 rest"
        using utf8_run_step by blast
      then have "length rest < length bs" by (simp add: utf8_encode_def)
      with 1(1) s(3) obtain cps where "list_all scalar_value cps" "rest = concat (map utf8_encode cps)"
        by blast
      with s show ?thesis by (intro exI [of _ "cp # cps"]) simp
    qed
  qed
  assume "\<exists>cps. list_all scalar_value cps \<and> bs = concat (map utf8_encode cps)"
  then obtain cps where "list_all scalar_value cps" "bs = concat (map utf8_encode cps)" by blast
  then show "utf8_run 0 bs"
    by (induction cps arbitrary: bs) (simp_all add: utf8_run_encode)
qed

lemma well_formed_utf8_run: "well_formed_utf8 s \<longleftrightarrow> utf8_run 0 (map byte_of s)"
  by (simp add: well_formed_utf8_def utf8_run_iff)

section \<open>When dumping succeeds\<close>

definition esc_char :: "char \<Rightarrow> string" where
  "esc_char c = escape_cp c (byte_of c)"

text \<open>The code point collected so far is large enough for the encoding not to be overlong.\<close>

definition codep_ok :: "nat \<Rightarrow> nat \<Rightarrow> bool" where
  "codep_ok st cp \<longleftrightarrow> (st = 2 \<longrightarrow> 2 \<le> cp) \<and> (st \<in> {3, 5, 7, 8} \<longrightarrow> 1 \<le> cp) \<and> st \<in> {0, 2, 3, 4, 5, 6, 7, 8}"

lemma mod_above:
  fixes b k n :: nat
  assumes "k \<le> b" and "b < k + n" and "k mod n = 0"
  shows "b mod n = b - k"
proof -
  obtain h where h: "b = k + h" using assms(1) le_Suc_ex by blast
  have "(k + h) mod n = (k mod n + h) mod n" by (simp add: mod_add_left_eq)
  then show ?thesis using h assms by simp
qed

lemma codep_start:
  assumes "b < 256" and "utf8_next 0 b \<noteq> 1"
  shows "codep_ok (utf8_next 0 b) (utf8_codep 0 cp b)"
proof -
  consider "b < 0x80" | "0xC2 \<le> b" "b < 0xE0" | "b = 0xE0" | "0xE0 < b" "b < 0xED" | "b = 0xED"
    | "0xED < b" "b < 0xF0" | "b = 0xF0" | "0xF0 < b" "b < 0xF4" | "b = 0xF4"
    | "0x80 \<le> b" "b < 0xC2" | "0xF5 \<le> b"
    by linarith
  then show ?thesis
  proof cases
    case 2
    then have "b mod 64 = b - 0xC0" by (intro mod_above) simp_all
    with 2 show ?thesis by (simp add: utf8_next_0 codep_ok_def utf8_codep_def utf8_class_def)
  next
    case 4
    then have "b mod 32 = b - 0xE0" by (intro mod_above) simp_all
    with 4 show ?thesis by (simp add: utf8_next_0 codep_ok_def utf8_codep_def utf8_class_def)
  next
    case 6
    then have "b mod 32 = b - 0xE0" by (intro mod_above) simp_all
    with 6 show ?thesis by (simp add: utf8_next_0 codep_ok_def utf8_codep_def utf8_class_def)
  next
    case 8
    then have "b mod 4 = b - 0xF0" by (intro mod_above) simp_all
    with 8 show ?thesis by (simp add: utf8_next_0 codep_ok_def utf8_codep_def utf8_class_def)
  qed (use assms(2) in \<open>auto simp: utf8_next_0 codep_ok_def utf8_codep_def utf8_class_def\<close>)
qed

lemma codep_step:
  assumes "b < 256" and "codep_ok st cp" and "utf8_next st b \<noteq> 1"
  shows "codep_ok (utf8_next st b) (utf8_codep st cp b)"
proof (cases "st = 0")
  case True
  then show ?thesis using assms codep_start by blast
next
  case False
  have m: "b mod 64 = b - 0x80" if "0x80 \<le> b" "b < 0xC0" using that by (intro mod_above) simp_all
  from False assms(2) consider "st = 2" | "st = 3" | "st = 4" | "st = 5" | "st = 6" | "st = 7" | "st = 8"
    by (auto simp: codep_ok_def)
  then show ?thesis
    using assms(2,3) m
    by cases (auto simp: codep_ok_def utf8_next_rest utf8_codep_def split: if_splits)
qed

lemma codep_accept:
  assumes "codep_ok st cp" and "utf8_next st (byte_of c) = 0"
  shows "escape_cp c (utf8_codep st cp (byte_of c)) = esc_char c"
proof (cases "st = 0")
  case True
  then have "byte_of c < 0x80" using assms(2) by (auto simp: utf8_next_0 split: if_splits)
  then have "utf8_codep st cp (byte_of c) = byte_of c"
    using True by (simp add: utf8_codep_def utf8_class_def)
  then show ?thesis by (simp add: esc_char_def)
next
  case False
  then have st: "st = 2" and b: "0x80 \<le> byte_of c" "byte_of c < 0xC0" and cp: "2 \<le> cp"
    using assms by (auto simp: codep_ok_def utf8_next_rest split: if_splits)
  then have "0x80 \<le> utf8_codep st cp (byte_of c)" by (simp add: utf8_codep_def)
  then show ?thesis using b by (simp add: escape_cp_def esc_char_def)
qed

lemma esc_char_high: "0x80 \<le> byte_of c \<Longrightarrow> esc_char c = [c]"
  by (simp add: esc_char_def escape_cp_def)

lemma multibyte_high: "codep_ok st cp \<Longrightarrow> utf8_next st b \<noteq> 0 \<Longrightarrow> utf8_next st b \<noteq> 1 \<Longrightarrow> 0x80 \<le> b"
  by (auto simp: codep_ok_def utf8_next_0 utf8_next_rest split: if_splits)

definition utf8_error :: "exn \<Rightarrow> bool" where
  "utf8_error e \<longleftrightarrow> (\<exists>w. e = type_error 316 w)"

lemma dump_escaped_from_spec:
  "codep_ok st cp \<Longrightarrow>
     (if utf8_run st (map byte_of s) then dump_escaped_from st cp i l s = Inr (concat (map esc_char s))
      else \<exists>e. dump_escaped_from st cp i l s = Inl e \<and> utf8_error e)"
proof (induction st cp i l s rule: dump_escaped_from.induct)
  case (1 st codep i l)
  then show ?case by (auto simp: utf8_error_def dump_escaped_end_def)
next
  case (2 st codep i l c s)
  let ?b = "byte_of c" let ?st = "utf8_next st ?b" let ?cp = "utf8_codep st codep ?b"
  show ?case
  proof (cases "?st = 1")
    case True
    then show ?thesis by (auto simp: utf8_error_def Let_def)
  next
    case False
    have ok: "codep_ok ?st ?cp" using codep_step [OF byte_of_less 2(3) False] .
    show ?thesis
    proof (cases "?st = 0")
      case True
      have "escape_cp c ?cp = esc_char c" using codep_accept [OF 2(3) True] .
      then show ?thesis using 2(1) [OF refl refl refl True] ok True
        by (auto simp: Let_def bindE_eq_Inl split: if_splits)
    next
      case ne: False
      have "esc_char c = [c]" using esc_char_high multibyte_high [OF 2(3) ne False] by blast
      then show ?thesis using 2(2) [OF refl refl refl ne False] ok False ne
        by (auto simp: Let_def bindE_eq_Inl split: if_splits)
    qed
  qed
qed

lemma dump_escaped_spec:
  "dump_escaped s = Inr out \<longleftrightarrow> well_formed_utf8 s \<and> out = concat (map esc_char s)"
  using dump_escaped_from_spec [of 0 0 s 0 0]
  by (auto simp: dump_escaped_def well_formed_utf8_run codep_ok_def split: if_splits)

lemma dump_escaped_fails [fails_intros]: "fails_with utf8_error (dump_escaped s)"
  using dump_escaped_from_spec [of 0 0 s 0 0]
  by (auto simp: dump_escaped_def fails_with_def codep_ok_def split: if_splits)

text \<open>All strings and keys of a value are well-formed.\<close>

fun json_utf8 :: "json \<Rightarrow> bool" where
  "json_utf8 (JObject es) \<longleftrightarrow> (\<forall>e \<in> set es. well_formed_utf8 (fst e) \<and> json_utf8 (snd e))"
| "json_utf8 (JArray xs) \<longleftrightarrow> (\<forall>x \<in> set xs. json_utf8 x)"
| "json_utf8 (JString s) \<longleftrightarrow> well_formed_utf8 s"
| "json_utf8 _ \<longleftrightarrow> True"

lemma dump_string_spec:
  "dump_string s = Inr out \<longleftrightarrow>
     well_formed_utf8 s \<and> out = [CHR 0x22] @ concat (map esc_char s) @ [CHR 0x22]"
  by (auto simp: dump_string_def bindE_eq_Inr dump_escaped_spec)

lemma dump_string_fails [fails_intros]: "fails_with utf8_error (dump_string s)"
  unfolding dump_string_def by (intro fails_intros)

lemma mapE_succeeds: "(\<exists>ys. mapE f xs = Inr ys) \<longleftrightarrow> (\<forall>x \<in> set xs. \<exists>y. f x = Inr y)"
  by (induction xs) (auto simp: bindE_eq_Inr)

lemma dump_succeeds: "(\<exists>s. dump ft j = Inr s) \<longleftrightarrow> json_utf8 j"
proof (induction ft j rule: dump.induct)
  case (1 ft es)
  then have "(\<exists>s. dump ft (snd x) = Inr s) = json_utf8 (snd x)" if "x \<in> set es" "well_formed_utf8 (fst x)" for x
    using that dump_string_spec by blast
  then show ?case
    by (simp add: bindE_eq_Inr mapE_succeeds dump_string_spec) blast
next
  case (2 ft xs)
  then show ?case by (auto simp: bindE_eq_Inr mapE_succeeds)
qed (auto simp: bindE_eq_Inr dump_string_spec)

lemma dump_fails [fails_intros]: "fails_with utf8_error (dump ft j)"
  by (induction ft j rule: dump.induct) (auto intro!: fails_intros)

text \<open>
  Property C30. \<open>dump()\<close> with the default, strict error handler returns exactly when every string
  and every key of the value is well-formed UTF-8 in the sense of RFC 3629; otherwise it throws
  the library's \<open>type_error\<close> 316 and nothing else.
\<close>

theorem dump_iff_utf8:
  "if json_utf8 j then \<exists>s. dump ft j = Inr s
   else \<exists>w. dump ft j = Inl (type_error 316 w)"
  using dump_succeeds [of ft j] dump_fails [of ft j]
  by (cases "dump ft j") (auto simp: fails_with_def utf8_error_def)

section \<open>Integers against the plain conversion\<close>

lemma hundred:
  fixes x :: int
  shows "x mod 100 div 10 = x div 10 mod 10" and "x mod 100 mod 10 = x mod 10"
    and "x div 10 div 10 = x div 100"
proof -
  have m: "x mod 100 = 10 * (x div 10 mod 10) + x mod 10"
    using zmod_zmult2_eq [of 10 x 10] by simp
  show "x mod 100 div 10 = x div 10 mod 10" "x mod 100 mod 10 = x mod 10"
    unfolding m by simp_all
  show "x div 10 div 10 = x div 100" using zdiv_zmult2_eq [of 10 x 10] by simp
qed

lemma digits_back_eq: "0 \<le> x \<Longrightarrow> digits_back x out = dec_str x @ out"
proof (induction x out rule: digits_back.induct)
  case (1 x out)
  consider "x < 10" | "10 \<le> x" "x < 100" | "100 \<le> x" by linarith
  then show ?case
  proof cases
    case 3
    have "dec_str x = dec_str (x div 100) @ digits_to_99 (x mod 100)"
      using 3 by (simp add: dec_str.simps [of x] dec_str.simps [of "x div 10"] digits_to_99_def hundred)
    with 3 1 show ?thesis by (subst digits_back.simps) simp
  qed (use 1(2) in \<open>simp_all add: digits_back.simps [of x] dec_str.simps [of x] dec_str.simps [of "x div 10"] digits_to_99_def\<close>)
qed

lemma count_digits_from_eq: "0 \<le> x \<Longrightarrow> count_digits_from n x = n + int (length (dec_str x)) - 1"
proof (induction n x rule: count_digits_from.induct)
  case (1 n x)
  have len: "int (length (dec_str y)) = 1 + (if y < 10 then 0 else int (length (dec_str (y div 10))))"
    for y by (subst dec_str.simps) simp
  have d: "x div 10 div 10 div 10 div 10 = x div 10000"
    by (simp add: zdiv_zmult2_eq [symmetric])
  have b: "y div 10 < k \<longleftrightarrow> y < 10 * k" for y k :: int by linarith
  show ?case
  proof (cases "x < 10000")
    case True
    then show ?thesis using 1(2)
      by (subst count_digits_from.simps)
        (simp add: len [of x] len [of "x div 10"] len [of "x div 10 div 10"] len [of "x div 10 div 10 div 10"] b)
  next
    case False
    then have "int (length (dec_str x)) = 4 + int (length (dec_str (x div 10000)))"
      by (simp add: len [of x] len [of "x div 10"] len [of "x div 10 div 10"] len [of "x div 10 div 10 div 10"] b d)
    moreover have "count_digits_from n x = count_digits_from (n + 4) (x div 10000)"
      using False by (subst count_digits_from.simps) simp
    ultimately show ?thesis using 1(1) 1(2) False by simp
  qed
qed

lemma dump_integer_eq: "dump_integer x = int_str x"
proof -
  have z: "dec_str 0 = ''0''" by (subst dec_str.simps) simp
  have n: "nat (1 + int (length s)) = Suc (length s)" for s :: string by simp
  show ?thesis
    using digits_back_eq [of x "[]"] digits_back_eq [of "- x" "[]"] count_digits_from_eq [of x 1]
      count_digits_from_eq [of "- x" 1] z
    by (auto simp: dump_integer_def int_str_def count_digits_def Let_def n)
qed

text \<open>
  Property C40. The fast integer printer of the serializer agrees with the plain conversion:
  \<open>count_digits\<close> announces exactly the number of digits the backward loop writes, so the buffer
  holds the sign and the decimal digits of the number, nothing more.
\<close>

theorem dump_integer_decimal:
  "dump_integer x = int_str x \<and> count_digits \<bar>x\<bar> = int (length (dec_str \<bar>x\<bar>))"
  using dump_integer_eq count_digits_from_eq [of "\<bar>x\<bar>" 1] by (simp add: count_digits_def)

end
