(* ===== verification/RuleEngine.thy ===== *)
theory RuleEngine
  imports Schema_Walk Json_Dump
begin

text \<open>
  backend/src/RuleEngine.cpp and RuleEngine.hpp: loading a rule file, resolving facts, the
  violation predicates of the checks and their nested groups, thresholds, message templates and
  the verdict of a rule. Everything is a function of the rule set, the validated matrix and the
  document; \<open>ft\<close> prints a double inside \<open>dump()\<close> (only reached for a template token bound to an
  array or object).
\<close>

section \<open>Data\<close>

record RuleSpec =
  rule_id :: string
  category :: string
  severity :: string
  status_field :: string
  summary :: string
  resolve_gap_by :: string
  action_required :: string
  message_template :: string
  rule_condition :: json

record RuleResult =
  res_id :: string
  res_category :: string
  res_severity :: string
  res_status_field :: string
  res_summary :: string
  violated :: bool
  skipped :: bool
  message :: string
  res_resolve_gap_by :: string
  res_action_required :: string
  fired_checks :: "string list"

record RuleEngine =
  engine_rules :: "RuleSpec list"
  thresholds :: json

record CheckOutcome =
  fired :: bool
  label :: string

record FactTable =
  full_facts :: "(string \<times> json) list"
  bare_facts :: "(string \<times> json) list"

section \<open>Scalars\<close>

definition scalarLess :: "json \<Rightarrow> json \<Rightarrow> string \<Rightarrow> bool result" where
  "scalarLess a b op =
     (if \<not> is_number a \<or> \<not> is_number b then Inr False
      else bindE (get_double a) (\<lambda>x. bindE (get_double b) (\<lambda>y.
        Inr (if op = ''>'' then dlt y x
             else if op = ''>='' then dle y x
             else if op = ''<'' then dlt x y
             else if op = ''<='' then dle x y
             else False))))"

definition valuesEqualAsScalar :: "json \<Rightarrow> json \<Rightarrow> bool result" where
  "valuesEqualAsScalar a b =
     (if is_number a \<and> is_number b then
        bindE (get_double a) (\<lambda>x. bindE (get_double b) (\<lambda>y. Inr (deq x y)))
      else if is_string a \<and> is_string b then
        bindE (get_string a) (\<lambda>x. bindE (get_string b) (\<lambda>y. Inr (x = y)))
      else Inr (json_eq a b))"

text \<open>\<open>splitSegment\<close>: the key and the optional array index of a path segment.\<close>

definition splitSegment :: "string \<Rightarrow> string \<times> int option" where
  "splitSegment seg =
     (case find_char CHR ''['' seg of
        None \<Rightarrow> (seg, None)
      | Some br \<Rightarrow>
          let inside = (if length seg < br + 2 then drop (br + 1) seg
                        else substr seg (br + 1) (length seg - br - 2)) in
          (take br seg, Some (strtoul inside)))"

section \<open>Construction\<close>

definition template_aliases :: "(string \<times> string) list" where
  "template_aliases =
     [(''aato_crore'', ''supplier.aato_crore''),
      (''cgst'', ''invoice.tax_breakdown.cgst''),
      (''hsn'', ''invoice.hsn_string''),
      (''igst'', ''invoice.tax_breakdown.igst''),
      (''irn'', ''invoice.irn''),
      (''sgst'', ''invoice.tax_breakdown.sgst''),
      (''total_tax'', ''invoice.tax_breakdown.total_tax'')]"

definition rule_error :: "string \<Rightarrow> string \<Rightarrow> exn" where
  "rule_error rid w = Invalid_argument (''RuleEngine: rule '' @ rid @ w)"

definition loadCondition :: "string \<Rightarrow> json \<Rightarrow> unit result" where
  "loadCondition rid cond =
     bindE (case jfind cond ''operator'' of
         None \<Rightarrow> Inr ()
       | Some v \<Rightarrow> bindE (get_string v) (\<lambda>op.
           requireE (op = ''AND'' \<or> op = ''OR'')
             (rule_error rid '' condition.operator must be AND or OR''))) (\<lambda>_.
     bindE (case jfind cond ''checks'' of
         None \<Rightarrow> Inr ()
       | Some v \<Rightarrow> requireE (is_array v) (rule_error rid '' condition.checks must be an array'')) (\<lambda>_.
     case jfind cond ''when'' of
         None \<Rightarrow> Inr ()
       | Some v \<Rightarrow> requireE (is_object v) (rule_error rid '' condition.when must be an object'')))"

definition loadRule :: "json \<Rightarrow> RuleSpec result" where
  "loadRule r =
     bindE (requireE (is_object r) (Invalid_argument ''RuleEngine: each rule must be an object'')) (\<lambda>_.
     bindE (value_str r ''id'' []) (\<lambda>rid.
     bindE (value_str r ''category'' []) (\<lambda>cat.
     bindE (value_str r ''severity'' []) (\<lambda>sev.
     bindE (value_str r ''status_field'' []) (\<lambda>stf.
     bindE (value_str r ''summary'' []) (\<lambda>sm.
     bindE (value_str r ''resolve_gap_by'' []) (\<lambda>gap.
     bindE (value_str r ''action_required'' []) (\<lambda>act.
     bindE (value_str r ''message_template'' []) (\<lambda>tpl.
     bindE (requireE (rid \<noteq> [])
              (Invalid_argument (''RuleEngine: rule missing required '' @ [CHR 0x27] @ ''id'' @ [CHR 0x27]))) (\<lambda>_.
     let missing = rule_error rid ('' missing required '' @ [CHR 0x27] @ ''condition'' @ [CHR 0x27] @ '' object'') in
     case jfind r ''condition'' of
       None \<Rightarrow> Inl missing
     | Some cond \<Rightarrow>
         bindE (requireE (is_object cond) missing) (\<lambda>_.
         bindE (loadCondition rid cond) (\<lambda>_.
         Inr \<lparr>rule_id = rid, category = cat, severity = sev, status_field = stf, summary = sm,
              resolve_gap_by = gap, action_required = act, message_template = tpl,
              rule_condition = cond\<rparr>))))))))))))"

definition loadEngine :: "json \<Rightarrow> RuleEngine result" where
  "loadEngine cfg =
     (let bad = Invalid_argument (''RuleEngine: config must be {...,'' @ [CHR 0x22] @ ''rules'' @ [CHR 0x22] @
                  '':[...]} or a bare rules array'') in
      case (if is_array cfg then Some cfg else jfind cfg ''rules'') of
        None \<Rightarrow> Inl bad
      | Some rs \<Rightarrow>
          bindE (requireE (is_array rs) bad) (\<lambda>_.
          bindE (mapE loadRule (elems rs)) (\<lambda>specs.
          Inr \<lparr>engine_rules = specs,
               thresholds = (case jfind cfg ''thresholds'' of None \<Rightarrow> JNull | Some t \<Rightarrow> t)\<rparr>)))"

section \<open>Facts\<close>

text \<open>One turn of the loop of \<open>resolvePath\<close>: from the current node along a segment.\<close>

definition resolve_segment :: "json \<Rightarrow> string \<Rightarrow> json option" where
  "resolve_segment cur seg =
     (case splitSegment seg of
        (key, Some i) \<Rightarrow>
          (case cur of
             JArray xs \<Rightarrow> (if i < int (length xs) then Some (xs ! nat i) else None)
           | _ \<Rightarrow> None)
      | (key, None) \<Rightarrow> jfind cur key)"

fun resolve_segments :: "json \<Rightarrow> string list \<Rightarrow> json option" where
  "resolve_segments cur [] = Some cur"
| "resolve_segments cur (seg # segs) =
     (case resolve_segment cur seg of None \<Rightarrow> None | Some v \<Rightarrow> resolve_segments v segs)"

definition resolvePath :: "json \<Rightarrow> string \<Rightarrow> json option" where
  "resolvePath doc path = resolve_segments doc (split_at CHR ''.'' path)"

definition resolveFact :: "StateMatrix \<Rightarrow> json \<Rightarrow> string \<Rightarrow> json option" where
  "resolveFact m doc path =
     (if path = ''invoice.tax_breakdown.has_igst'' then Some (JBool (has_igst (tax m)))
      else if path = ''invoice.tax_breakdown.has_cgst_sgst'' then Some (JBool (has_cgst_sgst (tax m)))
      else resolvePath doc path)"

definition resolveThreshold :: "json \<Rightarrow> string \<Rightarrow> json option" where
  "resolveThreshold ths source =
     (if \<not> starts_with ''thresholds.'' source then None
      else let rest = drop 11 source in
        if CHR ''/'' \<in> set rest \<or> CHR '' '' \<in> set rest \<or> rest = [] then None
        else resolvePath ths rest)"

section \<open>Checks\<close>

definition canonical_op :: "string \<Rightarrow> string" where
  "canonical_op op =
     (if op = ''gt'' then ''>'' else if op = ''gte'' then ''>=''
      else if op = ''lt'' then ''<'' else if op = ''lte'' then ''<='' else op)"

text \<open>The literal a check compares with: its \<open>value\<close>, overridden by a resolvable \<open>source\<close>.\<close>

definition check_literal :: "json \<Rightarrow> json \<Rightarrow> json" where
  "check_literal ths check =
     (let lit = (case jfind check ''value'' of None \<Rightarrow> JNull | Some v \<Rightarrow> v) in
      case jfind check ''source'' of
        Some (JString s) \<Rightarrow> (case resolveThreshold ths s of None \<Rightarrow> lit | Some t \<Rightarrow> t)
      | _ \<Rightarrow> lit)"

definition token_allowed :: "json list \<Rightarrow> int \<Rightarrow> bool result" where
  "token_allowed vs len =
     bindE (mapE (\<lambda>v. if is_number v then bindE (get_double v) (\<lambda>d. Inr (d_to_size d = Some len))
                      else Inr False) vs) (\<lambda>bs. Inr (True \<in> set bs))"

text \<open>The verdict of one operator, given the fact it looks at (\<open>None\<close> when absent).\<close>

definition op_verdict ::
    "StateMatrix \<Rightarrow> json \<Rightarrow> json \<Rightarrow> string \<Rightarrow> json option \<Rightarrow> json \<Rightarrow> bool result" where
  "op_verdict m doc check op fct lit =
     (if op = ''present'' then Inr (fct \<noteq> None)
      else if op = ''absent'' then Inr (fct = None)
      else if op = ''eq_true'' \<or> op = ''eq_false'' then
        (case fct of
           Some (JBool b) \<Rightarrow> Inr (if op = ''eq_true'' then b else \<not> b)
         | _ \<Rightarrow> Inr False)
      else if op = ''token_length_out'' then
        (case (fct, jfind check ''values'') of
           (Some (JString s), Some (JArray vs)) \<Rightarrow>
             bindE (token_allowed vs (int (length s))) (\<lambda>allowed. Inr (\<not> allowed))
         | _ \<Rightarrow> Inr False)
      else if op = ''ne_cross'' then
        (case jfind check ''value_from'' of
           Some (JString p) \<Rightarrow>
             (case (fct, resolveFact m doc p) of
                (Some f, Some other) \<Rightarrow> bindE (valuesEqualAsScalar f other) (\<lambda>eq. Inr (\<not> eq))
              | _ \<Rightarrow> Inr False)
         | _ \<Rightarrow> Inr False)
      else if op = ''eq'' \<or> op = ''neq'' then
        (case fct of
           None \<Rightarrow> Inr False
         | Some f \<Rightarrow> bindE (valuesEqualAsScalar f lit) (\<lambda>eq. Inr (if op = ''eq'' then eq else \<not> eq)))
      else if op = ''>'' \<or> op = ''>='' \<or> op = ''<'' \<or> op = ''<='' then
        (case fct of
           None \<Rightarrow> Inr False
         | Some f \<Rightarrow> if is_number lit then scalarLess f lit op else Inr False)
      else Inr False)"

definition known_op :: "string \<Rightarrow> bool" where
  "known_op op \<longleftrightarrow> op \<in> {''present'', ''absent'', ''eq_true'', ''eq_false'', ''token_length_out'',
     ''ne_cross'', ''eq'', ''neq'', ''>'', ''>='', ''<'', ''<=''}"

definition malformed :: CheckOutcome where
  "malformed = \<lparr>fired = False, label = ''?''\<rparr>"

definition evalField :: "json \<Rightarrow> json \<Rightarrow> StateMatrix \<Rightarrow> json \<Rightarrow> string \<Rightarrow> CheckOutcome result" where
  "evalField ths check m doc field =
     bindE (value_str check ''op'' []) (\<lambda>op0.
     let op = canonical_op op0; lab = field @ '' '' @ op in
     bindE (op_verdict m doc check op (resolveFact m doc field) (check_literal ths check)) (\<lambda>b.
     Inr \<lparr>fired = b, label = (if known_op op then lab else lab @ '' (unknown op)'')\<rparr>))"

definition group_fires :: "string \<Rightarrow> bool list \<Rightarrow> bool" where
  "group_fires gop bs = (bs \<noteq> [] \<and> (if gop = ''OR'' then True \<in> set bs else False \<notin> set bs))"

definition is_group :: "json \<Rightarrow> bool" where
  "is_group check \<longleftrightarrow> \<not> jcontains check ''field'' \<and> jcontains check ''operator'' \<and>
     (case jfind check ''checks'' of Some (JArray _) \<Rightarrow> True | _ \<Rightarrow> False)"

definition group_checks :: "json \<Rightarrow> json list" where
  "group_checks check = (case jfind check ''checks'' of Some v \<Rightarrow> elems v | None \<Rightarrow> [])"

lemma group_checks_size [termination_simp]: "c \<in> set (group_checks check) \<Longrightarrow> size c < size check"
  by (cases "jfind check ''checks''")
    (auto simp: group_checks_def intro: less_trans [OF elems_size jfind_size])

fun evalCheck :: "json \<Rightarrow> StateMatrix \<Rightarrow> json \<Rightarrow> json \<Rightarrow> CheckOutcome result" where
  "evalCheck ths m doc check =
     (if \<not> is_object check then Inr malformed
      else if is_group check then
        bindE (bindE (jat check ''operator'') get_string) (\<lambda>gop.
        bindE (mapE (evalCheck ths m doc) (group_checks check)) (\<lambda>os.
        Inr \<lparr>fired = group_fires gop (map fired os),
             label = ''( '' @ join_with ('' '' @ gop @ '' '') (map label os) @ '' )''\<rparr>))
      else case jfind check ''field'' of
        Some (JString field) \<Rightarrow> evalField ths check m doc field
      | _ \<Rightarrow> Inr malformed)"

declare evalCheck.simps [simp del]

section \<open>Message templates\<close>

definition add_leaf :: "string \<Rightarrow> string \<Rightarrow> json \<Rightarrow> FactTable \<Rightarrow> FactTable" where
  "add_leaf path key v t =
     t\<lparr>full_facts := omap_put path v (full_facts t), bare_facts := omap_put key v (bare_facts t)\<rparr>"

definition is_container :: "json \<Rightarrow> bool" where
  "is_container j \<longleftrightarrow> is_object j \<or> is_array j"

function collectFacts :: "json \<Rightarrow> string \<Rightarrow> FactTable \<Rightarrow> FactTable" where
  "collectFacts node prefix t =
     (if is_object node then
        fold (\<lambda>(key, v) t.
          let path = (if prefix = [] then key else prefix @ ''.'' @ key) in
          if is_container v then collectFacts v path t else add_leaf path key v t) (items node) t
      else if is_array node then
        fold (\<lambda>(i, v) t.
          let path = prefix @ ''['' @ int_str (int i) @ '']'' in
          if is_container v then collectFacts v path t
          else t\<lparr>full_facts := omap_put path v (full_facts t)\<rparr>) (enumerate 0 (elems node)) t
      else t)"
  by pat_completeness auto
termination
  by (relation "measure (\<lambda>(n, p, t). size n)")
    (auto intro: items_size elems_size [OF nth_mem] simp: in_set_enumerate_eq)

declare collectFacts.simps [simp del]

definition formatValue :: "(dbl \<Rightarrow> string) \<Rightarrow> json \<Rightarrow> string result" where
  "formatValue ft v =
     (case v of
        JString s \<Rightarrow> Inr s
      | JBool b \<Rightarrow> Inr (if b then ''true'' else ''false'')
      | JInt i \<Rightarrow> Inr (int_str i)
      | JUInt u \<Rightarrow> Inr (int_str (i64 u))
      | JFloat d \<Rightarrow> Inr (if deq d (rnd (of_int (d_to_i64 d))) then int_str (d_to_i64 d) else fmt_g6 d)
      | _ \<Rightarrow> dump ft v)"

definition resolveToken :: "json \<Rightarrow> FactTable \<Rightarrow> string \<Rightarrow> json option" where
  "resolveToken doc t token =
     (case omap_get (full_facts t) token of
        Some v \<Rightarrow> Some v
      | None \<Rightarrow>
          (case map_of template_aliases token of
             Some path \<Rightarrow> resolvePath doc path
           | None \<Rightarrow> omap_get (bare_facts t) token))"

fun substitute :: "(dbl \<Rightarrow> string) \<Rightarrow> json \<Rightarrow> FactTable \<Rightarrow> string \<Rightarrow> string result" where
  "substitute ft doc t [] = Inr []"
| "substitute ft doc t (c # tpl) =
     (if c \<noteq> CHR ''{'' then bindE (substitute ft doc t tpl) (\<lambda>out. Inr (c # out))
      else (case find_char CHR ''}'' tpl of
          None \<Rightarrow> Inr (c # tpl)
        | Some k \<Rightarrow>
            let token = take k tpl in
            bindE (case resolveToken doc t token of
                Some v \<Rightarrow> formatValue ft v
              | None \<Rightarrow> Inr (''{'' @ token @ ''}'')) (\<lambda>s.
            bindE (substitute ft doc t (drop (k + 1) tpl)) (\<lambda>out. Inr (s @ out)))))"

section \<open>Verdicts\<close>

definition fact_table :: "StateMatrix \<Rightarrow> json \<Rightarrow> FactTable" where
  "fact_table m doc =
     (let t = collectFacts doc [] \<lparr>full_facts = [], bare_facts = []\<rparr>;
          ig = JBool (has_igst (tax m)); cs = JBool (has_cgst_sgst (tax m)) in
      \<lparr>full_facts = omap_put ''invoice.tax_breakdown.has_cgst_sgst'' cs
                     (omap_put ''invoice.tax_breakdown.has_igst'' ig (full_facts t)),
       bare_facts = omap_put ''has_cgst_sgst'' cs (omap_put ''has_igst'' ig (bare_facts t))\<rparr>)"

definition new_result :: "RuleSpec \<Rightarrow> RuleResult" where
  "new_result spec = \<lparr>res_id = rule_id spec, res_category = category spec,
     res_severity = severity spec, res_status_field = status_field spec, res_summary = summary spec,
     violated = False, skipped = False, message = [], res_resolve_gap_by = resolve_gap_by spec,
     res_action_required = action_required spec, fired_checks = []\<rparr>"

text \<open>The check outcomes combined: under OR the labels of the checks that fired, under AND all.\<close>

definition combine :: "string \<Rightarrow> CheckOutcome list \<Rightarrow> bool \<times> string list" where
  "combine op os =
     (if op = ''OR'' then (True \<in> set (map fired os), map label (filter fired os))
      else (os \<noteq> [] \<and> False \<notin> set (map fired os), map label os))"

definition evalRule ::
    "(dbl \<Rightarrow> string) \<Rightarrow> json \<Rightarrow> StateMatrix \<Rightarrow> json \<Rightarrow> RuleSpec \<Rightarrow> RuleResult result" where
  "evalRule ft ths m doc spec =
     (let cond = rule_condition spec; res = new_result spec in
      bindE (value_str cond ''operator'' ''AND'') (\<lambda>op.
      bindE (case jfind cond ''when'' of
          None \<Rightarrow> Inr True
        | Some w \<Rightarrow> bindE (evalCheck ths m doc w) (\<lambda>o'. Inr (fired o'))) (\<lambda>gated.
      if \<not> gated then Inr (res\<lparr>skipped := True\<rparr>)
      else
        bindE (case jfind cond ''checks'' of
            Some (JArray cs) \<Rightarrow> bindE (mapE (evalCheck ths m doc) cs) (\<lambda>os. Inr (combine op os))
          | _ \<Rightarrow> Inr (False, [])) (\<lambda>(viol, labs).
        let res = res\<lparr>violated := viol, fired_checks := (if viol then labs else [])\<rparr> in
        if viol \<and> message_template spec \<noteq> [] then
          bindE (substitute ft doc (fact_table m doc) (message_template spec)) (\<lambda>msg.
          Inr (res\<lparr>message := msg\<rparr>))
        else Inr res))))"

definition evaluate :: "(dbl \<Rightarrow> string) \<Rightarrow> RuleEngine \<Rightarrow> StateMatrix \<Rightarrow> json \<Rightarrow> RuleResult list result" where
  "evaluate ft eng m doc = mapE (evalRule ft (thresholds eng) m doc) (engine_rules eng)"

definition evaluateDocument :: "(dbl \<Rightarrow> string) \<Rightarrow> RuleEngine \<Rightarrow> json \<Rightarrow> RuleResult list result" where
  "evaluateDocument ft eng doc =
     bindE (validateAndSanitize doc) (\<lambda>m. evaluate ft eng m doc)"

section \<open>Evaluating checks\<close>

lemma evalCheck_field:
  "jfind check ''field'' = Some (JString f) \<Longrightarrow> evalCheck ths m doc check = evalField ths check m doc f"
  by (subst evalCheck.simps) (simp add: is_group_def jcontains_def jfind_is_object)

lemma evalCheck_group:
  "jfind check ''field'' = None \<Longrightarrow> jfind check ''operator'' = Some (JString gop) \<Longrightarrow>
   jfind check ''checks'' = Some (JArray cs) \<Longrightarrow>
   evalCheck ths m doc check =
     bindE (mapE (evalCheck ths m doc) cs) (\<lambda>os.
       Inr \<lparr>fired = group_fires gop (map fired os),
            label = ''( '' @ join_with ('' '' @ gop @ '' '') (map label os) @ '' )''\<rparr>)"
  by (subst evalCheck.simps)
    (simp add: is_group_def jcontains_def jfind_is_object group_checks_def jat_def)

lemma evalCheck_malformed:
  "\<not> is_object check \<Longrightarrow> evalCheck ths m doc check = Inr malformed"
  by (subst evalCheck.simps) simp

lemma resolve_segment_key: "CHR ''['' \<notin> set seg \<Longrightarrow> resolve_segment cur seg = jfind cur seg"
  by (simp add: resolve_segment_def splitSegment_def find_char_None [THEN iffD2])

text \<open>A path of keys is a chain of member lookups.\<close>

lemma resolvePath_2:
  "CHR ''.'' \<notin> set a \<Longrightarrow> CHR ''.'' \<notin> set b \<Longrightarrow> CHR ''['' \<notin> set a \<Longrightarrow> CHR ''['' \<notin> set b \<Longrightarrow>
   resolvePath doc (a @ ''.'' @ b) = (case jfind doc a of None \<Rightarrow> None | Some v \<Rightarrow> jfind v b)"
  by (simp add: resolvePath_def split_at_append split_at_single resolve_segment_key split: option.split)

lemma resolvePath_3:
  "CHR ''.'' \<notin> set a \<Longrightarrow> CHR ''.'' \<notin> set b \<Longrightarrow> CHR ''.'' \<notin> set c \<Longrightarrow>
   CHR ''['' \<notin> set a \<Longrightarrow> CHR ''['' \<notin> set b \<Longrightarrow> CHR ''['' \<notin> set c \<Longrightarrow>
   resolvePath doc (a @ ''.'' @ b @ ''.'' @ c) =
     (case jfind doc a of None \<Rightarrow> None | Some v \<Rightarrow>
        (case jfind v b of None \<Rightarrow> None | Some w \<Rightarrow> jfind w c))"
  by (simp add: resolvePath_def split_at_append split_at_single resolve_segment_key split: option.split)

lemma op_verdict_absent:
  "op \<noteq> ''absent'' \<Longrightarrow> op_verdict m doc check op None lit = Inr False"
  by (simp add: op_verdict_def split: option.split json.split)

text \<open>The exceptions a check can throw: an \<open>op\<close> or a group \<open>operator\<close> that is not a string.\<close>

definition check_error :: "exn \<Rightarrow> bool" where
  "check_error e \<longleftrightarrow> (\<exists>w. e = type_error 302 w)"

lemma fails_get_string [fails_intros]: "fails_with check_error (get_string j)"
  by (cases j) (auto simp: check_error_def type_error_def)

lemma number_double: "is_number v \<Longrightarrow> \<exists>d. get_double v = Inr d"
  by (cases v) auto

lemma fails_valuesEqualAsScalar [fails_intros]: "fails_with P (valuesEqualAsScalar x y)"
  unfolding valuesEqualAsScalar_def by (cases x; cases y) simp_all

lemma fails_scalarLess [fails_intros]: "fails_with P (scalarLess x y op)"
  unfolding scalarLess_def by (cases x; cases y) simp_all

lemma fails_token_allowed [fails_intros]: "fails_with P (token_allowed vs n)"
  unfolding token_allowed_def by (auto intro!: fails_intros)

lemma fails_with_if: "fails_with P a \<Longrightarrow> fails_with P b \<Longrightarrow> fails_with P (if c then a else b)"
  by simp

lemma fails_op_verdict [fails_intros]: "fails_with P (op_verdict m doc check op fct lit)"
  unfolding op_verdict_def
  by (intro fails_with_if) (auto intro!: fails_intros split: option.split json.split)

lemma fails_evalField: "is_object check \<Longrightarrow> fails_with check_error (evalField ths check m doc f)"
  unfolding evalField_def Let_def value_or_def
  by (auto intro!: fails_with_bindE fails_op_verdict fails_get_string split: option.split)

lemma fails_evalCheck [fails_intros]: "fails_with check_error (evalCheck ths m doc check)"
proof (induction ths m doc check rule: evalCheck.induct)
  case (1 ths m doc check)
  show ?case
  proof (cases "is_object check")
    case True
    then show ?thesis
    proof (cases "is_group check")
      case group: True
      have ih: "fails_with check_error (mapE (evalCheck ths m doc) (group_checks check))"
        if "bindE (jat check ''operator'') get_string = Inr gop" for gop
        using "1.IH" True group that by (auto intro!: fails_with_mapE)
      moreover have "fails_with check_error (bindE (jat check ''operator'') get_string)"
        using group True by (auto simp: jat_def is_group_def jcontains_def intro!: fails_get_string)
      ultimately show ?thesis using True group
        by (subst evalCheck.simps) (auto intro!: fails_with_bindE)
    next
      case False
      with True show ?thesis
        by (subst evalCheck.simps) (auto intro!: fails_evalField split: option.split json.split)
    qed
  qed (simp add: evalCheck_malformed)
qed

section \<open>Producing messages\<close>

fun template_tokens :: "string \<Rightarrow> string list" where
  "template_tokens [] = []"
| "template_tokens (c # tpl) =
     (if c \<noteq> CHR ''{'' then template_tokens tpl
      else (case find_char CHR ''}'' tpl of
          None \<Rightarrow> []
        | Some k \<Rightarrow> take k tpl # template_tokens (drop (k + 1) tpl)))"

lemma substitute_ok:
  assumes "\<And>tok v. tok \<in> set (template_tokens tpl) \<Longrightarrow> resolveToken doc t tok = Some v \<Longrightarrow>
     \<exists>s. formatValue ft v = Inr s"
  shows "\<exists>out. substitute ft doc t tpl = Inr out"
  using assms
proof (induction ft doc t tpl rule: substitute.induct)
  case (2 ft doc t c tpl)
  show ?case
  proof (cases "c = CHR ''{''")
    case False
    then show ?thesis using 2 by (auto simp: bindE_eq_Inr)
  next
    case True
    show ?thesis
    proof (cases "find_char CHR ''}'' tpl")
      case None
      then show ?thesis using True by simp
    next
      case (Some k)
      have "\<exists>s. (case resolveToken doc t (take k tpl) of
          Some v \<Rightarrow> formatValue ft v | None \<Rightarrow> Inr (''{'' @ take k tpl @ ''}'')) = Inr s"
        using 2(3) [of "take k tpl"] True Some by (auto split: option.split)
      moreover have "\<exists>out. substitute ft doc t (drop (k + 1) tpl) = Inr out"
        if "(case resolveToken doc t (take k tpl) of
          Some v \<Rightarrow> formatValue ft v | None \<Rightarrow> Inr (''{'' @ take k tpl @ ''}'')) = Inr s" for s
        by (rule "2.IH"(2) [OF _ Some refl that]) (use True Some in \<open>auto intro: "2.prems"\<close>)
      ultimately show ?thesis using True Some by (simp add: bindE_eq_Inr Let_def) blast
    qed
  qed
qed simp

lemma formatValue_scalar: "\<not> is_container v \<Longrightarrow> \<exists>s. formatValue ft v = Inr s"
  by (cases v) (auto simp: formatValue_def is_container_def)

definition scalar_entries :: "(string \<times> json) list \<Rightarrow> bool" where
  "scalar_entries es \<longleftrightarrow> (\<forall>e \<in> set es. \<not> is_container (snd e))"

definition scalar_table :: "FactTable \<Rightarrow> bool" where
  "scalar_table t \<longleftrightarrow> scalar_entries (full_facts t) \<and> scalar_entries (bare_facts t)"

lemma scalar_entries_put [simp]:
  "scalar_entries es \<Longrightarrow> \<not> is_container v \<Longrightarrow> scalar_entries (omap_put k v es)"
  by (induction es) (auto simp: scalar_entries_def)

lemma scalar_entries_Nil [simp]: "scalar_entries []"
  by (simp add: scalar_entries_def)

lemma is_container_JBool [simp]: "\<not> is_container (JBool b)"
  by (simp add: is_container_def)

lemma scalar_entries_get: "scalar_entries es \<Longrightarrow> omap_get es k = Some v \<Longrightarrow> \<not> is_container v"
  by (force simp: scalar_entries_def omap_get_def dest: map_of_SomeD)

lemma collectFacts_scalar: "scalar_table t \<Longrightarrow> scalar_table (collectFacts node prefix t)"
proof (induction node prefix t rule: collectFacts.induct)
  case (1 node prefix t)
  show ?case
  proof (cases "is_object node")
    case True
    have "scalar_table (fold (\<lambda>(key, v) t.
          let path = (if prefix = [] then key else prefix @ ''.'' @ key) in
          if is_container v then collectFacts v path t else add_leaf path key v t) (items node) t)"
      by (rule fold_invariant [where Q = "\<lambda>x. x \<in> set (items node)"])
        (use True "1.IH"(1) "1.prems" in \<open>auto simp: Let_def scalar_table_def add_leaf_def\<close>)
    then show ?thesis using True by (subst collectFacts.simps) simp
  next
    case False
    show ?thesis
    proof (cases "is_array node")
      case True
      have "scalar_table (fold (\<lambda>(i, v) t.
          let path = prefix @ ''['' @ int_str (int i) @ '']'' in
          if is_container v then collectFacts v path t
          else t\<lparr>full_facts := omap_put path v (full_facts t)\<rparr>) (enumerate 0 (elems node)) t)"
        by (rule fold_invariant [where Q = "\<lambda>x. x \<in> set (enumerate 0 (elems node))"])
          (use True False "1.IH"(2) "1.prems" in \<open>auto simp: Let_def scalar_table_def\<close>)
      then show ?thesis using True False by (subst collectFacts.simps) simp
    qed (use False 1 in \<open>subst collectFacts.simps, simp\<close>)
  qed
qed

lemma fact_table_scalar: "scalar_table (fact_table m doc)"
  using collectFacts_scalar [of "\<lparr>full_facts = [], bare_facts = []\<rparr>" doc "[]"]
  by (simp add: fact_table_def scalar_table_def Let_def)

lemma resolveToken_cases:
  "resolveToken doc (fact_table m doc) tok = Some v \<Longrightarrow>
     \<not> is_container v \<or> (\<exists>path. map_of template_aliases tok = Some path \<and> resolvePath doc path = Some v)"
  using fact_table_scalar [of m doc]
  by (auto simp: resolveToken_def scalar_table_def dest: scalar_entries_get split: option.splits)

text \<open>A message whose tokens bind no array and no object is always produced.\<close>

lemma substitute_scalar:
  assumes "\<And>tok path v. tok \<in> set (template_tokens tpl) \<Longrightarrow> map_of template_aliases tok = Some path \<Longrightarrow>
     resolvePath doc path = Some v \<Longrightarrow> \<not> is_container v"
  shows "\<exists>out. substitute ft doc (fact_table m doc) tpl = Inr out"
  using substitute_ok formatValue_scalar resolveToken_cases assms by metis

section \<open>What holds of every rule file\<close>

lemma canonical_op_absent: "canonical_op op = ''absent'' \<longleftrightarrow> op = ''absent''"
  by (simp add: canonical_op_def)

lemma evalField_label:
  assumes "evalField ths check m doc f = Inr oc" and "fired oc" and "resolveFact m doc f = None"
  shows "jfind check ''op'' = Some (JString ''absent'')"
proof -
  obtain op b where op: "value_str check ''op'' [] = Inr op"
    and b: "op_verdict m doc check (canonical_op op) None (check_literal ths check) = Inr b" and "b"
    using assms by (auto simp: evalField_def bindE_eq_Inr Let_def)
  then have "canonical_op op = ''absent''" using op_verdict_absent by (metis sum.inject(2))
  then have "op = ''absent''" by (simp add: canonical_op_absent)
  then show ?thesis using op by (auto simp: value_or_def split: if_splits option.splits)
qed

text \<open>
  No gap is fabricated from a missing fact: when the path of a check resolves to
  nothing, the check can only fire if its operator is \<open>absent\<close>.
\<close>

theorem absent_fact_never_fires:
  assumes "jfind check ''field'' = Some (JString f)" and "resolveFact m doc f = None"
    and "evalCheck ths m doc check = Inr oc" and "fired oc"
  shows "jfind check ''op'' = Some (JString ''absent'')"
  using assms evalField_label by (simp add: evalCheck_field)

lemma evalRule_shape:
  assumes "evalRule ft ths m doc spec = Inr r"
  shows "res_id r = rule_id spec \<and> (violated r \<longrightarrow> \<not> skipped r) \<and>
    (\<not> violated r \<longrightarrow> message r = [] \<and> fired_checks r = [])"
  using assms
  by (auto simp: evalRule_def Let_def bindE_eq_Inr new_result_def split: if_splits prod.splits)

lemma loadRule_id: "loadRule r = Inr spec \<Longrightarrow> rule_id spec \<noteq> []"
  by (auto simp: loadRule_def bindE_eq_Inr Let_def split: option.splits)

text \<open>
  Whatever the rule file and the document, when the engine returns, it returns one
  verdict per rule in the order of the file, each under its non-empty id; a skipped rule is never
  violated, and only a violated rule carries a message or the labels of its checks.
\<close>

theorem evaluate_shape:
  assumes "loadEngine cfg = Inr eng" and "evaluate ft eng m doc = Inr rs"
  shows "map res_id rs = map rule_id (engine_rules eng) \<and> [] \<notin> set (map res_id rs) \<and>
    list_all (\<lambda>r. \<not> (violated r \<and> skipped r) \<and>
      (violated r \<or> (message r = [] \<and> fired_checks r = []))) rs"
proof -
  have l: "list_all2 (\<lambda>spec r. evalRule ft (thresholds eng) m doc spec = Inr r) (engine_rules eng) rs"
    using assms(2) by (simp add: evaluate_def mapE_eq_Inr)
  then have "map res_id rs = map rule_id (engine_rules eng)"
    by (induction rule: list_all2_induct) (simp_all add: evalRule_shape)
  moreover have "list_all (\<lambda>r. \<not> (violated r \<and> skipped r) \<and>
      (violated r \<or> (message r = [] \<and> fired_checks r = []))) rs"
    using l by (induction rule: list_all2_induct) (use evalRule_shape in \<open>auto\<close>)
  moreover have "[] \<notin> rule_id ` set (engine_rules eng)"
  proof -
    obtain xs where "mapE loadRule xs = Inr (engine_rules eng)"
      using assms(1) by (auto simp: loadEngine_def Let_def bindE_eq_Inr split: option.splits if_splits)
    then show ?thesis using mapE_Inr_set loadRule_id by fastforce
  qed
  ultimately show ?thesis by simp
qed

text \<open>
  The array suffix the header documents for fact paths ("a segment may carry a
  [n] array-index suffix") never resolves below an object: \<open>splitSegment\<close> separates key and
  index, but the loop then indexes the object itself, so \<open>k[n]\<close> is absent even when member
  \<open>k\<close> is an array with an element \<open>n\<close>.
\<close>

theorem array_suffix_never_resolves:
  assumes "is_object doc" and "CHR ''['' \<notin> set k" and "CHR ''.'' \<notin> set k" and "CHR ''.'' \<notin> set n"
  shows "resolvePath doc (k @ ''['' @ n @ '']'') = None"
proof -
  have "split_at CHR ''.'' (k @ ''['' @ n @ '']'') = [k @ ''['' @ n @ '']'']"
    using assms by (intro split_at_single) auto
  moreover have "find_char CHR ''['' (k @ CHR ''['' # n @ '']'') = Some (length k)"
    using assms(2) by (rule find_char_append)
  ultimately show ?thesis using assms(1)
    by (cases doc) (auto simp: resolvePath_def resolve_segment_def splitSegment_def Let_def)
qed

theorem array_suffix_never_resolves_witness:
  "jfind (JObject [(''line_items'', JArray [JNull])]) ''line_items'' = Some (JArray [JNull]) \<and>
   resolvePath (JObject [(''line_items'', JArray [JNull])]) ''line_items[0]'' = None"
  using array_suffix_never_resolves [of "JObject [(''line_items'', JArray [JNull])]" "''line_items''" "''0''"]
  by (simp add: omap_get_def)

theorem absent_fact_never_fires_witness:
  "evalCheck JNull StateMatrix0 (JObject [])
     (JObject [(''field'', JString ''irp.reported_on''), (''op'', JString ''absent'')])
     = Inr \<lparr>fired = True, label = ''irp.reported_on absent''\<rparr>
   \<and> jfind (JObject [(''field'', JString ''irp.reported_on''), (''op'', JString ''absent'')]) ''op''
     = Some (JString ''absent'')"
proof -
  let ?c = "JObject [(''field'', JString ''irp.reported_on''), (''op'', JString ''absent'')]"
  have f: "jfind ?c ''field'' = Some (JString ''irp.reported_on'')" by (simp add: omap_get_def)
  have r: "resolveFact StateMatrix0 (JObject []) ''irp.reported_on'' = None"
    using resolvePath_2 [of "''irp''" "''reported_on''" "JObject []"] by (simp add: resolveFact_def omap_get_def)
  have e: "evalCheck JNull StateMatrix0 (JObject []) ?c
      = Inr \<lparr>fired = True, label = ''irp.reported_on absent''\<rparr>"
    using r by (simp add: evalCheck_field [OF f] evalField_def value_or_def omap_get_def canonical_op_def
        op_verdict_def known_op_def Let_def)
  show ?thesis using absent_fact_never_fires [OF f r e] e by simp
qed

end
