(* ===== verification/Rules_2026.thy ===== *)
theory Rules_2026
  imports RuleEngine MockExtractor
begin

text \<open>
  The shipped rule file config/rules_2026.json (its \<open>rules\<close> and \<open>thresholds\<close>, the two members
  the engine reads) and the engine loaded from it. The theorems state, for every document the
  validator accepts, the exact verdict of each shipped rule in terms of the validated matrix.
\<close>

section \<open>The rule file\<close>

definition cond_EINV_001 :: json where
  "cond_EINV_001 = JObject [
    (''checks'', JArray [
      JObject [
        (''field'', JString ''supplier.aato_crore''),
        (''op'', JString ''gt''),
        (''source'', JString ''thresholds.e_invoicing_aato_crore''),
        (''value'', JUInt 5)],
      JObject [
        (''field'', JString ''invoice.irn_present''),
        (''op'', JString ''eq_false'')]]),
    (''operator'', JString ''AND''),
    (''when'', JObject [
      (''field'', JString ''supplier.aato_crore''),
      (''op'', JString ''present'')])]"

definition rule_EINV_001 :: json where
  "rule_EINV_001 = JObject [
    (''action_required'', JString ''INPUT_TEXT''),
    (''category'', JString ''e_invoice''),
    (''condition'', cond_EINV_001),
    (''id'', JString ''R-EINV-001''),
    (''message_template'', JString ''The aggregate annual turnover provided is INR {aato_crore} Crore, which exceeds the statutory threshold. Electronic invoicing is therefore MANDATORY. Please supply the 64-character Invoice Registration Number (IRN) obtained from the IRP, or confirm an exemption under Rule 48(4) of the CGST Rules.''),
    (''resolve_gap_by'', JString ''irn_or_exemption''),
    (''severity'', JString ''error''),
    (''status_field'', JString ''e_invoice_required''),
    (''summary'', JString ''Mandatory e-invoicing for AATO exceeding INR 5 Crore.'')]"

definition cond_IRP_002 :: json where
  "cond_IRP_002 = JObject [
    (''checks'', JArray [
      JObject [
        (''field'', JString ''irp.reported_on''),
        (''op'', JString ''absent'')]]),
    (''operator'', JString ''AND''),
    (''when'', JObject [
      (''field'', JString ''invoice.irn_present''),
      (''op'', JString ''eq_true'')])]"

definition rule_IRP_002 :: json where
  "rule_IRP_002 = JObject [
    (''action_required'', JString ''INPUT_TEXT''),
    (''category'', JString ''irp''),
    (''condition'', cond_IRP_002),
    (''id'', JString ''R-IRP-002''),
    (''message_template'', JString ''This e-invoiced transaction must be reported on the Invoice Registration Portal within 30 days of invoice date. No IRP reporting timestamp was captured. Please provide the IRP acknowledgment date (YYYY-MM-DD).''),
    (''resolve_gap_by'', JString ''irp_reported_on''),
    (''severity'', JString ''error''),
    (''status_field'', JString ''irp_reporting_window_valid''),
    (''summary'', JString ''E-invoiced transactions must be reported on the IRP within the mandatory 30-day window.'')]"

definition cond_SPLIT_003 :: json where
  "cond_SPLIT_003 = JObject [
    (''checks'', JArray [
      JObject [
        (''field'', JString ''invoice.place_of_supply''),
        (''op'', JString ''eq''),
        (''value'', JString ''same_as_supplier_state'')],
      JObject [
        (''field'', JString ''invoice.tax_breakdown.has_igst''),
        (''op'', JString ''eq_true'')]]),
    (''operator'', JString ''AND'')]"

definition rule_SPLIT_003 :: json where
  "rule_SPLIT_003 = JObject [
    (''action_required'', JString ''INPUT_TEXT''),
    (''category'', JString ''tax_split''),
    (''condition'', cond_SPLIT_003),
    (''id'', JString ''R-SPLIT-003''),
    (''message_template'', JString (''The recorded place of supply matches the supplier'' @ [CHR 0x27] @ ''s state (intra-state), yet the invoice carries IGST. Intra-state supplies must split tax into CGST + SGST (Rule 3, ITC Rules 2017). Please confirm the correct place of supply or tax allocation.'')),
    (''resolve_gap_by'', JString ''tax_allocation''),
    (''severity'', JString ''error''),
    (''status_field'', JString ''tax_split_consistent''),
    (''summary'', JString ''Intra-state supplies must never carry IGST; they must split tax into CGST + SGST.'')]"

definition cond_SPLIT_004 :: json where
  "cond_SPLIT_004 = JObject [
    (''checks'', JArray [
      JObject [
        (''field'', JString ''invoice.place_of_supply''),
        (''op'', JString ''neq''),
        (''value'', JString ''same_as_supplier_state'')],
      JObject [
        (''field'', JString ''invoice.tax_breakdown.has_cgst_sgst''),
        (''op'', JString ''eq_true'')]]),
    (''operator'', JString ''AND'')]"

definition rule_SPLIT_004 :: json where
  "rule_SPLIT_004 = JObject [
    (''action_required'', JString ''INPUT_TEXT''),
    (''category'', JString ''tax_split''),
    (''condition'', cond_SPLIT_004),
    (''id'', JString ''R-SPLIT-004''),
    (''message_template'', JString (''The place of supply differs from the supplier'' @ [CHR 0x27] @ ''s state (inter-state), yet the invoice carries CGST/SGST. Inter-state supplies must carry IGST only. Please confirm the correct place of supply or tax allocation.'')),
    (''resolve_gap_by'', JString ''tax_allocation''),
    (''severity'', JString ''error''),
    (''status_field'', JString ''tax_split_consistent''),
    (''summary'', JString ''Inter-state supplies must carry IGST only, never CGST + SGST.'')]"

definition cond_HSN_005 :: json where
  "cond_HSN_005 = JObject [
    (''checks'', JArray [
      JObject [
        (''field'', JString ''invoice.hsn_string''),
        (''op'', JString ''token_length_out''),
        (''source'', JString ''thresholds.hsn_min_digits / hsn_max_digits; 8-digit export codes also valid''),
        (''values'', JArray [
          JUInt 4,
          JUInt 6,
          JUInt 8])]]),
    (''operator'', JString ''AND'')]"

definition rule_HSN_005 :: json where
  "rule_HSN_005 = JObject [
    (''action_required'', JString ''INPUT_TEXT''),
    (''category'', JString ''hsn''),
    (''condition'', cond_HSN_005),
    (''id'', JString ''R-HSN-005''),
    (''message_template'', JString (''Line item {line_index} reports HSN '' @ [CHR 0x27] @ ''{hsn}'' @ [CHR 0x27] @ ''. Under CGST Notification 01/2026, HSN must be 4, 6 or 8 digits (8-digit codes cover exports and high-turnover filers). Please provide the correct HSN code.'')),
    (''resolve_gap_by'', JString ''correct_hsn''),
    (''severity'', JString ''warning''),
    (''status_field'', JString ''hsn_digits_valid''),
    (''summary'', JString ''Every HSN code on the invoice must be 4, 6 or 8 digits.'')]"

definition cond_CHRG_006 :: json where
  "cond_CHRG_006 = JObject [
    (''checks'', JArray [
      JObject [
        (''field'', JString ''invoice.tax_breakdown.cgst''),
        (''op'', JString ''absent'')],
      JObject [
        (''field'', JString ''invoice.tax_breakdown.sgst''),
        (''op'', JString ''absent'')],
      JObject [
        (''field'', JString ''invoice.tax_breakdown.sgst''),
        (''op'', JString ''ne_cross''),
        (''value_from'', JString ''invoice.tax_breakdown.cgst'')]]),
    (''operator'', JString ''OR''),
    (''when'', JObject [
      (''field'', JString ''invoice.tax_breakdown.has_igst''),
      (''op'', JString ''eq_false'')])]"

definition rule_CHRG_006 :: json where
  "rule_CHRG_006 = JObject [
    (''action_required'', JString ''INPUT_TEXT''),
    (''category'', JString ''tax_split''),
    (''condition'', cond_CHRG_006),
    (''id'', JString ''R-CHRG-006''),
    (''message_template'', JString ''The SGST amount ({sgst}) does not equal CGST ({cgst}) on this intra-state invoice. Please confirm the amounts split across the two heads.''),
    (''resolve_gap_by'', JString ''tax_allocation''),
    (''severity'', JString ''warning''),
    (''status_field'', JString ''state_tax_charge_consistent''),
    (''summary'', JString ''On intra-state invoices, SGST must equal CGST (with matching rates).'')]"

definition cond_CLASS_007 :: json where
  "cond_CLASS_007 = JObject [
    (''checks'', JArray [
      JObject [
        (''field'', JString ''invoice.classification''),
        (''op'', JString ''eq''),
        (''value'', JString ''UNDETERMINED'')],
      JObject [
        (''checks'', JArray [
          JObject [
            (''field'', JString ''invoice.classification''),
            (''op'', JString ''neq''),
            (''value'', JString ''B2C'')],
          JObject [
            (''field'', JString ''buyer.gstin''),
            (''op'', JString ''absent'')]]),
        (''operator'', JString ''AND'')]]),
    (''operator'', JString ''OR'')]"

definition rule_CLASS_007 :: json where
  "rule_CLASS_007 = JObject [
    (''action_required'', JString ''INPUT_TEXT''),
    (''category'', JString ''classification''),
    (''condition'', cond_CLASS_007),
    (''id'', JString ''R-CLASS-007''),
    (''message_template'', JString (''This transaction needs classification input: it is undetermined, or a B2B/unknown supply lacks the buyer'' @ [CHR 0x27] @ ''s GSTIN. Is the buyer registered under GST? Provide the buyer GSTIN (B2B) or confirm the supply classification.'')),
    (''resolve_gap_by'', JString ''buyer_registration''),
    (''severity'', JString ''info''),
    (''status_field'', JString ''b2b_b2c_determined''),
    (''summary'', JString ''Every invoice must be classified B2B or B2C; an undetermined status -- or a B2B/unknown supply that lacks a buyer GSTIN -- is a gap requiring user input. Legitimate B2C sales (no buyer GSTIN) are never flagged.'')]"

definition thresholds_2026 :: json where
  "thresholds_2026 = JObject [
    (''e_invoicing_aato_crore'', JUInt 5),
    (''hsn_max_digits'', JUInt 6),
    (''hsn_min_digits'', JUInt 4),
    (''irp_reporting_days'', JUInt 30)]"

definition rules_2026 :: json where
  "rules_2026 = JObject [
    (''rules'', JArray [
      rule_EINV_001,
      rule_IRP_002,
      rule_SPLIT_003,
      rule_SPLIT_004,
      rule_HSN_005,
      rule_CHRG_006,
      rule_CLASS_007]),
    (''thresholds'', thresholds_2026)]"

definition spec_EINV_001 :: RuleSpec where
  "spec_EINV_001 = \<lparr>
    rule_id = ''R-EINV-001'',
    category = ''e_invoice'',
    severity = ''error'',
    status_field = ''e_invoice_required'',
    summary = ''Mandatory e-invoicing for AATO exceeding INR 5 Crore.'',
    resolve_gap_by = ''irn_or_exemption'',
    action_required = ''INPUT_TEXT'',
    message_template = ''The aggregate annual turnover provided is INR {aato_crore} Crore, which exceeds the statutory threshold. Electronic invoicing is therefore MANDATORY. Please supply the 64-character Invoice Registration Number (IRN) obtained from the IRP, or confirm an exemption under Rule 48(4) of the CGST Rules.'',
    rule_condition = cond_EINV_001\<rparr>"

definition spec_IRP_002 :: RuleSpec where
  "spec_IRP_002 = \<lparr>
    rule_id = ''R-IRP-002'',
    category = ''irp'',
    severity = ''error'',
    status_field = ''irp_reporting_window_valid'',
    summary = ''E-invoiced transactions must be reported on the IRP within the mandatory 30-day window.'',
    resolve_gap_by = ''irp_reported_on'',
    action_required = ''INPUT_TEXT'',
    message_template = ''This e-invoiced transaction must be reported on the Invoice Registration Portal within 30 days of invoice date. No IRP reporting timestamp was captured. Please provide the IRP acknowledgment date (YYYY-MM-DD).'',
    rule_condition = cond_IRP_002\<rparr>"

definition spec_SPLIT_003 :: RuleSpec where
  "spec_SPLIT_003 = \<lparr>
    rule_id = ''R-SPLIT-003'',
    category = ''tax_split'',
    severity = ''error'',
    status_field = ''tax_split_consistent'',
    summary = ''Intra-state supplies must never carry IGST; they must split tax into CGST + SGST.'',
    resolve_gap_by = ''tax_allocation'',
    action_required = ''INPUT_TEXT'',
    message_template = (''The recorded place of supply matches the supplier'' @ [CHR 0x27] @ ''s state (intra-state), yet the invoice carries IGST. Intra-state supplies must split tax into CGST + SGST (Rule 3, ITC Rules 2017). Please confirm the correct place of supply or tax allocation.''),
    rule_condition = cond_SPLIT_003\<rparr>"

definition spec_SPLIT_004 :: RuleSpec where
  "spec_SPLIT_004 = \<lparr>
    rule_id = ''R-SPLIT-004'',
    category = ''tax_split'',
    severity = ''error'',
    status_field = ''tax_split_consistent'',
    summary = ''Inter-state supplies must carry IGST only, never CGST + SGST.'',
    resolve_gap_by = ''tax_allocation'',
    action_required = ''INPUT_TEXT'',
    message_template = (''The place of supply differs from the supplier'' @ [CHR 0x27] @ ''s state (inter-state), yet the invoice carries CGST/SGST. Inter-state supplies must carry IGST only. Please confirm the correct place of supply or tax allocation.''),
    rule_condition = cond_SPLIT_004\<rparr>"

definition spec_HSN_005 :: RuleSpec where
  "spec_HSN_005 = \<lparr>
    rule_id = ''R-HSN-005'',
    category = ''hsn'',
    severity = ''warning'',
    status_field = ''hsn_digits_valid'',
    summary = ''Every HSN code on the invoice must be 4, 6 or 8 digits.'',
    resolve_gap_by = ''correct_hsn'',
    action_required = ''INPUT_TEXT'',
    message_template = (''Line item {line_index} reports HSN '' @ [CHR 0x27] @ ''{hsn}'' @ [CHR 0x27] @ ''. Under CGST Notification 01/2026, HSN must be 4, 6 or 8 digits (8-digit codes cover exports and high-turnover filers). Please provide the correct HSN code.''),
    rule_condition = cond_HSN_005\<rparr>"

definition spec_CHRG_006 :: RuleSpec where
  "spec_CHRG_006 = \<lparr>
    rule_id = ''R-CHRG-006'',
    category = ''tax_split'',
    severity = ''warning'',
    status_field = ''state_tax_charge_consistent'',
    summary = ''On intra-state invoices, SGST must equal CGST (with matching rates).'',
    resolve_gap_by = ''tax_allocation'',
    action_required = ''INPUT_TEXT'',
    message_template = ''The SGST amount ({sgst}) does not equal CGST ({cgst}) on this intra-state invoice. Please confirm the amounts split across the two heads.'',
    rule_condition = cond_CHRG_006\<rparr>"

definition spec_CLASS_007 :: RuleSpec where
  "spec_CLASS_007 = \<lparr>
    rule_id = ''R-CLASS-007'',
    category = ''classification'',
    severity = ''info'',
    status_field = ''b2b_b2c_determined'',
    summary = ''Every invoice must be classified B2B or B2C; an undetermined status -- or a B2B/unknown supply that lacks a buyer GSTIN -- is a gap requiring user input. Legitimate B2C sales (no buyer GSTIN) are never flagged.'',
    resolve_gap_by = ''buyer_registration'',
    action_required = ''INPUT_TEXT'',
    message_template = (''This transaction needs classification input: it is undetermined, or a B2B/unknown supply lacks the buyer'' @ [CHR 0x27] @ ''s GSTIN. Is the buyer registered under GST? Provide the buyer GSTIN (B2B) or confirm the supply classification.''),
    rule_condition = cond_CLASS_007\<rparr>"

definition engine_2026 :: RuleEngine where
  "engine_2026 = \<lparr>engine_rules = [spec_EINV_001, spec_IRP_002, spec_SPLIT_003, spec_SPLIT_004, spec_HSN_005, spec_CHRG_006, spec_CLASS_007],
     thresholds = thresholds_2026\<rparr>"

lemmas rules_2026_defs = rule_EINV_001_def rule_IRP_002_def rule_SPLIT_003_def rule_SPLIT_004_def
  rule_HSN_005_def rule_CHRG_006_def rule_CLASS_007_def

lemmas conds_2026_defs = cond_EINV_001_def cond_IRP_002_def cond_SPLIT_003_def cond_SPLIT_004_def
  cond_HSN_005_def cond_CHRG_006_def cond_CLASS_007_def

lemmas specs_2026_defs = spec_EINV_001_def spec_IRP_002_def spec_SPLIT_003_def spec_SPLIT_004_def
  spec_HSN_005_def spec_CHRG_006_def spec_CLASS_007_def

lemma load_conditions:
  "loadCondition r cond_EINV_001 = Inr ()" "loadCondition r cond_IRP_002 = Inr ()"
  "loadCondition r cond_SPLIT_003 = Inr ()" "loadCondition r cond_SPLIT_004 = Inr ()"
  "loadCondition r cond_HSN_005 = Inr ()" "loadCondition r cond_CHRG_006 = Inr ()"
  "loadCondition r cond_CLASS_007 = Inr ()"
  by (simp_all add: loadCondition_def conds_2026_defs omap_get_def)

lemma conditions_are_objects:
  "is_object cond_EINV_001" "is_object cond_IRP_002" "is_object cond_SPLIT_003" "is_object cond_SPLIT_004"
  "is_object cond_HSN_005" "is_object cond_CHRG_006" "is_object cond_CLASS_007"
  by (simp_all add: conds_2026_defs)

lemma load_rules:
  "loadRule rule_EINV_001 = Inr spec_EINV_001" "loadRule rule_IRP_002 = Inr spec_IRP_002"
  "loadRule rule_SPLIT_003 = Inr spec_SPLIT_003" "loadRule rule_SPLIT_004 = Inr spec_SPLIT_004"
  "loadRule rule_HSN_005 = Inr spec_HSN_005" "loadRule rule_CHRG_006 = Inr spec_CHRG_006"
  "loadRule rule_CLASS_007 = Inr spec_CLASS_007"
  by (simp_all add: loadRule_def rules_2026_defs specs_2026_defs value_or_def omap_get_def
      load_conditions conditions_are_objects)

lemma load_2026: "loadEngine rules_2026 = Inr engine_2026"
  by (simp add: loadEngine_def rules_2026_def engine_2026_def omap_get_def load_rules)

section \<open>The facts of a validated document\<close>

lemma requireString_Inr: "requireString v p = Inr s \<longleftrightarrow> v = JString s"
  by (cases v) (auto simp: requireString_def)

lemma string_at_Inr: "string_at j k p = Inr s \<longleftrightarrow> jfind j k = Some (JString s)"
  by (auto simp: string_at_def bindE_eq_Inr requireString_Inr)

lemma opt_string_Inr: "opt_string j k p = Inr r \<longleftrightarrow> jfind j k = map_option JString r"
  by (cases "jfind j k"; cases r) (auto simp: opt_string_def bindE_eq_Inr requireString_Inr)

lemma object_field_Inr: "object_field j k e = Inr v \<longleftrightarrow> jfind j k = Some v \<and> is_object v"
  by (auto simp: object_field_def split: option.splits if_splits)

definition classification_name :: "Classification \<Rightarrow> string" where
  "classification_name c = (case c of B2B \<Rightarrow> ''B2B'' | B2C \<Rightarrow> ''B2C'' | UNDETERMINED \<Rightarrow> ''UNDETERMINED'')"

lemma classification_of_Inr: "classification_of s = Inr c \<longleftrightarrow> s = classification_name c"
  by (cases c) (auto simp: classification_of_def classification_name_def)

lemma toCents_number: "toCents j = Inr c \<Longrightarrow> is_number j"
  by (auto simp: toCents_def bindE_eq_Inr)

text \<open>
  Where the matrix and the document agree: what the facts of the rule file resolve to when the
  validator returned \<open>m\<close> for the document.
\<close>

definition agrees :: "json \<Rightarrow> StateMatrix \<Rightarrow> bool" where
  "agrees doc m \<longleftrightarrow>
     (\<exists>sj iv tb. jfind doc ''supplier'' = Some sj \<and> jfind doc ''invoice'' = Some iv \<and>
        jfind iv ''tax_breakdown'' = Some tb \<and>
        (case jfind sj ''aato_crore'' of None \<Rightarrow> aato_crore m = None
         | Some v \<Rightarrow> is_number v \<and> (\<exists>d. get_double v = Inr d \<and> aato_crore m = Some d)) \<and>
        jfind iv ''irn_present'' = Some (JBool (irn_present m)) \<and>
        jfind iv ''place_of_supply'' = Some (JString (place_of_supply m)) \<and>
        jfind iv ''hsn_string'' = Some (JString (hsn_string m)) \<and>
        jfind iv ''classification'' = Some (JString (classification_name (classification m))) \<and>
        (\<forall>k \<in> {''cgst'', ''sgst'', ''igst'', ''cess''}. \<forall>v. jfind tb k = Some v \<longrightarrow> is_number v) \<and>
        (case jfind doc ''buyer'' of None \<Rightarrow> buyer_gstin m = None
         | Some b \<Rightarrow> jfind b ''gstin'' = map_option JString (buyer_gstin m)) \<and>
        (case jfind doc ''irp'' of None \<Rightarrow> irp_reported_on m = None
         | Some j \<Rightarrow> jfind j ''reported_on'' = map_option JString (irp_reported_on m)))"

lemma vs_supplier_Inr:
  assumes "vs_supplier doc m = Inr m'"
  shows "\<exists>sj. jfind doc ''supplier'' = Some sj \<and>
     (case jfind sj ''aato_crore'' of None \<Rightarrow> aato_crore m' = None
      | Some v \<Rightarrow> is_number v \<and> (\<exists>d. get_double v = Inr d \<and> aato_crore m' = Some d)) \<and>
     buyer_gstin m' = buyer_gstin m \<and> irp_reported_on m' = irp_reported_on m"
proof -
  obtain sj g n s a where "jfind doc ''supplier'' = Some sj"
    and a: "(case jfind sj ''aato_crore'' of
         None \<Rightarrow> Inr None
       | Some v \<Rightarrow>
           bindE (requireE (is_number v) (vs_fail ''supplier.aato_crore'' ''must be a number'')) (\<lambda>_.
           bindE (get_double v) (\<lambda>d.
           bindE (requireE (\<not> (dlt d (Fin 0) \<or> \<not> isfinite d))
                    (vs_fail ''supplier.aato_crore'' ''must be finite and non-negative'')) (\<lambda>_.
           Inr (Some d))))) = Inr a"
    and "m' = m\<lparr>supplier_gstin := g, supplier_name := n, supplier_state := s, aato_crore := a\<rparr>"
    using assms unfolding vs_supplier_def bindE_eq_Inr object_field_Inr by blast
  then show ?thesis
    by (cases "jfind sj ''aato_crore''") (auto simp: bindE_eq_Inr)
qed

lemma vs_buyer_Inr:
  assumes "vs_buyer doc m = Inr m'"
  shows "(case jfind doc ''buyer'' of None \<Rightarrow> buyer_gstin m' = buyer_gstin m
     | Some b \<Rightarrow> jfind b ''gstin'' = map_option JString (buyer_gstin m')) \<and>
     aato_crore m' = aato_crore m \<and> irp_reported_on m' = irp_reported_on m"
proof (cases "jfind doc ''buyer''")
  case None
  then show ?thesis using assms by (simp add: vs_buyer_def)
next
  case (Some b)
  then obtain r g n s where "jfind b ''gstin'' = map_option JString g"
    and "m' = m\<lparr>buyer_registered := r, buyer_gstin := g, buyer_name := n, buyer_state := s\<rparr>"
    using assms unfolding vs_buyer_def Some option.case bindE_eq_Inr opt_string_Inr by blast
  then show ?thesis using Some by simp
qed

lemma vs_irn_Inr:
  "vs_irn iv m = Inr m' \<Longrightarrow> jfind iv ''irn_present'' = Some (JBool (irn_present m')) \<and>
     (\<exists>b s. m' = m\<lparr>irn_present := b, irn := s\<rparr>)"
  by (cases m) (auto simp: vs_irn_def split: option.splits json.splits if_splits)

lemma vs_invoice_Inr:
  assumes "vs_invoice iv m = Inr m'"
  shows "jfind iv ''place_of_supply'' = Some (JString (place_of_supply m')) \<and>
     jfind iv ''hsn_string'' = Some (JString (hsn_string m')) \<and>
     jfind iv ''classification'' = Some (JString (classification_name (classification m'))) \<and>
     jfind iv ''irn_present'' = Some (JBool (irn_present m')) \<and>
     aato_crore m' = aato_crore m \<and> buyer_gstin m' = buyer_gstin m \<and> irp_reported_on m' = irp_reported_on m"
proof -
  obtain n d p h ty c m1 bv where m1: "vs_irn iv (m\<lparr>invoice_number := n, invoice_date := d,
        place_of_supply := p, hsn_string := h, supply_type := ty, classification := c\<rparr>) = Inr m1"
    and f: "jfind iv ''place_of_supply'' = Some (JString p)" "jfind iv ''hsn_string'' = Some (JString h)"
      "jfind iv ''classification'' = Some (JString (classification_name c))"
    and m': "m' = m1\<lparr>matrix_base_value_cents := bv\<rparr>"
    using assms unfolding vs_invoice_def bindE_eq_Inr string_at_Inr classification_of_Inr by blast
  then show ?thesis using vs_irn_Inr [OF m1] by auto
qed

lemma vs_tax_Inr:
  assumes "vs_tax iv m = Inr m'"
  shows "\<exists>tb. jfind iv ''tax_breakdown'' = Some tb \<and> (\<exists>b. m' = m\<lparr>tax := b\<rparr>) \<and>
     (\<forall>k \<in> {''cgst'', ''sgst'', ''igst'', ''cess''}. \<forall>v. jfind tb k = Some v \<longrightarrow> is_number v)"
proof -
  have num: "\<forall>v. jfind tb k = Some v \<longrightarrow> is_number v" if "money_or_0 tb k = Inr c" for tb k c
    using that toCents_number by (auto simp: money_or_0_def)
  obtain tb c s i e b where "jfind iv ''tax_breakdown'' = Some tb"
    and "money_or_0 tb ''cgst'' = Inr c" "money_or_0 tb ''sgst'' = Inr s"
    and "money_or_0 tb ''igst'' = Inr i" "money_or_0 tb ''cess'' = Inr e" and "m' = m\<lparr>tax := b\<rparr>"
    using assms unfolding vs_tax_def bindE_eq_Inr object_field_Inr Let_def by blast
  with num show ?thesis by auto
qed

lemma vs_irp_Inr:
  assumes "vs_irp doc m = Inr m'"
  shows "(case jfind doc ''irp'' of None \<Rightarrow> m' = m
     | Some j \<Rightarrow> jfind j ''reported_on'' = map_option JString (irp_reported_on m') \<and>
         (\<exists>r. m' = m\<lparr>irp_reported_on := r\<rparr>))"
proof (cases "jfind doc ''irp''")
  case (Some j)
  then obtain r where "jfind j ''reported_on'' = map_option JString r" and "m' = m\<lparr>irp_reported_on := r\<rparr>"
    using assms unfolding vs_irp_def Some option.case bindE_eq_Inr opt_string_Inr by blast
  then show ?thesis using Some by auto
qed (use assms in \<open>simp add: vs_irp_def\<close>)

lemma validated_agrees:
  assumes "validateAndSanitize doc = Inr m"
  shows "agrees doc m"
proof -
  obtain m1 m2 j m3 m4 m5 m6 where j: "jfind doc ''invoice'' = Some j" and
    s: "vs_supplier doc StateMatrix0 = Inr m1" "vs_buyer doc m1 = Inr m2" "vs_invoice j m2 = Inr m3"
      "vs_line_items j m3 = Inr m4" "vs_tax j m4 = Inr m5" "vs_total j m5 = Inr m6" "vs_irp doc m6 = Inr m"
    using assms unfolding validateAndSanitize_def bindE_eq_Inr object_field_Inr by blast
  obtain its where l: "m4 = m3\<lparr>line_items := its\<rparr>" using vs_line_items_ok [OF s(4)] by blast
  obtain c where v: "m6 = m5\<lparr>total_value_cents := c\<rparr>"
    using s(6) by (auto simp: vs_total_def bindE_eq_Inr split: option.splits)
  obtain tb b where t: "jfind j ''tax_breakdown'' = Some tb" "m5 = m4\<lparr>tax := b\<rparr>"
    "\<forall>k \<in> {''cgst'', ''sgst'', ''igst'', ''cess''}. \<forall>v. jfind tb k = Some v \<longrightarrow> is_number v"
    using vs_tax_Inr [OF s(5)] by blast
  obtain sj where sj: "jfind doc ''supplier'' = Some sj"
    "case jfind sj ''aato_crore'' of None \<Rightarrow> aato_crore m1 = None
      | Some v \<Rightarrow> is_number v \<and> (\<exists>d. get_double v = Inr d \<and> aato_crore m1 = Some d)"
    "buyer_gstin m1 = None" "irp_reported_on m1 = None"
    using vs_supplier_Inr [OF s(1)] by (auto simp: StateMatrix0_def)
  have six: "aato_crore m6 = aato_crore m1" "buyer_gstin m6 = buyer_gstin m2" "irp_reported_on m6 = None"
      "place_of_supply m6 = place_of_supply m3" "hsn_string m6 = hsn_string m3"
      "classification m6 = classification m3" "irn_present m6 = irn_present m3"
    using vs_buyer_Inr [OF s(2)] vs_invoice_Inr [OF s(3)] l t(2) v sj(4) by simp_all
  then have fin: "aato_crore m = aato_crore m1" "buyer_gstin m = buyer_gstin m2"
      "place_of_supply m = place_of_supply m3" "hsn_string m = hsn_string m3"
      "classification m = classification m3" "irn_present m = irn_present m3"
    using vs_irp_Inr [OF s(7)] by (auto split: option.splits)
  show ?thesis
    unfolding agrees_def
  proof (intro exI conjI)
    show "jfind doc ''supplier'' = Some sj" "jfind doc ''invoice'' = Some j" "jfind j ''tax_breakdown'' = Some tb"
      using sj j t by auto
    show "case jfind sj ''aato_crore'' of None \<Rightarrow> aato_crore m = None
      | Some v \<Rightarrow> is_number v \<and> (\<exists>d. get_double v = Inr d \<and> aato_crore m = Some d)"
      using sj(2) by (simp only: fin(1))
    show "\<forall>k \<in> {''cgst'', ''sgst'', ''igst'', ''cess''}. \<forall>v. jfind tb k = Some v \<longrightarrow> is_number v"
      by (rule t(3))
    show "case jfind doc ''buyer'' of None \<Rightarrow> buyer_gstin m = None
      | Some b \<Rightarrow> jfind b ''gstin'' = map_option JString (buyer_gstin m)"
      using vs_buyer_Inr [OF s(2)] sj(3) fin by (simp split: option.splits)
    show "case jfind doc ''irp'' of None \<Rightarrow> irp_reported_on m = None
      | Some j \<Rightarrow> jfind j ''reported_on'' = map_option JString (irp_reported_on m)"
      using vs_irp_Inr [OF s(7)] six by (simp split: option.splits)
  qed (use vs_invoice_Inr [OF s(3)] fin in simp_all)
qed

lemma agrees_facts:
  assumes "agrees doc m"
  shows "resolvePath doc ''invoice.irn_present'' = Some (JBool (irn_present m))"
    and "resolvePath doc ''invoice.place_of_supply'' = Some (JString (place_of_supply m))"
    and "resolvePath doc ''invoice.hsn_string'' = Some (JString (hsn_string m))"
    and "resolvePath doc ''invoice.classification'' = Some (JString (classification_name (classification m)))"
    and "resolvePath doc ''irp.reported_on'' = map_option JString (irp_reported_on m)"
    and "resolvePath doc ''buyer.gstin'' = map_option JString (buyer_gstin m)"
    and "case resolvePath doc ''supplier.aato_crore'' of None \<Rightarrow> aato_crore m = None
      | Some v \<Rightarrow> is_number v \<and> (\<exists>d. get_double v = Inr d \<and> aato_crore m = Some d)"
    and "resolvePath doc ''invoice.tax_breakdown.cgst'' = Some c \<Longrightarrow> is_number c"
    and "resolvePath doc ''invoice.tax_breakdown.sgst'' = Some s \<Longrightarrow> is_number s"
proof -
  obtain sj iv tb where a: "jfind doc ''supplier'' = Some sj" "jfind doc ''invoice'' = Some iv"
    "jfind iv ''tax_breakdown'' = Some tb"
    "case jfind sj ''aato_crore'' of None \<Rightarrow> aato_crore m = None
      | Some v \<Rightarrow> is_number v \<and> (\<exists>d. get_double v = Inr d \<and> aato_crore m = Some d)"
    "jfind iv ''irn_present'' = Some (JBool (irn_present m))"
    "jfind iv ''place_of_supply'' = Some (JString (place_of_supply m))"
    "jfind iv ''hsn_string'' = Some (JString (hsn_string m))"
    "jfind iv ''classification'' = Some (JString (classification_name (classification m)))"
    "\<forall>k \<in> {''cgst'', ''sgst'', ''igst'', ''cess''}. \<forall>v. jfind tb k = Some v \<longrightarrow> is_number v"
    "case jfind doc ''buyer'' of None \<Rightarrow> buyer_gstin m = None
      | Some b \<Rightarrow> jfind b ''gstin'' = map_option JString (buyer_gstin m)"
    "case jfind doc ''irp'' of None \<Rightarrow> irp_reported_on m = None
      | Some j \<Rightarrow> jfind j ''reported_on'' = map_option JString (irp_reported_on m)"
    using assms unfolding agrees_def by blast
  have two: "resolvePath doc (''invoice'' @ ''.'' @ k) = jfind iv k"
    if "CHR ''.'' \<notin> set k" "CHR ''['' \<notin> set k" for k
    using a(2) that by (subst resolvePath_2) simp_all
  show "resolvePath doc ''invoice.irn_present'' = Some (JBool (irn_present m))"
    using two [of "''irn_present''"] a(5) by simp
  show "resolvePath doc ''invoice.place_of_supply'' = Some (JString (place_of_supply m))"
    using two [of "''place_of_supply''"] a(6) by simp
  show "resolvePath doc ''invoice.hsn_string'' = Some (JString (hsn_string m))"
    using two [of "''hsn_string''"] a(7) by simp
  show "resolvePath doc ''invoice.classification'' = Some (JString (classification_name (classification m)))"
    using two [of "''classification''"] a(8) by simp
  show "resolvePath doc ''irp.reported_on'' = map_option JString (irp_reported_on m)"
    using resolvePath_2 [of "''irp''" "''reported_on''" doc] a(11) by (simp split: option.splits)
  show "resolvePath doc ''buyer.gstin'' = map_option JString (buyer_gstin m)"
    using resolvePath_2 [of "''buyer''" "''gstin''" doc] a(10) by (simp split: option.splits)
  show "case resolvePath doc ''supplier.aato_crore'' of None \<Rightarrow> aato_crore m = None
      | Some v \<Rightarrow> is_number v \<and> (\<exists>d. get_double v = Inr d \<and> aato_crore m = Some d)"
    using resolvePath_2 [of "''supplier''" "''aato_crore''" doc] a(1,4) by simp
  have three: "resolvePath doc (''invoice'' @ ''.'' @ ''tax_breakdown'' @ ''.'' @ k) = jfind tb k"
    if "CHR ''.'' \<notin> set k" "CHR ''['' \<notin> set k" for k
    using a(2,3) that by (subst resolvePath_3) simp_all
  show "is_number c" if "resolvePath doc ''invoice.tax_breakdown.cgst'' = Some c"
    using three [of "''cgst''"] a(9) that by simp
  show "is_number s" if "resolvePath doc ''invoice.tax_breakdown.sgst'' = Some s"
    using three [of "''sgst''"] a(9) that by simp
qed

section \<open>The verdicts\<close>

lemma tokens_2026:
  "template_tokens (message_template spec_EINV_001) = [''aato_crore'']"
  "template_tokens (message_template spec_IRP_002) = []"
  "template_tokens (message_template spec_SPLIT_003) = []"
  "template_tokens (message_template spec_SPLIT_004) = []"
  "template_tokens (message_template spec_HSN_005) = [''line_index'', ''hsn'']"
  "template_tokens (message_template spec_CHRG_006) = [''sgst'', ''cgst'']"
  "template_tokens (message_template spec_CLASS_007) = []"
  by (simp_all add: specs_2026_defs)

lemma number_scalar: "is_number v \<Longrightarrow> \<not> is_container v"
  by (cases v) (auto simp: is_container_def)

lemma messages_2026:
  assumes "agrees doc m"
    and "spec \<in> {spec_EINV_001, spec_IRP_002, spec_SPLIT_003, spec_SPLIT_004, spec_HSN_005, spec_CHRG_006, spec_CLASS_007}"
  shows "\<exists>out. substitute ft doc (fact_table m doc) (message_template spec) = Inr out"
proof (rule substitute_scalar)
  fix tok path v
  assume t: "tok \<in> set (template_tokens (message_template spec))" "map_of template_aliases tok = Some path"
    and v: "resolvePath doc path = Some v"
  have "path \<in> {''supplier.aato_crore'', ''invoice.hsn_string'', ''invoice.tax_breakdown.sgst'', ''invoice.tax_breakdown.cgst''}"
    using t assms(2) by (auto simp: tokens_2026 template_aliases_def)
  then show "\<not> is_container v"
    using v agrees_facts [OF assms(1)] number_scalar
    by (auto simp: is_container_def)
qed

text \<open>
  The outcome of a condition without its message: whether the \<open>when\<close> gate let the rule through,
  and whether it is violated.
\<close>

definition rule_outcome :: "json \<Rightarrow> StateMatrix \<Rightarrow> json \<Rightarrow> json \<Rightarrow> (bool \<times> bool) result" where
  "rule_outcome ths m doc cond =
     bindE (value_str cond ''operator'' ''AND'') (\<lambda>op.
     bindE (case jfind cond ''when'' of
         None \<Rightarrow> Inr True
       | Some w \<Rightarrow> bindE (evalCheck ths m doc w) (\<lambda>o'. Inr (fired o'))) (\<lambda>gated.
     if \<not> gated then Inr (False, False)
     else bindE (case jfind cond ''checks'' of
         Some (JArray cs) \<Rightarrow> bindE (mapE (evalCheck ths m doc) cs) (\<lambda>os. Inr (combine op os))
       | _ \<Rightarrow> Inr (False, [])) (\<lambda>(viol, labs). Inr (True, viol))))"

lemma evalRule_outcome:
  assumes "rule_outcome ths m doc (rule_condition spec) = Inr (g, v)"
    and "\<exists>out. substitute ft doc (fact_table m doc) (message_template spec) = Inr out"
  shows "\<exists>r. evalRule ft ths m doc spec = Inr r \<and> res_id r = rule_id spec \<and>
     skipped r = (\<not> g) \<and> violated r = v"
proof -
  obtain op gated where op: "value_str (rule_condition spec) ''operator'' ''AND'' = Inr op"
    and gated: "(case jfind (rule_condition spec) ''when'' of
         None \<Rightarrow> Inr True
       | Some w \<Rightarrow> bindE (evalCheck ths m doc w) (\<lambda>o'. Inr (fired o'))) = Inr gated"
    using assms(1) unfolding rule_outcome_def bindE_eq_Inr by blast
  show ?thesis
  proof (cases gated)
    case False
    then show ?thesis using assms op gated
      by (simp add: rule_outcome_def evalRule_def Let_def new_result_def)
  next
    case True
    then obtain viol labs where c: "(case jfind (rule_condition spec) ''checks'' of
         Some (JArray cs) \<Rightarrow> bindE (mapE (evalCheck ths m doc) cs) (\<lambda>os. Inr (combine op os))
       | _ \<Rightarrow> Inr (False, [])) = Inr (viol, labs)"
      using assms(1) op gated by (auto simp: rule_outcome_def bindE_eq_Inr)
    then have "g" "v = viol" using assms(1) True op gated by (auto simp: rule_outcome_def)
    with True c show ?thesis using assms(2) op gated
      by (auto simp: evalRule_def Let_def new_result_def)
  qed
qed

lemma rnd_numeral: "(numeral k :: int) < 2 ^ 53 \<Longrightarrow> rnd (numeral k) = Fin (numeral k)"
  using rnd_of_int [of "numeral k"] by simp

lemma rnd_1: "rnd 1 = Fin 1"
  using rnd_of_int [of 1] by simp

lemmas eval_2026 = rule_outcome_def evalCheck_field evalCheck_group evalField_def canonical_op_def
  op_verdict_def resolveFact_def check_literal_def value_or_def omap_get_def valuesEqualAsScalar_def
  combine_def group_fires_def classification_name_def Let_def rnd_numeral

lemma threshold_5: "resolveThreshold thresholds_2026 ''thresholds.e_invoicing_aato_crore'' = Some (JUInt 5)"
  by (simp add: resolveThreshold_def starts_with_def resolvePath_def split_at_single resolve_segment_key
      thresholds_2026_def omap_get_def)

lemma outcome_EINV_001:
  assumes "agrees doc m"
  shows "rule_outcome thresholds_2026 m doc cond_EINV_001 =
     Inr (aato_crore m \<noteq> None,
          case aato_crore m of None \<Rightarrow> False | Some a \<Rightarrow> dlt (Fin 5) a \<and> \<not> irn_present m)"
  using agrees_facts(1,7) [OF assms] threshold_5
  by (auto simp: cond_EINV_001_def eval_2026 scalarLess_def split: option.splits)

lemma outcome_IRP_002:
  assumes "agrees doc m"
  shows "rule_outcome ths m doc cond_IRP_002 =
     Inr (irn_present m, irn_present m \<and> irp_reported_on m = None)"
  using agrees_facts(1,5) [OF assms]
  by (auto simp: cond_IRP_002_def eval_2026)

lemma outcome_SPLIT_003:
  assumes "agrees doc m"
  shows "rule_outcome ths m doc cond_SPLIT_003 =
     Inr (True, place_of_supply m = ''same_as_supplier_state'' \<and> has_igst (tax m))"
  using agrees_facts(2) [OF assms]
  by (auto simp: cond_SPLIT_003_def eval_2026)

lemma outcome_SPLIT_004:
  assumes "agrees doc m"
  shows "rule_outcome ths m doc cond_SPLIT_004 =
     Inr (True, place_of_supply m \<noteq> ''same_as_supplier_state'' \<and> has_cgst_sgst (tax m))"
  using agrees_facts(2) [OF assms]
  by (auto simp: cond_SPLIT_004_def eval_2026)

lemma outcome_HSN_005:
  assumes "agrees doc m"
  shows "rule_outcome ths m doc cond_HSN_005 = Inr (True, length (hsn_string m) \<notin> {4, 6, 8})"
  using agrees_facts(3) [OF assms]
  by (auto simp: cond_HSN_005_def eval_2026 token_allowed_def d_to_size_def d_trunc_def)

lemma outcome_CLASS_007:
  assumes "agrees doc m"
  shows "rule_outcome ths m doc cond_CLASS_007 =
     Inr (True, classification m = UNDETERMINED \<or> classification m \<noteq> B2C \<and> buyer_gstin m = None)"
  using agrees_facts(4,6) [OF assms]
  by (cases "classification m") (auto simp: cond_CLASS_007_def eval_2026)

text \<open>The two tax heads as the document states them: present, and equal as doubles.\<close>

definition heads_match :: "json \<Rightarrow> bool" where
  "heads_match doc \<longleftrightarrow>
     (case (resolvePath doc ''invoice.tax_breakdown.cgst'', resolvePath doc ''invoice.tax_breakdown.sgst'') of
        (Some c, Some s) \<Rightarrow> (case (get_double c, get_double s) of (Inr x, Inr y) \<Rightarrow> deq y x | _ \<Rightarrow> False)
      | _ \<Rightarrow> False)"

lemma outcome_CHRG_006:
  assumes "agrees doc m"
  shows "rule_outcome ths m doc cond_CHRG_006 =
     Inr (\<not> has_igst (tax m), \<not> has_igst (tax m) \<and> \<not> heads_match doc)"
proof (cases "resolvePath doc ''invoice.tax_breakdown.cgst''")
  case None
  then show ?thesis
    by (auto simp: cond_CHRG_006_def eval_2026 heads_match_def split: option.splits)
next
  case c: (Some c)
  then obtain x where x: "is_number c" "get_double c = Inr x"
    using agrees_facts(8) [OF assms] number_double by blast
  show ?thesis
  proof (cases "resolvePath doc ''invoice.tax_breakdown.sgst''")
    case None
    with c show ?thesis by (auto simp: cond_CHRG_006_def eval_2026 heads_match_def)
  next
    case (Some s)
    then obtain y where "is_number s" "get_double s = Inr y"
      using agrees_facts(9) [OF assms] number_double by blast
    with c x Some show ?thesis by (auto simp: cond_CHRG_006_def eval_2026 heads_match_def)
  qed
qed

definition rule_verdict :: "StateMatrix \<Rightarrow> json \<Rightarrow> string \<Rightarrow> bool \<times> bool" where
  "rule_verdict m doc rid =
     (if rid = ''R-EINV-001'' then
        (aato_crore m \<noteq> None,
         case aato_crore m of None \<Rightarrow> False | Some a \<Rightarrow> dlt (Fin 5) a \<and> \<not> irn_present m)
      else if rid = ''R-IRP-002'' then (irn_present m, irn_present m \<and> irp_reported_on m = None)
      else if rid = ''R-SPLIT-003'' then
        (True, place_of_supply m = ''same_as_supplier_state'' \<and> has_igst (tax m))
      else if rid = ''R-SPLIT-004'' then
        (True, place_of_supply m \<noteq> ''same_as_supplier_state'' \<and> has_cgst_sgst (tax m))
      else if rid = ''R-HSN-005'' then (True, length (hsn_string m) \<notin> {4, 6, 8})
      else if rid = ''R-CHRG-006'' then
        (\<not> has_igst (tax m), \<not> has_igst (tax m) \<and> \<not> heads_match doc)
      else (True, classification m = UNDETERMINED \<or> classification m \<noteq> B2C \<and> buyer_gstin m = None))"

lemma spec_conditions:
  "rule_condition spec_EINV_001 = cond_EINV_001" "rule_id spec_EINV_001 = ''R-EINV-001''"
  "rule_condition spec_IRP_002 = cond_IRP_002" "rule_id spec_IRP_002 = ''R-IRP-002''"
  "rule_condition spec_SPLIT_003 = cond_SPLIT_003" "rule_id spec_SPLIT_003 = ''R-SPLIT-003''"
  "rule_condition spec_SPLIT_004 = cond_SPLIT_004" "rule_id spec_SPLIT_004 = ''R-SPLIT-004''"
  "rule_condition spec_HSN_005 = cond_HSN_005" "rule_id spec_HSN_005 = ''R-HSN-005''"
  "rule_condition spec_CHRG_006 = cond_CHRG_006" "rule_id spec_CHRG_006 = ''R-CHRG-006''"
  "rule_condition spec_CLASS_007 = cond_CLASS_007" "rule_id spec_CLASS_007 = ''R-CLASS-007''"
  by (simp_all add: specs_2026_defs)

lemma rule_2026:
  assumes "agrees doc m" and "spec \<in> set (engine_rules engine_2026)"
  shows "\<exists>r. evalRule ft thresholds_2026 m doc spec = Inr r \<and> res_id r = rule_id spec \<and>
     (\<not> skipped r, violated r) = rule_verdict m doc (rule_id spec)"
proof -
  have spec: "spec \<in> {spec_EINV_001, spec_IRP_002, spec_SPLIT_003, spec_SPLIT_004, spec_HSN_005, spec_CHRG_006, spec_CLASS_007}"
    using assms(2) by (auto simp: engine_2026_def)
  have "rule_outcome thresholds_2026 m doc (rule_condition spec) = Inr (rule_verdict m doc (rule_id spec))"
    using spec outcome_EINV_001 [OF assms(1)] outcome_IRP_002 [OF assms(1)] outcome_SPLIT_003 [OF assms(1)]
      outcome_SPLIT_004 [OF assms(1)] outcome_HSN_005 [OF assms(1)] outcome_CHRG_006 [OF assms(1)]
      outcome_CLASS_007 [OF assms(1)]
    by (auto simp: spec_conditions rule_verdict_def)
  then show ?thesis
    using evalRule_outcome messages_2026 [OF assms(1) spec]
    by (cases "rule_verdict m doc (rule_id spec)") fastforce
qed

lemma mapE_total_list_all2:
  "(\<And>x. x \<in> set xs \<Longrightarrow> \<exists>y. f x = Inr y \<and> P x y) \<Longrightarrow> \<exists>ys. mapE f xs = Inr ys \<and> list_all2 P xs ys"
proof (induction xs)
  case (Cons x xs)
  obtain y where "f x = Inr y" "P x y" using Cons.prems by auto
  moreover obtain ys where "mapE f xs = Inr ys" "list_all2 P xs ys" using Cons by auto
  ultimately show ?case by auto
qed simp

lemma evaluate_agrees:
  assumes "agrees doc m"
  shows "\<exists>rs. evaluate ft engine_2026 m doc = Inr rs \<and>
     map (\<lambda>r. (res_id r, \<not> skipped r, violated r)) rs =
     map (\<lambda>spec. (rule_id spec, rule_verdict m doc (rule_id spec))) (engine_rules engine_2026)"
proof -
  have "\<exists>rs. mapE (evalRule ft thresholds_2026 m doc) (engine_rules engine_2026) = Inr rs \<and>
     list_all2 (\<lambda>spec r. res_id r = rule_id spec \<and>
       (\<not> skipped r, violated r) = rule_verdict m doc (rule_id spec)) (engine_rules engine_2026) rs"
    by (rule mapE_total_list_all2) (rule rule_2026 [OF assms])
  then obtain rs where "mapE (evalRule ft thresholds_2026 m doc) (engine_rules engine_2026) = Inr rs"
    and l: "list_all2 (\<lambda>spec r. res_id r = rule_id spec \<and>
       (\<not> skipped r, violated r) = rule_verdict m doc (rule_id spec)) (engine_rules engine_2026) rs"
    by blast
  moreover have "map (\<lambda>r. (res_id r, \<not> skipped r, violated r)) rs =
     map (\<lambda>spec. (rule_id spec, rule_verdict m doc (rule_id spec))) (engine_rules engine_2026)"
    using l by (induction rule: list_all2_induct) auto
  ultimately show ?thesis by (simp add: evaluate_def engine_2026_def)
qed

text \<open>
  Property C11. The shipped rules, on every document the validator accepts: \<open>evaluateDocument\<close>
  never throws, it returns one result per rule in the order of the file, and which rules are
  skipped and which are violated is the following function of the validated matrix (and, for
  the equality of the two state heads, of the document).
\<close>

theorem shipped_rules_verdicts:
  assumes "validateAndSanitize doc = Inr m"
  shows "\<exists>rs. evaluateDocument ft engine_2026 doc = Inr rs \<and>
     map (\<lambda>r. (res_id r, \<not> skipped r, violated r)) rs =
       [(''R-EINV-001'', aato_crore m \<noteq> None,
           case aato_crore m of None \<Rightarrow> False | Some a \<Rightarrow> dlt (Fin 5) a \<and> \<not> irn_present m),
        (''R-IRP-002'', irn_present m, irn_present m \<and> irp_reported_on m = None),
        (''R-SPLIT-003'', True, place_of_supply m = ''same_as_supplier_state'' \<and> has_igst (tax m)),
        (''R-SPLIT-004'', True, place_of_supply m \<noteq> ''same_as_supplier_state'' \<and> has_cgst_sgst (tax m)),
        (''R-HSN-005'', True, length (hsn_string m) \<notin> {4, 6, 8}),
        (''R-CHRG-006'', \<not> has_igst (tax m), \<not> has_igst (tax m) \<and> \<not> heads_match doc),
        (''R-CLASS-007'', True,
           classification m = UNDETERMINED \<or> classification m \<noteq> B2C \<and> buyer_gstin m = None)]"
  using evaluate_agrees [OF validated_agrees [OF assms], of ft] assms
  by (simp add: evaluateDocument_def engine_2026_def specs_2026_defs rule_verdict_def)

section \<open>Configuration and messages\<close>

lemma resolveThreshold_aato:
  "resolveThreshold ths ''thresholds.e_invoicing_aato_crore'' = jfind ths ''e_invoicing_aato_crore''"
  by (simp add: resolveThreshold_def starts_with_def resolvePath_def split_at_single resolve_segment_key
      split: option.split)

text \<open>
  The e-invoicing threshold is single-sourced: whatever number the \<open>thresholds\<close> of
  the loaded file hold replaces the literal 5 of rule R-EINV-001.
\<close>

theorem einvoicing_threshold_from_config:
  assumes "validateAndSanitize doc = Inr m"
    and "jfind ths ''e_invoicing_aato_crore'' = Some v" and "get_double v = Inr t"
  shows "\<exists>r. evalRule ft ths m doc spec_EINV_001 = Inr r \<and>
    violated r = (case aato_crore m of None \<Rightarrow> False | Some a \<Rightarrow> dlt t a \<and> \<not> irn_present m)"
proof -
  have ag: "agrees doc m" using assms(1) by (rule validated_agrees)
  have v: "is_number v" using assms(3) by (cases v) auto
  have "rule_outcome ths m doc cond_EINV_001 =
     Inr (aato_crore m \<noteq> None,
          case aato_crore m of None \<Rightarrow> False | Some a \<Rightarrow> dlt t a \<and> \<not> irn_present m)"
    using agrees_facts(1,7) [OF ag] assms(2,3) v
    by (auto simp: cond_EINV_001_def eval_2026 scalarLess_def resolveThreshold_aato split: option.splits)
  then show ?thesis
    using evalRule_outcome [of ths m doc spec_EINV_001] messages_2026 [OF ag, of spec_EINV_001 ft]
    by (fastforce simp: spec_conditions)
qed

theorem einvoicing_threshold_from_config_witness:
  "\<exists>r. evalRule (\<lambda>_. []) (JObject [(''e_invoicing_aato_crore'', JFloat (Fin (1 / 2)))]) default_matrix
      buildDefaultDocument spec_EINV_001 = Inr r \<and> violated r = False"
  using einvoicing_threshold_from_config [OF validate_default,
      of "JObject [(''e_invoicing_aato_crore'', JFloat (Fin (1 / 2)))]" "JFloat (Fin (1 / 2))" "Fin (1 / 2)" "\<lambda>_. []"]
  by (simp add: omap_get_def default_matrix_def)

text \<open>
  R-HSN-005 looks at the length of the whole \<open>hsn_string\<close>, which the extraction
  schema defines as the comma-delimited list of all HSN codes: an invoice that lists two codes,
  each of a valid length, always raises the gap.
\<close>

theorem valid_hsn_list_flagged:
  assumes "validateAndSanitize doc = Inr m" and "hsn_string m = a @ '','' @ b"
    and "length a \<in> {4, 6, 8}" and "length b \<in> {4, 6, 8}"
  shows "\<exists>r. evalRule ft thresholds_2026 m doc spec_HSN_005 = Inr r \<and> violated r"
proof -
  have ag: "agrees doc m" using assms(1) by (rule validated_agrees)
  have "length (hsn_string m) \<notin> {4, 6, 8}" using assms(2,3,4) by auto
  then show ?thesis
    using evalRule_outcome [of thresholds_2026 m doc spec_HSN_005] messages_2026 [OF ag, of spec_HSN_005 ft]
      outcome_HSN_005 [OF ag]
    by (fastforce simp: spec_conditions)
qed

theorem valid_hsn_list_flagged_witness:
  "\<exists>r. evalRule (\<lambda>_. []) thresholds_2026 (default_matrix\<lparr>hsn_string := ''8471,847130''\<rparr>)
      (document_with ''hsn_string'' (JString ''8471,847130'')) spec_HSN_005 = Inr r \<and> violated r"
  using valid_hsn_list_flagged [OF validate_with_hsn, of "''8471,847130''" "''8471''" "''847130''" "(\<lambda>_. [])"] by simp

theorem evaluate_shape_witness:
  "\<exists>rs. evaluate (\<lambda>_. []) engine_2026 default_matrix buildDefaultDocument = Inr rs \<and>
     map res_id rs = map rule_id (engine_rules engine_2026) \<and> [] \<notin> set (map res_id rs) \<and>
     list_all (\<lambda>r. \<not> (violated r \<and> skipped r) \<and>
       (violated r \<or> (message r = [] \<and> fired_checks r = []))) rs"
proof -
  obtain rs where rs: "evaluate (\<lambda>_. []) engine_2026 default_matrix buildDefaultDocument = Inr rs"
    using evaluate_agrees [OF validated_agrees [OF validate_default]] by blast
  show ?thesis using evaluate_shape [OF load_2026 rs] rs by blast
qed

text \<open>The built-in document raises no gap.\<close>

theorem shipped_rules_verdicts_witness:
  "\<exists>rs. evaluateDocument (\<lambda>_. []) engine_2026 buildDefaultDocument = Inr rs \<and>
     list_all (\<lambda>r. \<not> violated r) rs"
proof -
  obtain rs where e: "evaluateDocument (\<lambda>_. []) engine_2026 buildDefaultDocument = Inr rs"
    and v: "map (\<lambda>r. (res_id r, \<not> skipped r, violated r)) rs =
       [(''R-EINV-001'', True, False), (''R-IRP-002'', True, False), (''R-SPLIT-003'', True, False),
        (''R-SPLIT-004'', True, False), (''R-HSN-005'', True, False), (''R-CHRG-006'', False, False),
        (''R-CLASS-007'', True, False)]"
    using shipped_rules_verdicts [OF validate_default, of "(\<lambda>_. [])"] by (auto simp: default_matrix_def)
  have "list_all (\<lambda>r. \<not> violated r) rs = list_all (\<lambda>(i, s, v). \<not> v) (map (\<lambda>r. (res_id r, \<not> skipped r, violated r)) rs)"
    by (simp add: list_all_iff)
  then show ?thesis using e by (simp add: v)
qed

text \<open>
  The text of the HSN gap when the fact table binds neither \<open>line_index\<close> nor a
  full path \<open>hsn\<close>: the HSN is substituted, and the token \<open>{line_index}\<close>, which no component ever
  binds, reaches the user verbatim.
\<close>

theorem hsn_message_text:
  assumes "omap_get (full_facts t) ''line_index'' = None" and "omap_get (bare_facts t) ''line_index'' = None"
    and "omap_get (full_facts t) ''hsn'' = None"
    and "resolvePath doc ''invoice.hsn_string'' = Some (JString h)"
  shows "\<exists>rest. substitute ft doc t (message_template spec_HSN_005) =
     Inr (''Line item {line_index} reports HSN '' @ [CHR 0x27] @ h @ [CHR 0x27] @ rest) \<and>
     starts_with ''. Under CGST'' rest"
  using assms
  by (simp add: spec_HSN_005_def resolveToken_def template_aliases_def formatValue_def starts_with_def)

theorem hsn_message_text_witness:
  "\<exists>rest. substitute (\<lambda>_. []) buildDefaultDocument \<lparr>full_facts = [], bare_facts = []\<rparr>
      (message_template spec_HSN_005) =
     Inr (''Line item {line_index} reports HSN '' @ [CHR 0x27] @ ''84713000'' @ [CHR 0x27] @ rest)"
proof -
  have "resolvePath buildDefaultDocument ''invoice.hsn_string'' = Some (JString ''84713000'')"
    using agrees_facts(3) [OF validated_agrees [OF validate_default]] by (simp add: default_matrix_def)
  then show ?thesis
    using hsn_message_text [of "\<lparr>full_facts = [], bare_facts = []\<rparr>" buildDefaultDocument "''84713000''" "\<lambda>_. []"]
    by (auto simp: omap_get_def)
qed

end
