(* ===== verification/Json_Lexer.thy ===== *)
theory Json_Lexer
  imports Json_Dump
begin

text \<open>
  The lexer of the vendored nlohmann::json (class \<open>lexer\<close> of backend/include/json.hpp), which
  reads the rules, the model's answers and the stored documents. The state is the object's:
  the input still in the adapter, the current character (\<open>None\<close> for end of file), the pushed-back
  flag, the position, the raw token, the token buffer, the last error message and the last
  number. Comments are never ignored by the program and the locale is "C", so \<open>scan_comment\<close>
  and the locale's decimal point do not occur. Every loop is a function on this state, total
  because each round takes a character from \<open>pending\<close>, the text the next calls of \<open>get\<close> see.
\<close>

section \<open>Tokens and state\<close>

datatype token_type =
    Uninitialized
  | Literal_true
  | Literal_false
  | Literal_null
  | Value_string
  | Value_unsigned
  | Value_integer
  | Value_float
  | Begin_array
  | Begin_object
  | End_array
  | End_object
  | Name_separator
  | Value_separator
  | Token_parse_error
  | End_of_input
  | Literal_or_value

definition quoted :: "string \<Rightarrow> string" where
  "quoted s = [CHR 0x27] @ s @ [CHR 0x27]"

fun token_type_name :: "token_type \<Rightarrow> string" where
  "token_type_name Uninitialized = ''<uninitialized>''"
| "token_type_name Literal_true = ''true literal''"
| "token_type_name Literal_false = ''false literal''"
| "token_type_name Literal_null = ''null literal''"
| "token_type_name Value_string = ''string literal''"
| "token_type_name Value_unsigned = ''number literal''"
| "token_type_name Value_integer = ''number literal''"
| "token_type_name Value_float = ''number literal''"
| "token_type_name Begin_array = quoted ''[''"
| "token_type_name Begin_object = quoted ''{''"
| "token_type_name End_array = quoted '']''"
| "token_type_name End_object = quoted ''}''"
| "token_type_name Name_separator = quoted '':''"
| "token_type_name Value_separator = quoted '',''"
| "token_type_name Token_parse_error = ''<parse error>''"
| "token_type_name End_of_input = ''end of input''"
| "token_type_name Literal_or_value = quoted ''['' @ '', '' @ quoted ''{'' @ '', or a literal''"

record lexer =
  ia :: string
  current :: "char option"
  next_unget :: bool
  chars_read_total :: nat
  chars_read_current_line :: nat
  lines_read :: nat
  token_string :: string
  token_buffer :: string
  error_message :: string
  value_integer :: int
  value_unsigned :: int
  value_float :: dbl

definition lexer0 :: "string \<Rightarrow> lexer" where
  "lexer0 s = \<lparr>ia = s, current = None, next_unget = False, chars_read_total = 0,
     chars_read_current_line = 0, lines_read = 0, token_string = [], token_buffer = [],
     error_message = [], value_integer = 0, value_unsigned = 0, value_float = Fin 0\<rparr>"

text \<open>The current character as a \<open>char\<close> (the conversion of the end-of-file value is byte 0xFF).\<close>

definition cur_char :: "lexer \<Rightarrow> char" where
  "cur_char L = (case current L of Some c \<Rightarrow> c | None \<Rightarrow> CHR 0xFF)"

section \<open>Input management\<close>

definition lreset :: "lexer \<Rightarrow> lexer" where
  "lreset L = L\<lparr>token_buffer := [], token_string := [cur_char L]\<rparr>"

definition get :: "lexer \<Rightarrow> lexer" where
  "get L =
     (let L1 = L\<lparr>chars_read_total := chars_read_total L + 1,
                 chars_read_current_line := chars_read_current_line L + 1\<rparr>;
          L2 = (if next_unget L1 then L1\<lparr>next_unget := False\<rparr>
                else (case ia L1 of [] \<Rightarrow> L1\<lparr>current := None\<rparr>
                      | c # s \<Rightarrow> L1\<lparr>current := Some c, ia := s\<rparr>));
          L3 = (case current L2 of None \<Rightarrow> L2 | Some c \<Rightarrow> L2\<lparr>token_string := token_string L2 @ [c]\<rparr>)
      in if current L3 = Some (CHR 0x0A)
         then L3\<lparr>lines_read := lines_read L3 + 1, chars_read_current_line := 0\<rparr> else L3)"

definition unget :: "lexer \<Rightarrow> lexer" where
  "unget L =
     (let L1 = L\<lparr>next_unget := True, chars_read_total := chars_read_total L - 1\<rparr>;
          L2 = (if chars_read_current_line L1 = 0
                then (if 0 < lines_read L1 then L1\<lparr>lines_read := lines_read L1 - 1\<rparr> else L1)
                else L1\<lparr>chars_read_current_line := chars_read_current_line L1 - 1\<rparr>)
      in (case current L2 of None \<Rightarrow> L2 | Some c \<Rightarrow> L2\<lparr>token_string := butlast (token_string L2)\<rparr>))"

definition add :: "char \<Rightarrow> lexer \<Rightarrow> lexer" where
  "add c L = L\<lparr>token_buffer := token_buffer L @ [c]\<rparr>"

definition add_current :: "lexer \<Rightarrow> lexer" where
  "add_current L = add (cur_char L) L"

text \<open>Setting the error message and returning the error token.\<close>

definition lex_fail :: "string \<Rightarrow> lexer \<Rightarrow> token_type \<times> lexer" where
  "lex_fail msg L = (Token_parse_error, L\<lparr>error_message := msg\<rparr>)"

definition get_token_string :: "lexer \<Rightarrow> string" where
  "get_token_string L =
     concat (map (\<lambda>c. if (of_char c :: nat) \<le> 0x1F
                      then ''<U+00'' @ hex_bytes (of_char c) @ ''>'' else [c]) (token_string L))"

text \<open>The text that the next calls of \<open>get\<close> read.\<close>

definition pending :: "lexer \<Rightarrow> string" where
  "pending L = (if next_unget L then (case current L of Some c \<Rightarrow> [c] | None \<Rightarrow> []) @ ia L else ia L)"

definition eof_ok :: "lexer \<Rightarrow> bool" where
  "eof_ok L \<longleftrightarrow> (next_unget L \<longrightarrow> current L = None \<longrightarrow> ia L = [])"

lemma get_pending:
  assumes "eof_ok L"
  shows "current (get L) = (case pending L of [] \<Rightarrow> None | c # s \<Rightarrow> Some c)"
    and "pending (get L) = tl (pending L)" and "eof_ok (get L)"
  using assms
  by (auto simp: get_def pending_def eof_ok_def Let_def split: option.split list.split)

lemma get_length: "length (pending (get L)) \<le> length (pending L)"
  by (auto simp: get_def pending_def Let_def split: option.split list.split)

lemma get_consumes: "current (get L) = Some c \<Longrightarrow> length (pending (get L)) < length (pending L)"
  by (auto simp: get_def pending_def Let_def split: option.splits list.splits if_splits)

lemma get_next_unget [simp]: "\<not> next_unget (get L)"
  by (simp add: get_def Let_def split: option.split list.split)

lemma get_buffer [simp]: "token_buffer (get L) = token_buffer L"
  by (simp add: get_def Let_def split: option.split list.split)

lemma get_read [simp]: "0 < chars_read_total (get L)"
  by (simp add: get_def Let_def split: option.split list.split)

lemma pending_updates [simp]:
  "pending (add c L) = pending L" "pending (add_current L) = pending L" "pending (lreset L) = pending L"
  "pending (L\<lparr>token_buffer := b\<rparr>) = pending L" "pending (L\<lparr>error_message := m\<rparr>) = pending L"
  "pending (L\<lparr>value_integer := i\<rparr>) = pending L" "pending (L\<lparr>value_unsigned := i\<rparr>) = pending L"
  "pending (L\<lparr>value_float := d\<rparr>) = pending L"
  by (simp_all add: pending_def add_def add_current_def lreset_def)

lemma pending_unget: "\<not> next_unget L \<Longrightarrow>
    pending (unget L) = (case current L of Some c \<Rightarrow> [c] | None \<Rightarrow> []) @ pending L"
  by (simp add: pending_def unget_def Let_def split: option.split)

section \<open>Strings\<close>

fun codepoint_from :: "nat list \<Rightarrow> int \<Rightarrow> lexer \<Rightarrow> int \<times> lexer" where
  "codepoint_from [] cp L = (cp, L)"
| "codepoint_from (f # fs) cp L =
     (let L' = get L in
      case current L' of
        None \<Rightarrow> (- 1, L')
      | Some ch \<Rightarrow> (let c = of_char ch in
          if 0x30 \<le> c \<and> c \<le> 0x39 then codepoint_from fs (cp + (c - 0x30) * 2 ^ f) L'
          else if 0x41 \<le> c \<and> c \<le> 0x46 then codepoint_from fs (cp + (c - 0x37) * 2 ^ f) L'
          else if 0x61 \<le> c \<and> c \<le> 0x66 then codepoint_from fs (cp + (c - 0x57) * 2 ^ f) L'
          else (- 1, L')))"

definition get_codepoint :: "lexer \<Rightarrow> int \<times> lexer" where
  "get_codepoint L = codepoint_from [12, 8, 4, 0] 0 L"

fun ranges_from :: "(nat \<times> nat) list \<Rightarrow> lexer \<Rightarrow> bool \<times> lexer" where
  "ranges_from [] L = (True, L)"
| "ranges_from ((lo, hi) # rs) L =
     (let L' = get L in
      case current L' of
        None \<Rightarrow> (False, L'\<lparr>error_message := ''invalid string: ill-formed UTF-8 byte''\<rparr>)
      | Some c \<Rightarrow>
          if lo \<le> of_char c \<and> of_char c \<le> hi then ranges_from rs (add c L')
          else (False, L'\<lparr>error_message := ''invalid string: ill-formed UTF-8 byte''\<rparr>))"

definition next_byte_in_range :: "(nat \<times> nat) list \<Rightarrow> lexer \<Rightarrow> bool \<times> lexer" where
  "next_byte_in_range rs L = ranges_from rs (add_current L)"

text \<open>The bytes of a code point, as the lexer adds them.\<close>

definition add_codepoint :: "int \<Rightarrow> lexer \<Rightarrow> lexer" where
  "add_codepoint cp L = fold (\<lambda>b. add (char_of b))
     (if cp < 0x80 then [cp]
      else if cp \<le> 0x7FF then [0xC0 + cp div 0x40, 0x80 + cp mod 0x40]
      else if cp \<le> 0xFFFF then [0xE0 + cp div 0x1000, 0x80 + cp div 0x40 mod 0x40, 0x80 + cp mod 0x40]
      else [0xF0 + cp div 0x40000, 0x80 + cp div 0x1000 mod 0x40, 0x80 + cp div 0x40 mod 0x40,
            0x80 + cp mod 0x40]) L"

text \<open>What a round of the loop of \<open>scan_string\<close> does: go on, or return a token.\<close>

datatype flow = Go lexer | Stop "token_type \<times> lexer"

definition bad_u :: string where
  "bad_u = ''invalid string: '' @ quoted [CHR 0x5C, CHR ''u''] @ '' must be followed by 4 hex digits''"

definition unicode_escape :: "lexer \<Rightarrow> flow" where
  "unicode_escape L =
     (case get_codepoint L of (cp1, L1) \<Rightarrow>
      if cp1 = - 1 then Stop (lex_fail bad_u L1)
      else if 0xD800 \<le> cp1 \<and> cp1 \<le> 0xDBFF then
        (let bad = ''invalid string: surrogate U+D800..U+DBFF must be followed by U+DC00..U+DFFF'';
             L2 = get L1; L3 = get L2 in
         if current L2 \<noteq> Some (CHR 0x5C) then Stop (lex_fail bad L2)
         else if current L3 \<noteq> Some (CHR ''u'') then Stop (lex_fail bad L3)
         else (case get_codepoint L3 of (cp2, L4) \<Rightarrow>
           if cp2 = - 1 then Stop (lex_fail bad_u L4)
           else if 0xDC00 \<le> cp2 \<and> cp2 \<le> 0xDFFF
             then Go (add_codepoint (cp1 * 1024 + cp2 - 0x35FDC00) L4)
           else Stop (lex_fail bad L4)))
      else if 0xDC00 \<le> cp1 \<and> cp1 \<le> 0xDFFF then
        Stop (lex_fail ''invalid string: surrogate U+DC00..U+DFFF must follow U+D800..U+DBFF'' L1)
      else Go (add_codepoint cp1 L1))"

definition string_escape :: "lexer \<Rightarrow> flow" where
  "string_escape L =
     (case current L of
        Some c \<Rightarrow>
          if c = CHR 0x22 then Go (add (CHR 0x22) L)
          else if c = CHR 0x5C then Go (add (CHR 0x5C) L)
          else if c = CHR ''/'' then Go (add (CHR ''/'') L)
          else if c = CHR ''b'' then Go (add (CHR 0x08) L)
          else if c = CHR ''f'' then Go (add (CHR 0x0C) L)
          else if c = CHR ''n'' then Go (add (CHR 0x0A) L)
          else if c = CHR ''r'' then Go (add (CHR 0x0D) L)
          else if c = CHR ''t'' then Go (add (CHR 0x09) L)
          else if c = CHR ''u'' then unicode_escape L
          else Stop (lex_fail ''invalid string: forbidden character after backslash'' L)
      | None \<Rightarrow> Stop (lex_fail ''invalid string: forbidden character after backslash'' L))"

definition control_names :: "string list" where
  "control_names = [''NUL'', ''SOH'', ''STX'', ''ETX'', ''EOT'', ''ENQ'', ''ACK'', ''BEL'', ''BS'', ''HT'',
     ''LF'', ''VT'', ''FF'', ''CR'', ''SO'', ''SI'', ''DLE'', ''DC1'', ''DC2'', ''DC3'', ''DC4'', ''NAK'',
     ''SYN'', ''ETB'', ''CAN'', ''EM'', ''SUB'', ''ESC'', ''FS'', ''GS'', ''RS'', ''US'']"

definition control_message :: "nat \<Rightarrow> string" where
  "control_message b =
     ''invalid string: control character U+00'' @ hex_bytes b @ '' ('' @ control_names ! b @
     '') must be escaped to '' @ [CHR 0x5C] @ ''u00'' @ hex_bytes b @
     (case map_of [(8, CHR ''b''), (9, CHR ''t''), (10, CHR ''n''), (12, CHR ''f''), (13, CHR ''r'')] b of
        Some e \<Rightarrow> '' or '' @ [CHR 0x5C, e] | None \<Rightarrow> [])"

text \<open>The ranges of the bytes that must follow a lead byte of a multi-byte sequence.\<close>

definition lead_ranges :: "nat \<Rightarrow> (nat \<times> nat) list option" where
  "lead_ranges b =
     (if 0xC2 \<le> b \<and> b \<le> 0xDF then Some [(0x80, 0xBF)]
      else if b = 0xE0 then Some [(0xA0, 0xBF), (0x80, 0xBF)]
      else if 0xE1 \<le> b \<and> b \<le> 0xEC \<or> b = 0xEE \<or> b = 0xEF then Some [(0x80, 0xBF), (0x80, 0xBF)]
      else if b = 0xED then Some [(0x80, 0x9F), (0x80, 0xBF)]
      else if b = 0xF0 then Some [(0x90, 0xBF), (0x80, 0xBF), (0x80, 0xBF)]
      else if 0xF1 \<le> b \<and> b \<le> 0xF3 then Some [(0x80, 0xBF), (0x80, 0xBF), (0x80, 0xBF)]
      else if b = 0xF4 then Some [(0x80, 0x8F), (0x80, 0xBF), (0x80, 0xBF)]
      else None)"

text \<open>The bytes that stand for themselves.\<close>

definition plain_byte :: "nat \<Rightarrow> bool" where
  "plain_byte b \<longleftrightarrow> 0x20 \<le> b \<and> b \<le> 0x7F \<and> b \<noteq> 0x22 \<and> b \<noteq> 0x5C"

definition string_step :: "lexer \<Rightarrow> flow" where
  "string_step L0 =
     (let L = get L0 in
      case current L of
        None \<Rightarrow> Stop (lex_fail ''invalid string: missing closing quote'' L)
      | Some c \<Rightarrow> (let b = of_char c in
          if c = CHR 0x22 then Stop (Value_string, L)
          else if c = CHR 0x5C then string_escape (get L)
          else if b \<le> 0x1F then Stop (lex_fail (control_message b) L)
          else if plain_byte b then Go (add_current L)
          else (case lead_ranges b of
              None \<Rightarrow> Stop (lex_fail ''invalid string: ill-formed UTF-8 byte'' L)
            | Some rs \<Rightarrow> (case next_byte_in_range rs L of
                (ok, L') \<Rightarrow> if ok then Go L' else Stop (Token_parse_error, L')))))"

lemma plain_byte_rest:
  assumes "c \<noteq> CHR 0x22" and "c \<noteq> CHR 0x5C" and "\<not> (of_char c :: nat) \<le> 0x1F"
  shows "plain_byte (of_char c) \<longleftrightarrow> (of_char c :: nat) \<le> 0x7F"
proof -
  have ne: "c \<noteq> char_of n \<Longrightarrow> (of_char c :: nat) \<noteq> n" for n :: nat
    by (metis char_of_char)
  have "char_of (0x22 :: nat) = CHR 0x22" "char_of (0x5C :: nat) = CHR 0x5C" by code_simp+
  then show ?thesis
    using assms ne [of "0x22"] ne [of "0x5C"] by (auto simp: plain_byte_def)
qed

lemma string_step_eq:
  "string_step L0 =
     (let L = get L0 in
      case current L of
        None \<Rightarrow> Stop (lex_fail ''invalid string: missing closing quote'' L)
      | Some c \<Rightarrow> (let b = of_char c in
          if c = CHR 0x22 then Stop (Value_string, L)
          else if c = CHR 0x5C then string_escape (get L)
          else if b \<le> 0x1F then Stop (lex_fail (control_message b) L)
          else if b \<le> 0x7F then Go (add_current L)
          else (case lead_ranges b of
              None \<Rightarrow> Stop (lex_fail ''invalid string: ill-formed UTF-8 byte'' L)
            | Some rs \<Rightarrow> (case next_byte_in_range rs L of
                (ok, L') \<Rightarrow> if ok then Go L' else Stop (Token_parse_error, L')))))"
  unfolding string_step_def Let_def
  by (cases "current (get L0)") (use plain_byte_rest in auto)

lemma codepoint_from_length: "length (pending (snd (codepoint_from fs cp L))) \<le> length (pending L)"
  by (induction fs cp L rule: codepoint_from.induct)
    (auto simp: Let_def split: option.split intro: order_trans [OF _ get_length] get_length)

lemma ranges_from_length: "length (pending (snd (ranges_from rs L))) \<le> length (pending L)"
  by (induction rs L rule: ranges_from.induct)
    (auto simp: Let_def split: option.split intro: order_trans [OF _ get_length] get_length)

lemma fold_add_pending [simp]: "pending (fold (\<lambda>b. add (f b)) bs L) = pending L"
  by (induction bs arbitrary: L) auto

lemma add_codepoint_pending [simp]: "pending (add_codepoint cp L) = pending L"
  by (simp add: add_codepoint_def)

lemma unicode_escape_length: "unicode_escape L = Go L' \<Longrightarrow> length (pending L') \<le> length (pending L)"
proof -
  assume a: "unicode_escape L = Go L'"
  obtain c1 L1 where 1: "get_codepoint L = (c1, L1)" by fastforce
  obtain c2 L2 where 2: "get_codepoint (get (get L1)) = (c2, L2)" by fastforce
  have "length (pending L1) \<le> length (pending L)"
    using codepoint_from_length [of "[12, 8, 4, 0]" 0 L] 1 by (simp add: get_codepoint_def)
  moreover have "length (pending L2) \<le> length (pending (get (get L1)))"
    using codepoint_from_length [of "[12, 8, 4, 0]" 0 "get (get L1)"] 2 by (simp add: get_codepoint_def)
  moreover have "length (pending (get (get L1))) \<le> length (pending L1)"
    by (meson get_length order_trans)
  ultimately show ?thesis
    using a 1 2 by (auto simp: unicode_escape_def Let_def split: if_splits)
qed

lemma string_escape_length: "string_escape L = Go L' \<Longrightarrow> length (pending L') \<le> length (pending L)"
  by (auto simp: string_escape_def unicode_escape_length split: option.splits if_splits)

lemma string_step_length: "string_step L = Go L' \<Longrightarrow> length (pending L') < length (pending L)"
proof -
  assume a: "string_step L = Go L'"
  then obtain c where c: "current (get L) = Some c"
    by (auto simp: string_step_eq Let_def split: option.splits)
  have "length (pending L') \<le> length (pending (get L))"
    using a c ranges_from_length [of _ "add_current (get L)"]
      order_trans [OF string_escape_length get_length]
    by (auto simp: string_step_eq Let_def next_byte_in_range_def split: if_splits option.splits prod.splits)
      (metis pending_updates(2) snd_conv)+
  then show ?thesis using get_consumes [OF c] by simp
qed

function string_loop :: "lexer \<Rightarrow> token_type \<times> lexer" where
  "string_loop L = (case string_step L of Go L' \<Rightarrow> string_loop L' | Stop r \<Rightarrow> r)"
  by pat_completeness auto
termination
  by (relation "measure (length \<circ> pending)") (auto dest: string_step_length)

declare string_loop.simps [simp del]

definition scan_string :: "lexer \<Rightarrow> token_type \<times> lexer" where
  "scan_string L = string_loop (lreset L)"

section \<open>Numbers\<close>

text \<open>
  The states of \<open>scan_number\<close>, one definition per label, the type of the number so far as an
  argument. The three states that loop on digits share \<open>scan_digits\<close>, which stops after
  reading the first character that is not a digit.
\<close>

definition cur_digit :: "lexer \<Rightarrow> bool" where
  "cur_digit L = (case current L of Some c \<Rightarrow> is_digit c | None \<Rightarrow> False)"

function scan_digits :: "lexer \<Rightarrow> lexer" where
  "scan_digits L = (let L' = get L in if cur_digit L' then scan_digits (add_current L') else L')"
  by pat_completeness auto
termination
  by (relation "measure (length \<circ> pending)") (auto simp: cur_digit_def get_consumes split: option.splits)

declare scan_digits.simps [simp del]

text \<open>\<open>strtod\<close> on the text of a JSON number: the exact decimal value, correctly rounded.\<close>

definition num_parts :: "string \<Rightarrow> string \<times> string \<times> string" where
  "num_parts s =
     (let m = takeWhile (\<lambda>c. c \<noteq> CHR ''e'' \<and> c \<noteq> CHR ''E'') s;
          x = drop (length m + 1) s;
          w = takeWhile (\<lambda>c. c \<noteq> CHR ''.'') m in (w, drop (length w + 1) m, x))"

definition signed_digits :: "string \<Rightarrow> int" where
  "signed_digits s =
     (if starts_with ''-'' s then - digits_val 0 (tl s)
      else if starts_with ''+'' s then digits_val 0 (tl s) else digits_val 0 s)"

definition decimal_value :: "string \<Rightarrow> rat" where
  "decimal_value s =
     (let neg = starts_with ''-'' s in
      case num_parts (if neg then tl s else s) of (w, f, x) \<Rightarrow>
        (if neg then - 1 else 1) * of_int (digits_val 0 (w @ f)) * pow10 (signed_digits x - int (length f)))"

definition strtod :: "string \<Rightarrow> dbl" where
  "strtod s = rnd (decimal_value s)"

definition number_done :: "token_type \<Rightarrow> lexer \<Rightarrow> token_type \<times> lexer" where
  "number_done ty L0 =
     (let L = unget L0; s = token_buffer L in
      if ty = Value_unsigned \<and> signed_digits s \<le> ulong_max
        then (Value_unsigned, L\<lparr>value_unsigned := signed_digits s\<rparr>)
      else if ty = Value_integer \<and> i64_min \<le> signed_digits s \<and> signed_digits s \<le> i64_max
        then (Value_integer, L\<lparr>value_integer := signed_digits s\<rparr>)
      else (Value_float, L\<lparr>value_float := strtod s\<rparr>))"

definition number_any2 :: "lexer \<Rightarrow> token_type \<times> lexer" where
  "number_any2 L = number_done Value_float (scan_digits L)"

definition number_sign :: "lexer \<Rightarrow> token_type \<times> lexer" where
  "number_sign L0 =
     (let L = get L0 in
      if cur_digit L then number_any2 (add_current L)
      else lex_fail ''invalid number; expected digit after exponent sign'' L)"

definition number_exponent :: "lexer \<Rightarrow> token_type \<times> lexer" where
  "number_exponent L0 =
     (let L = get L0 in
      if current L = Some (CHR ''+'') \<or> current L = Some (CHR ''-'') then number_sign (add_current L)
      else if cur_digit L then number_any2 (add_current L)
      else lex_fail (''invalid number; expected '' @ quoted ''+'' @ '', '' @ quoted ''-'' @ '', or digit after exponent'') L)"

definition is_exp :: "lexer \<Rightarrow> bool" where
  "is_exp L \<longleftrightarrow> current L = Some (CHR ''e'') \<or> current L = Some (CHR ''E'')"

definition number_decimal2 :: "lexer \<Rightarrow> token_type \<times> lexer" where
  "number_decimal2 L0 =
     (let L = scan_digits L0 in
      if is_exp L then number_exponent (add_current L) else number_done Value_float L)"

definition number_decimal1 :: "lexer \<Rightarrow> token_type \<times> lexer" where
  "number_decimal1 L0 =
     (let L = get L0 in
      if cur_digit L then number_decimal2 (add_current L)
      else lex_fail (''invalid number; expected digit after '' @ quoted ''.'') L)"

text \<open>The switch after a zero and after the digits of the integer part.\<close>

definition number_tail :: "token_type \<Rightarrow> lexer \<Rightarrow> token_type \<times> lexer" where
  "number_tail ty L =
     (if current L = Some (CHR ''.'') then number_decimal1 (add (CHR ''.'') L)
      else if is_exp L then number_exponent (add_current L)
      else number_done ty L)"

definition number_zero :: "token_type \<Rightarrow> lexer \<Rightarrow> token_type \<times> lexer" where
  "number_zero ty L = number_tail ty (get L)"

definition number_any1 :: "token_type \<Rightarrow> lexer \<Rightarrow> token_type \<times> lexer" where
  "number_any1 ty L = number_tail ty (scan_digits L)"

definition number_minus :: "lexer \<Rightarrow> token_type \<times> lexer" where
  "number_minus L0 =
     (let L = get L0 in
      if current L = Some (CHR ''0'') then number_zero Value_integer (add_current L)
      else if cur_digit L then number_any1 Value_integer (add_current L)
      else lex_fail (''invalid number; expected digit after '' @ quoted ''-'') L)"

definition scan_number :: "lexer \<Rightarrow> token_type \<times> lexer" where
  "scan_number L0 =
     (let L = lreset L0 in
      if current L = Some (CHR ''-'') then number_minus (add_current L)
      else if current L = Some (CHR ''0'') then number_zero Value_unsigned (add_current L)
      else number_any1 Value_unsigned (add_current L))"

section \<open>The scanner\<close>

fun scan_literal :: "string \<Rightarrow> token_type \<Rightarrow> lexer \<Rightarrow> token_type \<times> lexer" where
  "scan_literal [] ty L = (ty, L)"
| "scan_literal (c # cs) ty L0 =
     (let L = get L0 in
      if cur_char L \<noteq> c then lex_fail ''invalid literal'' L else scan_literal cs ty L)"

definition skip_bom :: "lexer \<Rightarrow> bool \<times> lexer" where
  "skip_bom L0 =
     (let L = get L0 in
      if current L = Some (CHR 0xEF) then
        (let L1 = get L in
         if current L1 = Some (CHR 0xBB) then (let L2 = get L1 in (current L2 = Some (CHR 0xBF), L2))
         else (False, L1))
      else (True, unget L))"

definition is_ws :: "char \<Rightarrow> bool" where
  "is_ws c \<longleftrightarrow> c = CHR '' '' \<or> c = CHR 0x09 \<or> c = CHR 0x0A \<or> c = CHR 0x0D"

function skip_whitespace :: "lexer \<Rightarrow> lexer" where
  "skip_whitespace L =
     (let L' = get L in
      case current L' of Some c \<Rightarrow> (if is_ws c then skip_whitespace L' else L') | None \<Rightarrow> L')"
  by pat_completeness auto
termination
  by (relation "measure (length \<circ> pending)") (auto simp: get_consumes)

declare skip_whitespace.simps [simp del]

definition scan_dispatch :: "lexer \<Rightarrow> token_type \<times> lexer" where
  "scan_dispatch L =
     (case current L of
        None \<Rightarrow> (End_of_input, L)
      | Some c \<Rightarrow>
          if c = CHR ''['' then (Begin_array, L)
          else if c = CHR '']'' then (End_array, L)
          else if c = CHR ''{'' then (Begin_object, L)
          else if c = CHR ''}'' then (End_object, L)
          else if c = CHR '':'' then (Name_separator, L)
          else if c = CHR '','' then (Value_separator, L)
          else if c = CHR ''t'' then scan_literal ''rue'' Literal_true L
          else if c = CHR ''f'' then scan_literal ''alse'' Literal_false L
          else if c = CHR ''n'' then scan_literal ''ull'' Literal_null L
          else if c = CHR 0x22 then scan_string L
          else if c = CHR ''-'' \<or> is_digit c then scan_number L
          else if c = CHR 0x00 then (End_of_input, L)
          else lex_fail ''invalid literal'' L)"

definition scan :: "lexer \<Rightarrow> token_type \<times> lexer" where
  "scan L =
     (case (if chars_read_total L = 0 then skip_bom L else (True, L)) of (ok, L1) \<Rightarrow>
      if ok then scan_dispatch (skip_whitespace L1)
      else lex_fail ''invalid BOM; must be 0xEF 0xBB 0xBF if given'' L1)"

end
