(* ===== verification/Json_Parser.thy ===== *)
theory Json_Parser
  imports Json_Lexer
begin

text \<open>
  The parser of the vendored nlohmann::json: \<open>json_sax_dom_parser\<close>, which builds the value, and
  \<open>parser::sax_parse_internal\<close>, the loop that drives it with an explicit stack. The pointers of
  \<open>ref_stack\<close> into the value under construction are kept as the containers they point to, from
  the innermost outwards (a container is stored into its parent when it is closed; until the
  parse ends nobody else sees the value). The theorems: the loop ends on every input, and
  the kinds of exception it throws.
\<close>

section \<open>json_sax_dom_parser\<close>

text \<open>An open container: the elements of an array, or the members of an object and the key whose
  value is expected (\<open>object_element\<close>).\<close>

datatype frame = In_array "json list" | In_object "(string \<times> json) list" string

record parser =
  m_lexer :: lexer
  last_token :: token_type
  root :: json
  ref_stack :: "frame list"
  states :: "bool list"

definition handle_value :: "json \<Rightarrow> parser \<Rightarrow> parser" where
  "handle_value v p =
     (case ref_stack p of
        [] \<Rightarrow> p\<lparr>root := v\<rparr>
      | In_array xs # fs \<Rightarrow> p\<lparr>ref_stack := In_array (xs @ [v]) # fs\<rparr>
      | In_object es k # fs \<Rightarrow> p\<lparr>ref_stack := In_object (omap_put k v es) k # fs\<rparr>)"

definition start_object :: "parser \<Rightarrow> parser" where
  "start_object p = p\<lparr>ref_stack := In_object [] [] # ref_stack p\<rparr>"

definition sax_key :: "string \<Rightarrow> parser \<Rightarrow> parser" where
  "sax_key k p =
     (case ref_stack p of
        In_object es _ # fs \<Rightarrow> p\<lparr>ref_stack := In_object (omap_put k JNull es) k # fs\<rparr>
      | _ \<Rightarrow> p)"

definition start_array :: "parser \<Rightarrow> parser" where
  "start_array p = p\<lparr>ref_stack := In_array [] # ref_stack p\<rparr>"

text \<open>\<open>end_object\<close> and \<open>end_array\<close>.\<close>

definition end_container :: "parser \<Rightarrow> parser" where
  "end_container p =
     (case ref_stack p of
        In_object es _ # fs \<Rightarrow> handle_value (JObject es) (p\<lparr>ref_stack := fs\<rparr>)
      | In_array xs # fs \<Rightarrow> handle_value (JArray xs) (p\<lparr>ref_stack := fs\<rparr>)
      | [] \<Rightarrow> p)"

section \<open>Errors\<close>

definition get_token :: "parser \<Rightarrow> parser" where
  "get_token p = (case scan (m_lexer p) of (t, L) \<Rightarrow> p\<lparr>m_lexer := L, last_token := t\<rparr>)"

definition exception_message :: "token_type \<Rightarrow> string \<Rightarrow> parser \<Rightarrow> string" where
  "exception_message expected context p =
     ''syntax error '' @ (if context \<noteq> [] then ''while parsing '' @ context @ '' '' else []) @ ''- '' @
     (if last_token p = Token_parse_error
      then error_message (m_lexer p) @ ''; last read: '' @ quoted (get_token_string (m_lexer p))
      else ''unexpected '' @ token_type_name (last_token p)) @
     (if expected \<noteq> Uninitialized then ''; expected '' @ token_type_name expected else [])"

definition position_string :: "lexer \<Rightarrow> string" where
  "position_string L =
     '' at line '' @ int_str (int (lines_read L) + 1) @ '', column '' @ int_str (int (chars_read_current_line L))"

definition parse_error :: "nat \<Rightarrow> lexer \<Rightarrow> string \<Rightarrow> exn" where
  "parse_error n L w =
     Json_parse_error n (''[json.exception.parse_error.'' @ int_str (int n) @ ''] '' @ ''parse error'' @
       position_string L @ '': '' @ w)"

definition unexpected :: "token_type \<Rightarrow> string \<Rightarrow> parser \<Rightarrow> exn" where
  "unexpected t context p = parse_error 101 (m_lexer p) (exception_message t context p)"

section \<open>sax_parse_internal\<close>

text \<open>
  A key and its separator, read after \<open>get_token\<close> has been called for the key; then the first
  token of the value.
\<close>

definition parse_key :: "parser \<Rightarrow> parser result" where
  "parse_key p =
     (if last_token p \<noteq> Value_string then Inl (unexpected Value_string ''object key'' p)
      else let p1 = get_token (sax_key (token_buffer (m_lexer p)) p) in
        if last_token p1 \<noteq> Name_separator then Inl (unexpected Name_separator ''object separator'' p1)
        else Inr p1)"

text \<open>The switch on the last token: \<open>True\<close> when it continues with a nested value, \<open>False\<close> when a
  value is complete.\<close>

definition value_switch :: "parser \<Rightarrow> (bool \<times> parser) result" where
  "value_switch p =
     (let L = m_lexer p in
      case last_token p of
        Begin_object \<Rightarrow>
          (let p1 = get_token (start_object p) in
           if last_token p1 = End_object then Inr (False, end_container p1)
           else bindE (parse_key p1) (\<lambda>p2.
             Inr (True, get_token (p2\<lparr>states := False # states p2\<rparr>))))
      | Begin_array \<Rightarrow>
          (let p1 = get_token (start_array p) in
           if last_token p1 = End_array then Inr (False, end_container p1)
           else Inr (True, p1\<lparr>states := True # states p1\<rparr>))
      | Value_float \<Rightarrow>
          (if \<not> isfinite (value_float L)
           then Inl (out_of_range 406 (''number overflow parsing '' @ quoted (get_token_string L)))
           else Inr (False, handle_value (JFloat (value_float L)) p))
      | Literal_false \<Rightarrow> Inr (False, handle_value (JBool False) p)
      | Literal_null \<Rightarrow> Inr (False, handle_value JNull p)
      | Literal_true \<Rightarrow> Inr (False, handle_value (JBool True) p)
      | Value_integer \<Rightarrow> Inr (False, handle_value (JInt (value_integer L)) p)
      | Value_string \<Rightarrow> Inr (False, handle_value (JString (token_buffer L)) p)
      | Value_unsigned \<Rightarrow> Inr (False, handle_value (JUInt (value_unsigned L)) p)
      | Token_parse_error \<Rightarrow> Inl (unexpected Uninitialized ''value'' p)
      | End_of_input \<Rightarrow>
          (if chars_read_total L = 1
           then Inl (parse_error 101 L (''attempting to parse an empty input; check that your input '' @
                  ''string or stream contains the expected JSON''))
           else Inl (unexpected Literal_or_value ''value'' p))
      | _ \<Rightarrow> Inl (unexpected Literal_or_value ''value'' p))"

text \<open>After a value: the end, the next value (\<open>False\<close>) or a closed container, whose own state is
  to be evaluated (\<open>True\<close>).\<close>

definition state_eval :: "parser \<Rightarrow> (bool option \<times> parser) result" where
  "state_eval p =
     (case states p of
        [] \<Rightarrow> Inr (None, p)
      | True # st \<Rightarrow>
          (let p1 = get_token p in
           if last_token p1 = Value_separator then Inr (Some False, get_token p1)
           else if last_token p1 = End_array then Inr (Some True, (end_container p1)\<lparr>states := st\<rparr>)
           else Inl (unexpected End_array ''array'' p1))
      | False # st \<Rightarrow>
          (let p1 = get_token p in
           if last_token p1 = Value_separator then
             bindE (parse_key (get_token p1)) (\<lambda>p2. Inr (Some False, get_token p2))
           else if last_token p1 = End_object then Inr (Some True, (end_container p1)\<lparr>states := st\<rparr>)
           else Inl (unexpected End_object ''object'' p1)))"

section \<open>Progress\<close>

text \<open>Every token but the last two kinds takes at least one character from the input.\<close>

definition final_token :: "token_type \<Rightarrow> bool" where
  "final_token t \<longleftrightarrow> t = End_of_input \<or> t = Token_parse_error"

definition fuel :: "parser \<Rightarrow> nat" where
  "fuel p = 2 * length (pending (m_lexer p)) + (if final_token (last_token p) then 0 else 1)"

lemma unget_get_length: "length (pending (unget (get L))) \<le> length (pending L)"
proof (cases "current (get L)")
  case None
  then show ?thesis using get_length [of L] by (simp add: pending_unget)
next
  case (Some c)
  then show ?thesis using get_consumes [OF Some] by (simp add: pending_unget)
qed

lemma unget_scan_digits_length: "length (pending (unget (scan_digits L))) \<le> length (pending L)"
proof (induction L rule: scan_digits.induct)
  case (1 L)
  show ?case
  proof (cases "cur_digit (get L)")
    case True
    then have "length (pending (unget (scan_digits (add_current (get L))))) \<le> length (pending (get L))"
      using 1 by simp
    then show ?thesis using True get_length [of L] by (simp add: scan_digits.simps [of L] Let_def)
  next
    case False
    then show ?thesis using unget_get_length by (simp add: scan_digits.simps [of L] Let_def)
  qed
qed

lemma scan_digits_length: "length (pending (scan_digits L)) \<le> length (pending L)"
proof (induction L rule: scan_digits.induct)
  case (1 L)
  then show ?case using get_length [of L]
    by (cases "cur_digit (get L)") (simp_all add: scan_digits.simps [of L] Let_def order_trans)
qed

abbreviation shrinks :: "lexer \<Rightarrow> token_type \<times> lexer \<Rightarrow> bool" where
  "shrinks L r \<equiv> length (pending (snd r)) \<le> length (pending L)"

lemma lex_fail_pending [simp]: "pending (snd (lex_fail m L)) = pending L"
  by (simp add: lex_fail_def)

lemma lex_fail_get: "shrinks L (lex_fail m (get L))"
  by (simp add: get_length)

lemma number_done_unget: "length (pending (unget L)) \<le> n \<Longrightarrow> length (pending (snd (number_done ty L))) \<le> n"
  by (simp add: number_done_def Let_def)

lemma get_le: "length (pending (get L)) \<le> n" if "length (pending L) \<le> n"
  using get_length [of L] that by (rule order_trans)

lemma number_any2_length: "shrinks L (number_any2 L)"
  unfolding number_any2_def by (intro number_done_unget unget_scan_digits_length)

lemma number_sign_length: "shrinks L (number_sign L)"
  using number_any2_length [of "add_current (get L)"] get_length [of L]
  by (simp add: number_sign_def Let_def lex_fail_get)

lemma number_exponent_length: "shrinks L (number_exponent L)"
  using number_any2_length [of "add_current (get L)"] number_sign_length [of "add_current (get L)"]
    get_length [of L]
  by (simp add: number_exponent_def Let_def lex_fail_get)

lemma number_decimal2_length: "shrinks L (number_decimal2 L)"
  using number_exponent_length [of "add_current (scan_digits L)"] scan_digits_length [of L]
    number_done_unget [OF unget_scan_digits_length, of Value_float L]
  by (simp add: number_decimal2_def Let_def)

lemma number_decimal1_length: "shrinks L (number_decimal1 L)"
  using number_decimal2_length [of "add_current (get L)"] get_length [of L]
  by (simp add: number_decimal1_def Let_def lex_fail_get)

lemma number_tail_length:
  "length (pending (unget L)) \<le> n \<Longrightarrow> length (pending L) \<le> n \<Longrightarrow>
     length (pending (snd (number_tail ty L))) \<le> n"
  using number_decimal1_length [of "add (CHR ''.'') L"] number_exponent_length [of "add_current L"]
  by (auto simp: number_tail_def intro: number_done_unget)

lemma scan_number_length: "shrinks L (scan_number L)"
proof -
  have z: "shrinks K (number_zero ty K)" and a: "shrinks K (number_any1 ty K)" for ty K
    unfolding number_zero_def number_any1_def
    by (intro number_tail_length unget_get_length get_length unget_scan_digits_length scan_digits_length)+
  have "shrinks K (number_minus K)" for K
    using z [where K = "add_current (get K)"] a [where K = "add_current (get K)"] get_length [of K]
    by (auto simp: number_minus_def Let_def lex_fail_get intro: order_trans)
  from this [of "add_current (lreset L)"] show ?thesis
    using z [where K = "add_current (lreset L)"] a [where K = "add_current (lreset L)"]
    by (simp add: scan_number_def Let_def)
qed

lemma scan_literal_length: "shrinks L (scan_literal cs ty L)"
proof (induction cs ty L rule: scan_literal.induct)
  case (2 c cs ty L)
  then show ?case using get_length [of L]
    by (auto simp: Let_def)
qed simp

text \<open>
  A string may stop with an error token after characters have been consumed, so the bound is
  proved for whatever \<open>string_step\<close> returns.
\<close>

lemma unicode_escape_stop: "unicode_escape L = Stop r \<Longrightarrow> shrinks L r"
proof -
  assume a: "unicode_escape L = Stop r"
  obtain c1 L1 where 1: "get_codepoint L = (c1, L1)" by fastforce
  obtain c2 L2 where 2: "get_codepoint (get (get L1)) = (c2, L2)" by fastforce
  have l1: "length (pending L1) \<le> length (pending L)"
    using codepoint_from_length [of "[12, 8, 4, 0]" 0 L] 1 by (simp add: get_codepoint_def)
  have l2: "length (pending L2) \<le> length (pending L)"
    using codepoint_from_length [of "[12, 8, 4, 0]" 0 "get (get L1)"] 2 get_le [OF get_le [OF l1]]
    by (simp add: get_codepoint_def)
  show ?thesis
    using a 1 2 l1 l2 get_le [OF l1] get_le [OF get_le [OF l1]]
    by (auto simp: unicode_escape_def Let_def split: if_splits)
qed

lemma string_step_stop: "string_step L = Stop r \<Longrightarrow> shrinks L r"
proof -
  assume a: "string_step L = Stop r"
  have e: "shrinks L r" if "string_escape (get (get L)) = Stop r"
  proof -
    have "shrinks (get (get L)) r"
      using that unicode_escape_stop by (auto simp: string_escape_def split: option.splits if_splits)
    then show ?thesis using get_le [OF get_length [of L]] by simp
  qed
  have "length (pending (snd (next_byte_in_range rs (get L)))) \<le> length (pending L)" for rs
    using ranges_from_length [of rs "add_current (get L)"] get_length [of L]
    by (simp add: next_byte_in_range_def)
  then have "length (pending K) \<le> length (pending L)" if "next_byte_in_range rs (get L) = (ok, K)" for rs ok K
    using that by (metis snd_conv)
  then show ?thesis
    using a e get_length [of L]
    by (auto simp: string_step_eq Let_def split: option.splits if_splits prod.splits)
qed

lemma scan_string_length: "shrinks L (scan_string L)"
proof -
  have "shrinks K (string_loop K)" for K
  proof (induction K rule: string_loop.induct)
    case (1 K)
    then show ?case
      using string_step_stop string_step_length
      by (subst string_loop.simps) (fastforce split: flow.split)
  qed
  from this [of "lreset L"] show ?thesis by (simp add: scan_string_def)
qed

lemma scan_dispatch_length: "shrinks L (scan_dispatch L)"
  using scan_string_length scan_number_length scan_literal_length
  by (simp add: scan_dispatch_def del: scan_literal.simps split: option.split)

lemma scan_dispatch_None: "current L = None \<Longrightarrow> scan_dispatch L = (End_of_input, L)"
  by (simp add: scan_dispatch_def)

lemma skip_whitespace_length:
  "length (pending (skip_whitespace L)) \<le> length (pending L)"
  "current (skip_whitespace L) = Some c \<Longrightarrow> length (pending (skip_whitespace L)) < length (pending L)"
proof (induction L rule: skip_whitespace.induct)
  case (1 L)
  have le: "length (pending (get L)) \<le> length (pending L)" by (rule get_length)
  have lt: "current (get L) = Some d \<Longrightarrow> length (pending (get L)) < length (pending L)" for d
    by (rule get_consumes)
  {
    case 1
    then show ?case using "1.IH"(1) le lt
      by (subst skip_whitespace.simps) (fastforce simp: Let_def split: option.split)
  next
    case 2
    then show ?case using "1.IH"(1) le lt
      by (subst skip_whitespace.simps, subst (asm) skip_whitespace.simps)
        (fastforce simp: Let_def split: option.splits if_splits)
  }
qed

lemma skip_bom_length: "length (pending (snd (skip_bom L))) \<le> length (pending L)"
  using get_le [OF get_length [of L]] get_le [OF get_le [OF get_length [of L]]] get_length [of L]
    unget_get_length [of L]
  by (auto simp: skip_bom_def Let_def)

lemma scan_progress:
  "shrinks L (scan L)"
  "\<not> final_token (fst (scan L)) \<Longrightarrow> length (pending (snd (scan L))) < length (pending L)"
proof -
  obtain ok L1 where 1: "(if chars_read_total L = 0 then skip_bom L else (True, L)) = (ok, L1)" by fastforce
  then have l1: "length (pending L1) \<le> length (pending L)"
    using skip_bom_length [of L] by (auto split: if_splits)
  note w = skip_whitespace_length(1) [of L1] scan_dispatch_length [of "skip_whitespace L1"]
  then show "shrinks L (scan L)" using 1 l1 by (simp add: scan_def)
  assume nf: "\<not> final_token (fst (scan L))"
  then have ok: "ok" using 1 by (cases ok) (simp_all add: scan_def lex_fail_def final_token_def)
  then have "current (skip_whitespace L1) \<noteq> None"
    using nf 1 scan_dispatch_None [of "skip_whitespace L1"]
    by (cases "current (skip_whitespace L1)") (simp_all add: scan_def final_token_def)
  then show "length (pending (snd (scan L))) < length (pending L)"
    using skip_whitespace_length(2) [of L1] w l1 1 ok by (fastforce simp: scan_def)
qed

abbreviation left :: "parser \<Rightarrow> nat" where
  "left p \<equiv> length (pending (m_lexer p))"

lemma get_token_left: "left (get_token p) \<le> left p"
  "\<not> final_token (last_token (get_token p)) \<Longrightarrow> left (get_token p) < left p"
  using scan_progress [of "m_lexer p"] by (auto simp: get_token_def split: prod.split)

lemma handle_value_lexer [simp]:
  "m_lexer (handle_value v p) = m_lexer p" "last_token (handle_value v p) = last_token p"
  "states (handle_value v p) = states p"
  by (simp_all add: handle_value_def split: list.split frame.split)

lemma container_lexer [simp]:
  "m_lexer (start_object p) = m_lexer p" "m_lexer (start_array p) = m_lexer p"
  "m_lexer (end_container p) = m_lexer p" "m_lexer (sax_key k p) = m_lexer p"
  "states (start_object p) = states p" "states (start_array p) = states p"
  "states (end_container p) = states p" "states (sax_key k p) = states p"
  "last_token (start_object p) = last_token p" "last_token (start_array p) = last_token p"
  "last_token (end_container p) = last_token p" "last_token (sax_key k p) = last_token p"
  by (simp_all add: start_object_def start_array_def end_container_def sax_key_def
      split: list.split frame.split)

lemma fuel_get_token: "fuel (get_token p) \<le> 2 * left p"
  using get_token_left [of p] by (auto simp: fuel_def)

lemma parse_key_left: "parse_key p = Inr q \<Longrightarrow> left q \<le> left p"
  using get_token_left(1) [of "sax_key (token_buffer (m_lexer p)) p"]
  by (auto simp: parse_key_def Let_def split: if_splits)

lemma parse_key_token: "parse_key p = Inr q \<Longrightarrow> last_token p = Value_string"
  by (auto simp: parse_key_def split: if_splits)

lemma states_lexer [simp]: "m_lexer (p\<lparr>states := st\<rparr>) = m_lexer p" "last_token (p\<lparr>states := st\<rparr>) = last_token p"
  by simp_all

lemma value_switch_left: "value_switch p = Inr (False, q) \<Longrightarrow> left q \<le> left p"
  using get_token_left(1) [of "start_object p"] get_token_left(1) [of "start_array p"]
  by (auto simp: value_switch_def Let_def bindE_eq_Inr split: token_type.splits if_splits)

lemma value_switch_fuel: "value_switch p = Inr (True, q) \<Longrightarrow> fuel q < fuel p"
proof -
  assume a: "value_switch p = Inr (True, q)"
  then consider "last_token p = Begin_object" | "last_token p = Begin_array"
    by (auto simp: value_switch_def Let_def split: token_type.splits if_splits)
  then show ?thesis
  proof cases
    case 1
    with a obtain p2 where p2: "parse_key (get_token (start_object p)) = Inr p2"
      and q: "q = get_token (p2\<lparr>states := False # states p2\<rparr>)"
      by (auto simp: value_switch_def Let_def bindE_eq_Inr split: if_splits)
    have "left (get_token (start_object p)) < left p"
      using get_token_left(2) [of "start_object p"] parse_key_token [OF p2] by (simp add: final_token_def)
    then have "left p2 < left p" using parse_key_left [OF p2] by simp
    then show ?thesis
      using fuel_get_token [of "p2\<lparr>states := False # states p2\<rparr>"] by (simp add: q fuel_def)
  next
    case 2
    with a have q: "q = (get_token (start_array p))\<lparr>states := True # states p\<rparr>"
      by (auto simp: value_switch_def Let_def get_token_def split: if_splits prod.splits)
    have "fuel q = fuel (get_token (start_array p))" by (simp add: q fuel_def)
    then show ?thesis
      using fuel_get_token [of "start_array p"] 2 by (simp add: fuel_def [of p] final_token_def)
  qed
qed

lemma state_eval_fuel: "state_eval p = Inr (Some b, q) \<Longrightarrow> fuel q < 2 * left p"
proof -
  assume a: "state_eval p = Inr (Some b, q)"
  let ?p = "get_token p"
  have nf: "\<not> final_token (last_token ?p)"
    using a by (auto simp: state_eval_def Let_def final_token_def split: list.splits if_splits bool.splits)
  then have l: "left ?p < left p" by (rule get_token_left)
  consider "q = get_token ?p" | st where "q = (end_container ?p)\<lparr>states := st\<rparr>"
    | p2 where "parse_key (get_token ?p) = Inr p2" "q = get_token p2"
    using a by (auto simp: state_eval_def Let_def bindE_eq_Inr split: list.splits if_splits bool.splits)
  then show ?thesis
  proof cases
    case 1
    then show ?thesis using fuel_get_token [of ?p] l by simp
  next
    case 2
    then show ?thesis using l by (simp add: fuel_def)
  next
    case 3
    then show ?thesis
      using fuel_get_token [of p2] parse_key_left [OF 3(1)] get_token_left(1) [of ?p] l by simp
  qed
qed

section \<open>The loop and the parser\<close>

function sax_loop :: "bool \<Rightarrow> parser \<Rightarrow> parser result" where
  "sax_loop skip p =
     bindE (if skip then Inr (False, p) else value_switch p) (\<lambda>(cont, p1).
       if cont then sax_loop False p1
       else bindE (state_eval p1) (\<lambda>(r, p2).
         case r of None \<Rightarrow> Inr p2 | Some sk \<Rightarrow> sax_loop sk p2))"
  by pat_completeness auto
termination
proof (relation "measure (\<lambda>(skip, p). fuel p)", goal_cases)
  case (2 skip p x cont p1)
  then show ?case by (cases skip) (auto simp: value_switch_fuel)
next
  case (3 skip p x cont p1 y r p2 sk)
  then have "state_eval p1 = Inr (Some sk, p2)" by auto
  then have "fuel p2 < 2 * left p1" by (rule state_eval_fuel)
  moreover have "left p1 \<le> left p" using 3 value_switch_left by (cases skip) auto
  ultimately show ?case by (simp add: fuel_def [of p])
qed simp

declare sax_loop.simps [simp del]

definition parser0 :: "string \<Rightarrow> parser" where
  "parser0 s = get_token \<lparr>m_lexer = lexer0 s, last_token = Uninitialized, root = JNull,
     ref_stack = [], states = []\<rparr>"

definition parse :: "string \<Rightarrow> json result" where
  "parse s =
     bindE (sax_loop False (parser0 s)) (\<lambda>p1.
       let p2 = get_token p1 in
       if last_token p2 \<noteq> End_of_input then Inl (unexpected End_of_input ''value'' p2)
       else Inr (root p2))"

section \<open>What the parser throws\<close>

definition parser_error :: "exn \<Rightarrow> bool" where
  "parser_error e \<longleftrightarrow> (\<exists>w. e = Json_parse_error 101 w) \<or> (\<exists>w. e = out_of_range 406 w)"

lemma parser_error_simps [simp, fails_intros]:
  "parser_error (parse_error 101 L w)" "parser_error (unexpected t c p)" "parser_error (out_of_range 406 w)"
  by (auto simp: parser_error_def parse_error_def unexpected_def)

lemma fails_parse_key [fails_intros]: "fails_with parser_error (parse_key p)"
  by (simp add: parse_key_def Let_def)

lemma fails_value_switch: "fails_with parser_error (value_switch p)"
  by (auto simp: value_switch_def Let_def intro!: fails_intros split: token_type.split)

lemma fails_state_eval: "fails_with parser_error (state_eval p)"
  by (auto simp: state_eval_def Let_def intro!: fails_intros split: list.split bool.split)

lemma fails_sax_loop: "fails_with parser_error (sax_loop skip p)"
proof (induction skip p rule: sax_loop.induct)
  case (1 skip p)
  show ?case
    by (subst sax_loop.simps, intro fails_with_bindE)
      (use 1 fails_value_switch fails_state_eval in
        \<open>auto intro!: fails_with_bindE split: prod.split option.split if_splits\<close>)
qed

lemma fails_parse [fails_intros]: "fails_with parser_error (parse s)"
  unfolding parse_def Let_def
  by (intro fails_with_bindE fails_sax_loop) simp


end
