(* ===== verification/Json_Roundtrip.thy ===== *)
theory Json_Roundtrip
  imports Json_Parser
begin

text \<open>
  \<open>json::parse\<close> inverts \<open>dump()\<close>: the lexer reads back every escaped string, every integer and
  every float text, and the parser rebuilds the value, up to the signedness tag of non-negative
  integers, which \<open>operator==\<close> and all readers of the program ignore. The float printer is the
  library's \<open>to_chars\<close>, a parameter; what is assumed of it is the round-trip property it
  documents, and \<open>dyadic_text\<close> is a printer that has it.
\<close>

section \<open>Reading single characters\<close>

lemma get_more:
  assumes "\<not> next_unget L" and "ia L = c # s"
  shows "current (get L) = Some c" "ia (get L) = s"
  using assms by (simp_all add: get_def Let_def split: option.split)

lemma get_end: "\<not> next_unget L \<Longrightarrow> ia L = [] \<Longrightarrow> current (get L) = None \<and> ia (get L) = []"
  by (simp add: get_def Let_def split: option.split)

lemma get_total [simp]: "chars_read_total (get L) = chars_read_total L + 1"
  by (simp add: get_def Let_def split: option.split list.split)

lemma add_fields [simp]:
  "ia (add c L) = ia L" "current (add c L) = current L" "next_unget (add c L) = next_unget L"
  "chars_read_total (add c L) = chars_read_total L" "token_buffer (add c L) = token_buffer L @ [c]"
  "ia (add_current L) = ia L" "current (add_current L) = current L"
  "next_unget (add_current L) = next_unget L" "chars_read_total (add_current L) = chars_read_total L"
  "ia (lreset L) = ia L" "current (lreset L) = current L" "next_unget (lreset L) = next_unget L"
  "chars_read_total (lreset L) = chars_read_total L" "token_buffer (lreset L) = []"
  by (simp_all add: add_def add_current_def lreset_def)

lemma add_current_buffer [simp]:
  "current L = Some c \<Longrightarrow> token_buffer (add_current L) = token_buffer L @ [c]"
  by (simp add: add_current_def cur_char_def)

text \<open>The lexer stands right behind the character \<open>c\<close>, with \<open>s\<close> to come.\<close>

definition behind :: "char \<Rightarrow> string \<Rightarrow> lexer \<Rightarrow> bool" where
  "behind c s L \<longleftrightarrow> current L = Some c \<and> \<not> next_unget L \<and> ia L = s \<and> 0 < chars_read_total L"

text \<open>The lexer is ready to scan a token from \<open>s\<close>.\<close>

definition ready :: "string \<Rightarrow> lexer \<Rightarrow> bool" where
  "ready s L \<longleftrightarrow> eof_ok L \<and> pending L = s \<and>
     (chars_read_total L = 0 \<longrightarrow> s \<noteq> [] \<and> hd s \<noteq> CHR 0xEF \<and> \<not> next_unget L)"

lemma behind_ready: "behind c s L \<Longrightarrow> ready s L"
  by (auto simp: behind_def ready_def eof_ok_def pending_def)

lemma skip_bom_ready:
  assumes "ready s L" and "chars_read_total L = 0"
  shows "fst (skip_bom L)" "pending (snd (skip_bom L)) = s" "eof_ok (snd (skip_bom L))"
proof -
  obtain c s' where s: "ia L = c # s'" "s = c # s'" "c \<noteq> CHR 0xEF" "\<not> next_unget L"
    using assms by (cases s) (auto simp: ready_def pending_def)
  have "skip_bom L = (True, unget (get L))"
    using s get_more [OF s(4) s(1)] by (simp add: skip_bom_def Let_def)
  then show "fst (skip_bom L)" "pending (snd (skip_bom L)) = s" "eof_ok (snd (skip_bom L))"
    using s get_more [OF s(4) s(1)]
    by (simp_all add: pending_unget eof_ok_def) (simp_all add: pending_def unget_def Let_def)
qed

lemma skip_whitespace_at:
  assumes "eof_ok L" and "pending L = c # s" and "\<not> is_ws c"
  shows "behind c s (skip_whitespace L)"
proof -
  have "current (get L) = Some c" "pending (get L) = s"
    using get_pending [OF assms(1)] assms(2) by simp_all
  then show ?thesis using assms(3)
    by (subst skip_whitespace.simps) (simp add: behind_def Let_def pending_def)
qed

lemma scan_at:
  assumes "ready (c # s) L" and "\<not> is_ws c"
  obtains L1 where "scan L = scan_dispatch L1" "behind c s L1"
proof (cases "chars_read_total L = 0")
  case True
  note b = skip_bom_ready [OF assms(1) True]
  have "scan L = scan_dispatch (skip_whitespace (snd (skip_bom L)))"
    using b(1) True by (simp add: scan_def split_beta)
  then show ?thesis using that skip_whitespace_at [OF b(3,2) assms(2)] by blast
next
  case False
  then have "scan L = scan_dispatch (skip_whitespace L)" by (simp add: scan_def)
  then show ?thesis using that skip_whitespace_at [of L c s] assms by (auto simp: ready_def)
qed

lemma scan_end:
  assumes "ready [] L"
  shows "fst (scan L) = End_of_input"
proof -
  have "0 < chars_read_total L" "eof_ok L" "pending L = []" using assms by (auto simp: ready_def)
  moreover from this have "current (skip_whitespace L) = None"
    using get_pending [of L] by (subst skip_whitespace.simps) (simp add: Let_def)
  ultimately show ?thesis by (simp add: scan_def scan_dispatch_None)
qed

lemma scan_punctuation:
  assumes "ready (c # s) L"
    and "\<And>K. current K = Some c \<Longrightarrow> scan_dispatch K = (t, K)" and "\<not> is_ws c"
  shows "\<exists>L'. scan L = (t, L') \<and> ready s L'"
proof -
  from assms(1,3) obtain L1 where "scan L = scan_dispatch L1" "behind c s L1" by (rule scan_at)
  then show ?thesis using assms(2) [of L1] behind_ready [of c s L1] by (simp add: behind_def)
qed

lemma punctuation:
  "ready (CHR ''['' # s) L \<Longrightarrow> \<exists>L'. scan L = (Begin_array, L') \<and> ready s L'"
  "ready (CHR '']'' # s) L \<Longrightarrow> \<exists>L'. scan L = (End_array, L') \<and> ready s L'"
  "ready (CHR ''{'' # s) L \<Longrightarrow> \<exists>L'. scan L = (Begin_object, L') \<and> ready s L'"
  "ready (CHR ''}'' # s) L \<Longrightarrow> \<exists>L'. scan L = (End_object, L') \<and> ready s L'"
  "ready (CHR '':'' # s) L \<Longrightarrow> \<exists>L'. scan L = (Name_separator, L') \<and> ready s L'"
  "ready (CHR '','' # s) L \<Longrightarrow> \<exists>L'. scan L = (Value_separator, L') \<and> ready s L'"
  by (erule scan_punctuation; simp add: scan_dispatch_def is_ws_def)+

section \<open>Literals\<close>

lemma scan_literal_reads:
  "behind c (cs @ rest) L \<Longrightarrow> \<exists>d L'. scan_literal cs t L = (t, L') \<and> behind d rest L'"
proof (induction cs arbitrary: c L)
  case (Cons x cs)
  then have "behind x (cs @ rest) (get L)"
    by (auto simp: behind_def get_more)
  then show ?case using Cons.IH [of x "get L"] by (auto simp: behind_def cur_char_def Let_def)
qed auto

lemma scan_word:
  assumes "ready (c # cs @ rest) L" and "\<not> is_ws c"
    and "\<And>K. current K = Some c \<Longrightarrow> scan_dispatch K = scan_literal cs t K"
  shows "\<exists>L'. scan L = (t, L') \<and> ready rest L'"
proof -
  from assms(1,2) obtain L1 where "scan L = scan_dispatch L1" "behind c (cs @ rest) L1" by (rule scan_at)
  then show ?thesis
    using assms(3) [of L1] scan_literal_reads [of c cs rest L1 t] behind_ready by (fastforce simp: behind_def)
qed

lemma literals:
  "ready (''true'' @ rest) L \<Longrightarrow> \<exists>L'. scan L = (Literal_true, L') \<and> ready rest L'"
  "ready (''false'' @ rest) L \<Longrightarrow> \<exists>L'. scan L = (Literal_false, L') \<and> ready rest L'"
  "ready (''null'' @ rest) L \<Longrightarrow> \<exists>L'. scan L = (Literal_null, L') \<and> ready rest L'"
  using scan_word [of "CHR ''t''" "''rue''" rest L Literal_true]
    scan_word [of "CHR ''f''" "''alse''" rest L Literal_false]
    scan_word [of "CHR ''n''" "''ull''" rest L Literal_null]
  by (simp_all add: scan_dispatch_def is_ws_def del: scan_literal.simps)

section \<open>Strings\<close>

definition state_ranges :: "nat \<Rightarrow> (nat \<times> nat) list" where
  "state_ranges st =
     (if st = 2 then [(0x80, 0xBF)] else if st = 3 then [(0x80, 0xBF), (0x80, 0xBF)]
      else if st = 4 then [(0xA0, 0xBF), (0x80, 0xBF)] else if st = 5 then [(0x80, 0x9F), (0x80, 0xBF)]
      else if st = 6 then [(0x90, 0xBF), (0x80, 0xBF), (0x80, 0xBF)]
      else if st = 7 then [(0x80, 0xBF), (0x80, 0xBF), (0x80, 0xBF)]
      else if st = 8 then [(0x80, 0x8F), (0x80, 0xBF), (0x80, 0xBF)] else [])"

text \<open>The automaton of the writer and the ranges of the reader describe the same sequences.\<close>

lemma lead_ranges_state:
  assumes "0x80 \<le> b" and "utf8_next 0 b \<noteq> 1"
  shows "lead_ranges b = Some (state_ranges (utf8_next 0 b))"
  using assms by (auto simp: utf8_next_0 lead_ranges_def state_ranges_def split: if_splits)

lemma state_ranges_step:
  assumes "st \<in> {2, 3, 4, 5, 6, 7, 8}" and "utf8_next st b \<noteq> 1"
  shows "\<exists>lo hi. state_ranges st = (lo, hi) # state_ranges (utf8_next st b) \<and> lo \<le> b \<and> b \<le> hi"
    and "utf8_next st b \<in> {0, 2, 3}" and "0x80 \<le> b"
  using assms by (auto simp: utf8_next_rest state_ranges_def split: if_splits)

definition resume :: "nat \<Rightarrow> lexer \<Rightarrow> token_type \<times> lexer" where
  "resume st L = (case ranges_from (state_ranges st) L of
     (ok, L') \<Rightarrow> if ok then string_loop L' else (Token_parse_error, L'))"

lemma resume_0 [simp]: "resume 0 L = string_loop L"
  by (simp add: resume_def state_ranges_def)

lemma resume_step:
  assumes "st \<in> {2, 3, 4, 5, 6, 7, 8}" and "utf8_next st (byte_of c) \<noteq> 1"
    and "current (get L) = Some c"
  shows "resume st L = resume (utf8_next st (byte_of c)) (add c (get L))"
  using state_ranges_step(1) [OF assms(1,2)] assms(3)
  by (auto simp: resume_def Let_def byte_of_def)

lemma of_char_int: "(of_char (char_of k) :: int) = int (k mod 256)" for k :: nat
  by (metis of_char_of of_nat_of_char)

lemma codepoint_hex_lower:
  assumes "n < 16" and "\<not> next_unget L" and "ia L = hex_lower n # s"
  shows "codepoint_from (f # fs) cp L = codepoint_from fs (cp + int n * 2 ^ f) (get L)"
proof -
  have "hex_lower n = char_of (if n < 10 then 48 + n else 87 + n)" by (simp add: hex_lower_def)
  then have "(of_char (hex_lower n) :: int) = int ((if n < 10 then 48 + n else 87 + n) mod 256)"
    by (simp only: of_char_int)
  then show ?thesis using assms get_more [OF assms(2,3)] by (simp add: Let_def)
qed

lemma codepoint_zero:
  assumes "\<not> next_unget L" and "ia L = CHR ''0'' # s"
  shows "codepoint_from (f # fs) cp L = codepoint_from fs cp (get L)"
proof -
  have "hex_lower 0 = CHR ''0''" by code_simp
  then show ?thesis
    using codepoint_hex_lower [of 0 L s f fs cp] assms by (simp del: codepoint_from.simps)
qed

lemma add_codepoint_low: "0 \<le> cp \<Longrightarrow> cp < 0x80 \<Longrightarrow> add_codepoint cp L = add (char_of cp) L"
  by (simp add: add_codepoint_def)

lemma byte_of_inj: "byte_of c = byte_of d \<longleftrightarrow> c = d"
  by (simp add: byte_of_def)

text \<open>One round of the string loop on an ASCII character as the writer escapes it.\<close>

lemma string_step_escaped:
  assumes "byte_of c < 0x80" and "\<not> next_unget L" and "ia L = esc_char c @ s"
  shows "\<exists>L'. string_step L = Go L' \<and> \<not> next_unget L' \<and> ia L' = s \<and>
    token_buffer L' = token_buffer L @ [c] \<and> chars_read_total L < chars_read_total L'"
proof -
  let ?b = "byte_of c"
  have c: "c = char_of ?b" by (simp add: byte_of_def)
  consider "?b \<in> {8, 9, 10, 12, 13, 0x22, 0x5C}" | "?b \<le> 0x1F" "?b \<notin> {8, 9, 10, 12, 13}"
    | "0x20 \<le> ?b" "?b \<notin> {0x22, 0x5C}" by force
  then show ?thesis
  proof cases
    case 1
    then have "c = CHR 0x08 \<or> c = CHR 0x09 \<or> c = CHR 0x0A \<or> c = CHR 0x0C \<or> c = CHR 0x0D \<or>
        c = CHR 0x22 \<or> c = CHR 0x5C"
      unfolding byte_of_inj [symmetric] by (simp add: byte_of_def)
    then obtain e where e: "esc_char c = [CHR 0x5C, e]" "e \<noteq> CHR ''u''" "e \<noteq> CHR ''/''"
      and go: "\<And>K. current K = Some e \<Longrightarrow> string_escape K = Go (add c K)"
      by (elim disjE) (simp_all add: esc_char_def escape_cp_def string_escape_def byte_of_def)
    have "ia L = CHR 0x5C # e # s" using assms(3) e by simp
    note g1 = get_more [OF assms(2) this]
    note g2 = get_more [of "get L", OF _ g1(2)]
    show ?thesis using g1 g2 go [of "get (get L)"] by (simp add: string_step_eq Let_def)
  next
    case 2
    then have e: "esc_char c = [CHR 0x5C, CHR ''u'', CHR ''0'', CHR ''0'', hex_lower (?b div 16), hex_lower (?b mod 16)]"
      by (auto simp: esc_char_def escape_cp_def)
    define K where "K = get (get L)"
    have i: "ia L = CHR 0x5C # CHR ''u'' # CHR ''0'' # CHR ''0'' # hex_lower (?b div 16) # hex_lower (?b mod 16) # s"
      using assms(3) e by simp
    note g1 = get_more [OF assms(2) i]
    note g2 = get_more [of "get L", OF _ g1(2), simplified, folded K_def]
    have k: "\<not> next_unget K" by (simp add: K_def)
    note g3 = get_more [OF k g2(2)]
    note g4 = get_more [of "get K", OF _ g3(2), simplified]
    note g5 = get_more [of "get (get K)", OF _ g4(2), simplified]
    note g6 = get_more [of "get (get (get K))", OF _ g5(2), simplified]
    have "get_codepoint K = (int (?b div 16) * 2 ^ 4 + int (?b mod 16) * 2 ^ 0, get (get (get (get K))))"
      unfolding get_codepoint_def
      by (subst codepoint_zero [OF k g2(2)], subst codepoint_zero [OF _ g3(2)], simp,
          subst codepoint_hex_lower [OF _ _ g4(2)], use 2 in simp, simp,
          subst codepoint_hex_lower [OF _ _ g5(2)], simp, simp) simp
    also have "int (?b div 16) * 2 ^ 4 + int (?b mod 16) * 2 ^ 0 = int ?b" by (simp add: zdiv_int zmod_int)
    finally have "unicode_escape K = Go (add_codepoint (int ?b) (get (get (get (get K)))))"
      using 2 by (simp add: unicode_escape_def)
    moreover have "char_of (int ?b) = c" by (simp add: byte_of_def)
    ultimately have "unicode_escape K = Go (add c (get (get (get (get K)))))"
      using assms(1) by (simp add: add_codepoint_low)
    moreover have "string_step L = unicode_escape K"
      using g1(1) g2(1) by (simp add: string_step_eq Let_def string_escape_def K_def)
    ultimately show ?thesis using g6 by (simp add: K_def)
  next
    case 3
    then have "esc_char c = [c]" by (simp add: esc_char_def escape_cp_def)
    then have "ia L = c # s" using assms(3) by simp
    note g = get_more [OF assms(2) this]
    have "c \<noteq> CHR 0x22" "c \<noteq> CHR 0x5C" using 3 by (auto simp: byte_of_def)
    then show ?thesis using g 3 assms(1) by (simp add: string_step_eq Let_def byte_of_def)
  qed
qed

lemma string_loop_lead:
  assumes "\<not> next_unget L" and "ia L = c # s" and "0x80 \<le> byte_of c" and "utf8_next 0 (byte_of c) \<noteq> 1"
  shows "string_loop L = resume (utf8_next 0 (byte_of c)) (add_current (get L))"
proof -
  note g = get_more [OF assms(1,2)]
  have "c \<noteq> CHR 0x22" "c \<noteq> CHR 0x5C" using assms(3) by (auto simp: byte_of_def)
  then have "string_step L = (case next_byte_in_range (state_ranges (utf8_next 0 (byte_of c))) (get L) of
      (ok, L') \<Rightarrow> if ok then Go L' else Stop (Token_parse_error, L'))"
    using g(1) assms(3) lead_ranges_state [OF assms(3,4)]
    by (simp add: string_step_eq Let_def byte_of_def)
  then show ?thesis
    by (subst string_loop.simps) (simp add: resume_def next_byte_in_range_def split: prod.split)
qed

lemma utf8_next_ascii: "utf8_next 0 b = 0 \<longleftrightarrow> b < 0x80"
  by (simp add: utf8_next_0)

lemma utf8_next_states: "utf8_next 0 b \<noteq> 1 \<Longrightarrow> utf8_next 0 b \<in> {0, 2, 3, 4, 5, 6, 7, 8}"
  by (simp add: utf8_next_0 split: if_splits)

lemma resume_reads:
  "utf8_run st (map byte_of s) \<Longrightarrow> st \<in> {0, 2, 3, 4, 5, 6, 7, 8} \<Longrightarrow> \<not> next_unget L \<Longrightarrow>
   ia L = concat (map esc_char s) @ CHR 0x22 # rest \<Longrightarrow>
   \<exists>L'. resume st L = (Value_string, L') \<and> token_buffer L' = token_buffer L @ s \<and> behind (CHR 0x22) rest L'"
proof (induction s arbitrary: st L)
  case Nil
  then have "string_step L = Stop (Value_string, get L)"
    using get_more [of L "CHR 0x22" rest] by (simp add: string_step_eq Let_def)
  moreover have "behind (CHR 0x22) rest (get L)"
    using Nil get_more [of L "CHR 0x22" rest] by (simp add: behind_def)
  ultimately show ?case using Nil by (simp add: string_loop.simps [of L])
next
  case (Cons c s)
  let ?b = "byte_of c"
  have run: "utf8_next st ?b \<noteq> 1" "utf8_run (utf8_next st ?b) (map byte_of s)" using Cons.prems(1) by simp_all
  consider "st = 0" "?b < 0x80" | "st = 0" "0x80 \<le> ?b" | "st \<in> {2, 3, 4, 5, 6, 7, 8}" "st \<noteq> 0"
    using Cons.prems(2) by force
  then show ?case
  proof cases
    case 1
    then obtain L1 where 2: "string_step L = Go L1" "\<not> next_unget L1"
        "ia L1 = concat (map esc_char s) @ CHR 0x22 # rest" "token_buffer L1 = token_buffer L @ [c]"
      using string_step_escaped [of c L] Cons.prems(3,4) by auto
    have "string_loop L = string_loop L1" using 2(1) by (simp add: string_loop.simps [of L])
    moreover have "utf8_next 0 ?b = 0" using 1 by (simp add: utf8_next_ascii)
    ultimately show ?thesis using Cons.IH [of 0 L1] 2 run 1 by simp
  next
    case 2
    have i: "ia L = c # concat (map esc_char s) @ CHR 0x22 # rest"
      using Cons.prems(4) esc_char_high [OF 2(2)] by simp
    have "string_loop L = resume (utf8_next 0 ?b) (add_current (get L))"
      using string_loop_lead [OF Cons.prems(3) i 2(2)] run 2 by simp
    then show ?thesis
      using Cons.IH [of "utf8_next 0 ?b" "add_current (get L)"] run 2 get_more [OF Cons.prems(3) i]
        utf8_next_states [of ?b] by simp
  next
    case 3
    note st = state_ranges_step [OF 3(1) run(1)]
    have i: "ia L = c # concat (map esc_char s) @ CHR 0x22 # rest"
      using Cons.prems(4) esc_char_high [OF st(3)] by simp
    note g = get_more [OF Cons.prems(3) i]
    have "resume st L = resume (utf8_next st ?b) (add c (get L))"
      by (rule resume_step [OF 3(1) run(1) g(1)])
    then show ?thesis
      using Cons.IH [of "utf8_next st ?b" "add c (get L)"] run st(2) g by auto
  qed
qed

lemma scan_string_reads:
  assumes "ready (CHR 0x22 # concat (map esc_char s) @ CHR 0x22 # rest) L" and "well_formed_utf8 s"
  shows "\<exists>L'. scan L = (Value_string, L') \<and> token_buffer L' = s \<and> ready rest L'"
proof -
  from assms(1) obtain L1 where 1: "scan L = scan_dispatch L1"
      "behind (CHR 0x22) (concat (map esc_char s) @ CHR 0x22 # rest) L1"
    by (rule scan_at) (simp add: is_ws_def)
  have d: "scan_dispatch L1 = string_loop (lreset L1)"
    using 1(2) by (simp add: scan_dispatch_def behind_def scan_string_def)
  have "utf8_run 0 (map byte_of s)" using assms(2) by (simp add: well_formed_utf8_run)
  from resume_reads [OF this, of "lreset L1" rest] 1(2)
  show ?thesis unfolding 1(1) d by (auto simp: behind_def intro: behind_ready [unfolded behind_def])
qed

section \<open>Numbers\<close>

text \<open>The lexer has just read the first character of \<open>rest\<close> (or found it empty).\<close>

definition stopped :: "string \<Rightarrow> lexer \<Rightarrow> bool" where
  "stopped rest L \<longleftrightarrow> \<not> next_unget L \<and> ia L = tl rest \<and>
     current L = (case rest of [] \<Rightarrow> None | c # _ \<Rightarrow> Some c)"

definition digits :: "string \<Rightarrow> bool" where
  "digits ds \<longleftrightarrow> list_all is_digit ds"

text \<open>What may follow a value: the end or a separator.\<close>

definition delim :: "string \<Rightarrow> bool" where
  "delim rest \<longleftrightarrow> rest = [] \<or> hd rest \<in> {CHR '','', CHR '']'', CHR ''}''}"

definition fraction :: "string \<Rightarrow> bool" where
  "fraction f \<longleftrightarrow> f = [] \<or> (\<exists>ds. f = ''.'' @ ds \<and> ds \<noteq> [] \<and> digits ds)"

definition exponent :: "string \<Rightarrow> bool" where
  "exponent x \<longleftrightarrow> x = [] \<or> (\<exists>e s ds. x = e # s @ ds \<and> e \<in> {CHR ''e'', CHR ''E''} \<and>
     s \<in> {[], ''+'', ''-''} \<and> ds \<noteq> [] \<and> digits ds)"

definition not_digit_head :: "string \<Rightarrow> bool" where
  "not_digit_head s \<longleftrightarrow> s = [] \<or> \<not> is_digit (hd s)"

lemma get_stopped: "\<not> next_unget L \<Longrightarrow> ia L = rest \<Longrightarrow> stopped rest (get L)"
  by (cases rest) (simp_all add: stopped_def get_more get_end)

lemma stopped_add [simp]: "stopped rest (add c L) = stopped rest L" "stopped rest (add_current L) = stopped rest L"
  by (simp_all add: stopped_def)

lemma cur_digit_stopped: "stopped s L \<Longrightarrow> cur_digit L \<longleftrightarrow> s \<noteq> [] \<and> is_digit (hd s)"
  by (cases s) (auto simp: stopped_def cur_digit_def)

lemma stopped_tail: "stopped (c # s) L \<Longrightarrow> \<not> next_unget L \<and> ia L = s \<and> current L = Some c"
  by (simp add: stopped_def)

lemma scan_digits_reads:
  assumes "digits ds" and "not_digit_head rest" and "\<not> next_unget L" and "ia L = ds @ rest"
  shows "token_buffer (scan_digits L) = token_buffer L @ ds \<and> stopped rest (scan_digits L) \<and>
    chars_read_total L < chars_read_total (scan_digits L)"
  using assms
proof (induction ds arbitrary: L)
  case Nil
  have "stopped rest (get L)" using Nil by (simp add: get_stopped)
  then show ?case using Nil cur_digit_stopped [of rest "get L"]
    by (auto simp: scan_digits.simps [of L] Let_def not_digit_head_def)
next
  case (Cons d ds)
  have s: "stopped (d # ds @ rest) (get L)" using Cons.prems by (simp add: get_stopped)
  then have "cur_digit (get L)" using Cons.prems(1) by (simp add: cur_digit_stopped digits_def)
  then have "scan_digits L = scan_digits (add_current (get L))"
    by (simp add: scan_digits.simps [of L] Let_def)
  then show ?case
    using Cons.IH [of "add_current (get L)"] Cons.prems stopped_tail [OF s]
    by (auto simp: digits_def)
qed

lemma any2_reads:
  assumes "digits ds" and "not_digit_head rest" and "\<not> next_unget L" and "ia L = ds @ rest"
  shows "\<exists>L'. number_any2 L = number_done Value_float L' \<and> token_buffer L' = token_buffer L @ ds \<and>
    stopped rest L' \<and> chars_read_total L < chars_read_total L'"
  using scan_digits_reads [OF assms] by (auto simp: number_any2_def)

lemma digits_Cons: "digits (d # ds) \<longleftrightarrow> is_digit d \<and> digits ds"
  by (simp add: digits_def)

lemma exponent_reads:
  assumes "s \<in> {[], ''+'', ''-''}" and "ds \<noteq> []" and "digits ds" and "not_digit_head rest"
    and "\<not> next_unget L" and "ia L = s @ ds @ rest"
  shows "\<exists>L'. number_exponent L = number_done Value_float L' \<and> token_buffer L' = token_buffer L @ s @ ds \<and>
    stopped rest L' \<and> chars_read_total L < chars_read_total L'"
proof -
  obtain d es where d: "ds = d # es" "is_digit d" "digits es" using assms(2,3) by (cases ds) (auto simp: digits_Cons)
  have s0: "stopped (s @ ds @ rest) (get L)" using assms(5,6) by (rule get_stopped)
  show ?thesis
  proof (cases "s = []")
    case True
    then have s1: "stopped (d # es @ rest) (get L)" using s0 d by simp
    moreover have "d \<noteq> CHR ''+''" "d \<noteq> CHR ''-''" using d(2) by (auto simp: is_digit_def)
    ultimately have "number_exponent L = number_any2 (add_current (get L))"
      using d(2) cur_digit_stopped [OF s1] stopped_tail [OF s1]
      by (auto simp: number_exponent_def Let_def)
    then show ?thesis
      using any2_reads [OF d(3) assms(4), of "add_current (get L)"] stopped_tail [OF s1] True d by auto
  next
    case False
    then obtain c where c: "s = [c]" "c = CHR ''+'' \<or> c = CHR ''-''" using assms(1) by auto
    then have s1: "stopped (c # d # es @ rest) (get L)" using s0 d by simp
    note t1 = stopped_tail [OF s1]
    have s2: "stopped (d # es @ rest) (get (add_current (get L)))"
      using t1 by (intro get_stopped) simp_all
    note t2 = stopped_tail [OF s2]
    have "number_exponent L = number_any2 (add_current (get (add_current (get L))))"
      using c(2) t1 cur_digit_stopped [OF s2] d(2) by (auto simp: number_exponent_def number_sign_def Let_def)
    then show ?thesis
      using any2_reads [OF d(3) assms(4), of "add_current (get (add_current (get L)))"] t1 t2 c d by auto
  qed
qed

lemma delim_heads:
  assumes "delim rest"
  shows "not_digit_head rest" and "rest = [] \<or> hd rest \<notin> {CHR ''.'', CHR ''e'', CHR ''E''}"
  using assms by (auto simp: delim_def not_digit_head_def is_digit_def)

lemma exponent_head: "exponent x \<Longrightarrow> delim rest \<Longrightarrow> not_digit_head (x @ rest) \<and>
    (x @ rest = [] \<or> hd (x @ rest) \<noteq> CHR ''.'')"
  using delim_heads [of rest] by (auto simp: exponent_def not_digit_head_def is_digit_def)

lemma exponent_part_reads:
  assumes "exponent x" and "delim rest" and "stopped (x @ rest) L"
  shows "\<exists>L'. (if is_exp L then number_exponent (add_current L) else number_done ty L) =
      number_done (if x = [] then ty else Value_float) L' \<and>
    token_buffer L' = token_buffer L @ x \<and> stopped rest L' \<and> chars_read_total L \<le> chars_read_total L'"
proof (cases "x = []")
  case True
  then have "\<not> is_exp L" using assms(3) delim_heads(2) [OF assms(2)]
    by (cases rest) (auto simp: is_exp_def stopped_def)
  then show ?thesis using True assms(3) by auto
next
  case False
  then obtain e s ds where x: "x = e # s @ ds" "e \<in> {CHR ''e'', CHR ''E''}" "s \<in> {[], ''+'', ''-''}" "ds \<noteq> []" "digits ds"
    using assms(1) by (auto simp: exponent_def)
  have t: "\<not> next_unget L \<and> ia L = s @ ds @ rest \<and> current L = Some e"
    using assms(3) x(1) stopped_tail [of e "s @ ds @ rest" L] by simp
  then have "is_exp L" using x(2) by (auto simp: is_exp_def)
  then show ?thesis
    using exponent_reads [OF x(3,4,5) delim_heads(1) [OF assms(2)], of "add_current L"] t x(1) by fastforce
qed

lemma tail_reads:
  assumes "fraction f" and "exponent x" and "delim rest" and "stopped (f @ x @ rest) L"
  shows "\<exists>L'. number_tail ty L = number_done (if f @ x = [] then ty else Value_float) L' \<and>
    token_buffer L' = token_buffer L @ f @ x \<and> stopped rest L' \<and> chars_read_total L \<le> chars_read_total L'"
proof (cases "f = []")
  case True
  then have "current L \<noteq> Some (CHR ''.'')"
    using exponent_head [OF assms(2,3)] assms(4) by (cases "x @ rest") (auto simp: stopped_def)
  then show ?thesis
    using exponent_part_reads [OF assms(2,3), of L ty] assms(4) True by (simp add: number_tail_def)
next
  case False
  then obtain d ds where f: "f = ''.'' @ d # ds" "is_digit d" "digits ds"
    using assms(1) by (auto simp: fraction_def neq_Nil_conv digits_Cons)
  have t: "\<not> next_unget L \<and> ia L = d # ds @ x @ rest \<and> current L = Some (CHR ''.'')"
    using assms(4) f(1) stopped_tail [of "CHR ''.''" "d # ds @ x @ rest" L] by simp
  define K where "K = get (add (CHR ''.'') L)"
  have s1: "stopped (d # ds @ x @ rest) K" unfolding K_def using t by (intro get_stopped) simp_all
  note t1 = stopped_tail [OF s1]
  have "number_tail ty L = number_decimal2 (add_current K)"
    using t cur_digit_stopped [OF s1] f(2) by (simp add: number_tail_def number_decimal1_def Let_def K_def)
  moreover have "not_digit_head (x @ rest)" using exponent_head [OF assms(2,3)] by simp
  note r = scan_digits_reads [OF f(3) this, of "add_current K"]
  have "token_buffer K = token_buffer L @ ''.''" "chars_read_total K = chars_read_total L + 1"
    by (simp_all add: K_def)
  ultimately show ?thesis
    using exponent_part_reads [OF assms(2,3), of "scan_digits (add_current K)" Value_float] r t1 f(1)
    by (fastforce simp: number_decimal2_def Let_def)
qed

text \<open>A number text: sign, integer part without leading zeros, fraction, exponent.\<close>

definition number_text :: "string \<Rightarrow> string \<Rightarrow> string \<Rightarrow> string \<Rightarrow> bool" where
  "number_text sg w f x \<longleftrightarrow> sg \<in> {[], ''-''} \<and> w \<noteq> [] \<and> digits w \<and> (hd w = CHR ''0'' \<longrightarrow> w = ''0'') \<and>
     fraction f \<and> exponent x"

lemma integer_part_reads:
  assumes "number_text sg w f x" and "delim rest" and "stopped (w @ f @ x @ rest) L"
  shows "\<exists>L'. (if current L = Some (CHR ''0'') then number_zero ty (add_current L)
               else number_any1 ty (add_current L)) = number_done (if f @ x = [] then ty else Value_float) L' \<and>
    token_buffer L' = token_buffer L @ w @ f @ x \<and> stopped rest L' \<and> chars_read_total L < chars_read_total L'"
proof -
  obtain d ds where w: "w = d # ds" "is_digit d" "digits ds" "d = CHR ''0'' \<longrightarrow> ds = []"
    and f: "fraction f" and x: "exponent x"
    using assms(1) by (cases w) (auto simp: number_text_def digits_Cons)
  note t = stopped_tail [of d "ds @ f @ x @ rest" L]
  have h: "not_digit_head (f @ x @ rest)"
    using f exponent_head [OF x assms(2)] by (auto simp: fraction_def not_digit_head_def)
  have s: "\<exists>K. (if current L = Some (CHR ''0'') then number_zero ty (add_current L)
               else number_any1 ty (add_current L)) = number_tail ty K \<and> stopped (f @ x @ rest) K \<and>
      token_buffer K = token_buffer L @ w \<and> chars_read_total L < chars_read_total K"
  proof (cases "d = CHR ''0''")
    case True
    then show ?thesis using t w assms(3)
      by (intro exI [of _ "get (add_current L)"]) (auto simp: number_zero_def intro!: get_stopped)
  next
    case False
    then show ?thesis using t w assms(3) scan_digits_reads [OF w(3) h, of "add_current L"]
      by (intro exI [of _ "scan_digits (add_current L)"]) (auto simp: number_any1_def)
  qed
  then obtain K where K: "(if current L = Some (CHR ''0'') then number_zero ty (add_current L)
        else number_any1 ty (add_current L)) = number_tail ty K" "stopped (f @ x @ rest) K"
      "token_buffer K = token_buffer L @ w" "chars_read_total L < chars_read_total K" by blast
  show ?thesis using tail_reads [OF f x assms(2) K(2), of ty] K by fastforce
qed

lemma scan_number_reads:
  assumes "ready (sg @ w @ f @ x @ rest) L" and "number_text sg w f x" and "delim rest"
  shows "\<exists>L'. scan L = number_done (if f @ x = [] then if sg = [] then Value_unsigned else Value_integer
      else Value_float) L' \<and> token_buffer L' = sg @ w @ f @ x \<and> stopped rest L' \<and> 1 < chars_read_total L'"
proof -
  obtain d ds where w: "w = d # ds" "is_digit d" using assms(2) by (cases w) (auto simp: number_text_def digits_Cons)
  have nd: "\<not> is_ws d" "d \<notin> {CHR ''['', CHR '']'', CHR ''{'', CHR ''}'', CHR '':'', CHR '','', CHR ''t'', CHR ''f'', CHR ''n'',
      CHR 0x22, CHR ''-''}"
    using w(2) by (auto simp: is_digit_def is_ws_def)
  have m: "\<not> is_ws CHR ''-''" by (simp add: is_ws_def)
  show ?thesis
  proof (cases "sg = []")
    case True
    then have "ready (d # ds @ f @ x @ rest) L" using assms(1) w by simp
    then obtain L1 where 1: "scan L = scan_dispatch L1" "behind d (ds @ f @ x @ rest) L1" using nd(1) by (rule scan_at)
    then have "scan_dispatch L1 = scan_number L1"
      using nd(2) w(2) by (simp add: scan_dispatch_def behind_def)
    moreover have "stopped (w @ f @ x @ rest) (lreset L1)"
      using 1(2) w by (simp add: behind_def stopped_def)
    note r = integer_part_reads [OF assms(2,3) this, of Value_unsigned]
    have "current (lreset L1) \<noteq> Some CHR ''-''" using nd(2) 1(2) by (auto simp: behind_def)
    moreover have "0 < chars_read_total L1" using 1(2) by (simp add: behind_def)
    ultimately show ?thesis using r 1(1) True by (auto simp: scan_number_def Let_def)
  next
    case False
    then have sg: "sg = ''-''" using assms(2) by (simp add: number_text_def)
    then have "ready (CHR ''-'' # w @ f @ x @ rest) L" using assms(1) by simp
    then obtain L1 where 1: "scan L = scan_dispatch L1" "behind (CHR ''-'') (w @ f @ x @ rest) L1" using m by (rule scan_at)
    then have "scan_dispatch L1 = scan_number L1"
      by (simp add: scan_dispatch_def behind_def)
    moreover define K where "K = get (add_current (lreset L1))"
    have s: "stopped (w @ f @ x @ rest) K"
      unfolding K_def using 1(2) by (intro get_stopped) (simp_all add: behind_def)
    have K: "token_buffer K = ''-''" "1 < chars_read_total K" using 1(2) by (simp_all add: K_def behind_def)
    note r = integer_part_reads [OF assms(2,3) s, of Value_integer]
    have "cur_digit K" using cur_digit_stopped [OF s] w by simp
    then have "scan_number L1 = (if current K = Some (CHR ''0'') then number_zero Value_integer (add_current K)
               else number_any1 Value_integer (add_current K))"
      using 1(2) by (simp add: scan_number_def number_minus_def Let_def K_def behind_def)
    ultimately show ?thesis using r 1(1) sg K by force
  qed
qed

lemma number_done_ready:
  assumes "stopped rest L" and "1 < chars_read_total L"
  shows "ready rest (snd (number_done ty L))"
proof -
  have t: "chars_read_total (unget L) = chars_read_total L - 1" "eof_ok (unget L)" "pending (unget L) = rest"
    using assms(1)
    by (auto simp: unget_def Let_def eof_ok_def pending_def stopped_def split: option.splits list.splits)
  have u: "ready rest (unget L)" using t assms(2) by (simp add: ready_def)
  then show ?thesis
    by (auto simp: number_done_def Let_def ready_def eof_ok_def pending_def)
qed

lemma number_done_value:
  "token_buffer L = s \<Longrightarrow> signed_digits s \<le> ulong_max \<Longrightarrow>
     number_done Value_unsigned L = (Value_unsigned, (unget L)\<lparr>value_unsigned := signed_digits s\<rparr>)"
  "token_buffer L = s \<Longrightarrow> i64_min \<le> signed_digits s \<Longrightarrow> signed_digits s \<le> i64_max \<Longrightarrow>
     number_done Value_integer L = (Value_integer, (unget L)\<lparr>value_integer := signed_digits s\<rparr>)"
  "token_buffer L = s \<Longrightarrow> number_done Value_float L = (Value_float, (unget L)\<lparr>value_float := strtod s\<rparr>)"
  by (auto simp: number_done_def Let_def unget_def split: option.split)

section \<open>Integers\<close>

lemma dec_str_head: "0 \<le> n \<Longrightarrow> hd (dec_str n) = CHR ''0'' \<Longrightarrow> n = 0"
proof (induction n rule: dec_str.induct)
  case (1 n)
  show ?case
  proof (cases "n < 10")
    case True
    then have "digit_val (digit_char n) = digit_val CHR ''0''"
      using 1(3) by (simp add: dec_str.simps [of n])
    moreover have "digit_val CHR ''0'' = 0" by code_simp
    ultimately show ?thesis using True 1(2) by simp
  next
    case False
    then have "hd (dec_str n) = hd (dec_str (n div 10))" by (simp add: dec_str.simps [of n])
    moreover have "0 \<le> n div 10" "n div 10 \<noteq> 0" using False by linarith+
    ultimately show ?thesis using 1 False by simp
  qed
qed

lemma dec_str_number: "0 \<le> n \<Longrightarrow> sg \<in> {[], ''-''} \<Longrightarrow> number_text sg (dec_str n) [] []"
  using dec_str_head [of n] dec_str_digits [of n]
  by (auto simp: number_text_def fraction_def exponent_def digits_def dec_str.simps [of 0])

lemma is_digit_sign: "is_digit c \<Longrightarrow> c \<noteq> CHR ''-'' \<and> c \<noteq> CHR ''+''"
  by (auto simp: is_digit_def)

lemma signed_digits_int_str [simp]: "signed_digits (int_str i) = i"
proof (cases "i < 0")
  case True
  then show ?thesis by (simp add: int_str_def signed_digits_def starts_with_def)
next
  case False
  obtain d ds where d: "dec_str i = d # ds" by (cases "dec_str i") auto
  then have "d \<noteq> CHR ''-''" "d \<noteq> CHR ''+''"
    using dec_str_digits [of i] False is_digit_sign [of d] by auto
  then have "signed_digits (dec_str i) = digits_val 0 (dec_str i)"
    by (simp add: d signed_digits_def starts_with_def)
  then show ?thesis using False by (simp add: int_str_def)
qed

lemma scan_integer_reads:
  assumes "ready (int_str i @ rest) L" and "delim rest"
  shows "0 \<le> i \<Longrightarrow> i \<le> ulong_max \<Longrightarrow>
      \<exists>L'. scan L = (Value_unsigned, L') \<and> value_unsigned L' = i \<and> ready rest L'"
    and "i < 0 \<Longrightarrow> i64_min \<le> i \<Longrightarrow>
      \<exists>L'. scan L = (Value_integer, L') \<and> value_integer L' = i \<and> ready rest L'"
proof -
  show "\<exists>L'. scan L = (Value_unsigned, L') \<and> value_unsigned L' = i \<and> ready rest L'"
    if "0 \<le> i" "i \<le> ulong_max"
  proof -
    have "ready ([] @ dec_str i @ [] @ [] @ rest) L" using assms(1) that by (simp add: int_str_def)
    from scan_number_reads [OF this dec_str_number assms(2)] that(1)
    obtain L' where L': "scan L = number_done Value_unsigned L'" "token_buffer L' = int_str i"
        "stopped rest L'" "1 < chars_read_total L'" by (auto simp: int_str_def)
    then show ?thesis
      using number_done_value(1) [OF L'(2)] number_done_ready [OF L'(3,4), of Value_unsigned] that
      by simp
  qed
  show "\<exists>L'. scan L = (Value_integer, L') \<and> value_integer L' = i \<and> ready rest L'"
    if "i < 0" "i64_min \<le> i"
  proof -
    have "ready (''-'' @ dec_str (- i) @ [] @ [] @ rest) L" using assms(1) that by (simp add: int_str_def)
    from scan_number_reads [OF this dec_str_number assms(2)] that(1)
    obtain L' where L': "scan L = number_done Value_integer L'" "token_buffer L' = int_str i"
        "stopped rest L'" "1 < chars_read_total L'" by (auto simp: int_str_def)
    have "i \<le> i64_max" using that(1) by (simp add: i64_max_def)
    then show ?thesis
      using number_done_value(2) [OF L'(2)] number_done_ready [OF L'(3,4), of Value_integer] L'(1) that
      by simp
  qed
qed

section \<open>Floats\<close>

text \<open>A text the scanner takes for a float: a number with a fraction or an exponent.\<close>

definition float_text :: "string \<Rightarrow> bool" where
  "float_text t \<longleftrightarrow> (\<exists>sg w f x. t = sg @ w @ f @ x \<and> number_text sg w f x \<and> f @ x \<noteq> [])"

definition representable :: "dbl \<Rightarrow> bool" where
  "representable d = (case d of Fin q \<Rightarrow> rnd q = Fin q | _ \<Rightarrow> False)"

lemma scan_float_reads:
  assumes "ready (t @ rest) L" and "float_text t" and "delim rest"
  shows "\<exists>L'. scan L = (Value_float, L') \<and> value_float L' = strtod t \<and> ready rest L'"
proof -
  obtain sg w f x where t: "t = sg @ w @ f @ x" "number_text sg w f x" "f @ x \<noteq> []"
    using assms(2) by (auto simp: float_text_def)
  then have "ready (sg @ w @ f @ x @ rest) L" using assms(1) by simp
  from scan_number_reads [OF this t(2) assms(3)] t(3)
  obtain L' where L': "scan L = number_done Value_float L'" "token_buffer L' = t"
      "stopped rest L'" "1 < chars_read_total L'" by (auto simp: t(1))
  then show ?thesis
    using number_done_value(3) [OF L'(2)] number_done_ready [OF L'(3,4), of Value_float] by simp
qed

text \<open>What is relied on of \<open>to_chars\<close>, the shortest-round-trip printer of the library.\<close>

locale float_printer =
  fixes ft :: "dbl \<Rightarrow> string"
  assumes prints_float: "representable d \<Longrightarrow> float_text (ft d)"
    and reads_back: "representable d \<Longrightarrow> strtod (ft d) = d"
begin

lemma scan_printed:
  assumes "ready (ft d @ rest) L" and "representable d" and "delim rest"
  shows "\<exists>L'. scan L = (Value_float, L') \<and> value_float L' = d \<and> ready rest L'"
  using scan_float_reads [OF assms(1) prints_float assms(3)] reads_back assms(2) by simp

end

text \<open>
  A printer with this property: every finite double is a multiple of 2^-1074, so it has a finite
  decimal expansion. (The library prints the shortest one.)
\<close>

definition scale :: nat where
  "scale = 1074"

definition dyadic_text :: "dbl \<Rightarrow> string" where
  "dyadic_text d = (case d of
      Fin q \<Rightarrow> (if q < 0 then ''-'' else []) @ dec_str (\<lfloor>\<bar>q\<bar> * 2 ^ scale\<rfloor> * 5 ^ scale) @
        ''e-'' @ dec_str (int scale)
    | _ \<Rightarrow> [])"

lemma rnd_val_multiple: "\<exists>m. rnd_val q * 2 ^ scale = of_int m"
proof (cases "q = 0")
  case False
  let ?e = "ulp_exp q"
  have e: "0 \<le> ?e + int scale" by (simp add: ulp_exp_def scale_def)
  have "(2 :: rat) ^ scale = pow2 (int scale)" by (simp add: pow2_def)
  then have "pow2 ?e * 2 ^ scale = pow2 (?e + int scale)" by (simp add: pow2_powi power_int_add)
  also have "\<dots> = of_int (2 ^ nat (?e + int scale))" using e by (simp add: pow2_def)
  finally have "rnd_val q * 2 ^ scale = of_int (rne (q / pow2 ?e) * 2 ^ nat (?e + int scale))"
    using False by (simp add: rnd_val_def mult.assoc)
  then show ?thesis by blast
qed (simp add: rnd_val_def exI [of _ 0])

lemma is_digit_other: "is_digit c \<Longrightarrow> c \<noteq> CHR ''e'' \<and> c \<noteq> CHR ''E'' \<and> c \<noteq> CHR ''.''"
  by (auto simp: is_digit_def)

lemma takeWhile_digits:
  assumes "digits w"
  shows "takeWhile (\<lambda>c. c \<noteq> CHR ''e'' \<and> c \<noteq> CHR ''E'') (w @ CHR ''e'' # s) = w"
    and "takeWhile (\<lambda>c. c \<noteq> CHR ''.'') w = w"
  using assms is_digit_other by (induction w) (simp_all add: digits_Cons)

lemma dyadic_value:
  assumes "0 \<le> n" and "0 \<le> k"
  shows "decimal_value ((if neg then ''-'' else []) @ dec_str n @ ''e-'' @ dec_str k) =
     (if neg then - 1 else 1) * of_int n * pow10 (- k)"
proof -
  have d: "digits (dec_str n)" using dec_str_digits [OF assms(1)] by (simp add: digits_def)
  obtain c cs where c: "dec_str n = c # cs" by (cases "dec_str n") auto
  then have "c \<noteq> CHR ''-''" using d is_digit_sign [of c] by (simp add: digits_Cons)
  then have nm: "\<not> starts_with ''-'' (dec_str n @ s)" for s by (simp add: c starts_with_def)
  have "num_parts (dec_str n @ CHR ''e'' # s) = (dec_str n, [], s)" for s
    unfolding num_parts_def Let_def takeWhile_digits [OF d] by simp
  note p = this [of "CHR ''-'' # dec_str k"]
  have e: "signed_digits (CHR ''-'' # dec_str k) = - k"
    using assms(2) by (simp add: signed_digits_def starts_with_def)
  have v: "decimal_value (dec_str n @ CHR ''e'' # CHR ''-'' # dec_str k) = of_int n * pow10 (- k)"
    using assms nm p by (simp add: decimal_value_def e)
  have "decimal_value (CHR ''-'' # dec_str n @ CHR ''e'' # CHR ''-'' # dec_str k) = - of_int n * pow10 (- k)"
    using assms p by (simp add: decimal_value_def starts_with_def e)
  then show ?thesis using v by (cases neg) simp_all
qed

interpretation dyadic: float_printer dyadic_text
proof
  fix d :: dbl
  assume "representable d"
  then obtain q where q: "d = Fin q" "rnd q = Fin q" by (auto simp: representable_def split: dbl.splits)
  define n where "n = \<lfloor>\<bar>q\<bar> * 2 ^ scale\<rfloor>"
  have n: "0 \<le> n" "0 \<le> n * 5 ^ scale" by (simp_all add: n_def)
  let ?x = "''e-'' @ dec_str (int scale)"
  have t: "dyadic_text d = (if q < 0 then ''-'' else []) @ dec_str (n * 5 ^ scale) @ ?x"
    by (simp add: dyadic_text_def q n_def)
  have "digits (dec_str (int scale))" using dec_str_digits by (simp add: digits_def)
  then have "exponent ?x"
    unfolding exponent_def
    by (intro disjI2 exI [of _ "CHR ''e''"] exI [of _ "''-''"] exI [of _ "dec_str (int scale)"]) simp
  then have nt: "number_text (if q < 0 then ''-'' else []) (dec_str (n * 5 ^ scale)) [] ?x"
    using dec_str_number [OF n(2), of "''-''"] by (auto simp: number_text_def)
  show "float_text (dyadic_text d)"
    unfolding float_text_def t
    by (intro exI [of _ "if q < 0 then ''-'' else []"] exI [of _ "dec_str (n * 5 ^ scale)"]
        exI [of _ "[]"] exI [of _ ?x] conjI nt) simp_all
  have "rnd_val q = q" using q(2) by (simp add: rnd_def Let_def split: if_splits)
  then obtain m where m: "q * 2 ^ scale = of_int m" using rnd_val_multiple [of q] by auto
  have "\<bar>q\<bar> * 2 ^ scale = \<bar>q * 2 ^ scale\<bar>" by (simp add: abs_mult)
  also have "\<dots> = of_int \<bar>m\<bar>" by (simp add: m)
  finally have nq: "of_int n = \<bar>q\<bar> * 2 ^ scale" unfolding n_def by simp
  have "0 < scale" by (simp add: scale_def)
  then have "(2 ^ scale * 5 ^ scale :: rat) * pow10 (- int scale) = 1"
    by (simp add: pow10_def power_mult_distrib [symmetric])
  then have "of_int (n * 5 ^ scale) * pow10 (- int scale) = \<bar>q\<bar>"
    by (simp add: nq mult.assoc)
  then have "decimal_value (dyadic_text d) = (if q < 0 then - 1 else 1) * \<bar>q\<bar>"
    unfolding t by (subst dyadic_value [OF n(2)]) (simp_all add: mult.assoc)
  also have "\<dots> = q" by simp
  finally show "strtod (dyadic_text d) = d" using q by (simp add: strtod_def)
qed

section \<open>Values\<close>

text \<open>The value that comes back: a non-negative integer is read as unsigned.\<close>

fun norm_json :: "json \<Rightarrow> json" where
  "norm_json (JObject es) = JObject (map (\<lambda>e. (fst e, norm_json (snd e))) es)"
| "norm_json (JArray xs) = JArray (map norm_json xs)"
| "norm_json (JInt i) = (if 0 \<le> i then JUInt i else JInt i)"
| "norm_json j = j"

fun floats_ok :: "json \<Rightarrow> bool" where
  "floats_ok (JObject es) \<longleftrightarrow> (\<forall>e \<in> set es. floats_ok (snd e))"
| "floats_ok (JArray xs) \<longleftrightarrow> (\<forall>x \<in> set xs. floats_ok x)"
| "floats_ok (JFloat d) \<longleftrightarrow> representable d"
| "floats_ok _ \<longleftrightarrow> True"

text \<open>Replacing the lexer and the last token, which is what \<open>get_token\<close> does.\<close>

definition with_token :: "token_type \<times> lexer \<Rightarrow> parser \<Rightarrow> parser" where
  "with_token r p = p\<lparr>m_lexer := snd r, last_token := fst r\<rparr>"

lemma get_token_eq: "get_token p = with_token (scan (m_lexer p)) p"
  by (simp add: get_token_def with_token_def split: prod.split)

lemma with_token_simps [simp]:
  "m_lexer (with_token r p) = snd r" "last_token (with_token r p) = fst r"
  "root (with_token r p) = root p" "ref_stack (with_token r p) = ref_stack p" "states (with_token r p) = states p"
  "with_token r (with_token q p) = with_token r p"
  "with_token r (p\<lparr>states := st\<rparr>) = (with_token r p)\<lparr>states := st\<rparr>"
  "with_token r (p\<lparr>ref_stack := fs\<rparr>) = (with_token r p)\<lparr>ref_stack := fs\<rparr>"
  by (simp_all add: with_token_def)

lemma sax_True: "state_eval p = Inr (Some sk, q) \<Longrightarrow> sax_loop True p = sax_loop sk q"
  by (subst sax_loop.simps) simp

lemma sax_end: "states p = [] \<Longrightarrow> sax_loop True p = Inr p"
  by (subst sax_loop.simps) (simp add: state_eval_def)

lemma sax_value: "value_switch p = Inr (False, q) \<Longrightarrow> sax_loop False p = sax_loop True q"
  by (subst (1 2) sax_loop.simps) simp

lemma sax_nested: "value_switch p = Inr (True, q) \<Longrightarrow> sax_loop False p = sax_loop False q"
  by (subst sax_loop.simps) simp

lemma handle_value_with_token:
  "handle_value v (with_token r p) = with_token r (handle_value v p)"
  "handle_value v (p\<lparr>states := st\<rparr>) = (handle_value v p)\<lparr>states := st\<rparr>"
  by (simp_all add: handle_value_def with_token_def split: list.split frame.split)

text \<open>
  Parsing the text of the value \<open>j\<close>, whose first token is read from \<open>L\<close>, comes down to storing
  it and going on after it.
\<close>

definition reads_value :: "json \<Rightarrow> string \<Rightarrow> bool" where
  "reads_value j t \<longleftrightarrow> (\<forall>rest L p. ready (t @ rest) L \<longrightarrow> delim rest \<longrightarrow>
     (\<exists>r. ready rest (snd r) \<and>
        sax_loop False (with_token (scan L) p) = sax_loop True (with_token r (handle_value j p))))"

lemma reads_valueI:
  assumes "\<And>rest L. ready (t @ rest) L \<Longrightarrow> delim rest \<Longrightarrow>
      \<exists>L'. ready rest L' \<and> (\<forall>p. \<exists>r. snd r = L' \<and>
        value_switch (with_token (scan L) p) = Inr (False, with_token r (handle_value j p)))"
  shows "reads_value j t"
  unfolding reads_value_def
proof (intro allI impI)
  fix rest L and p :: parser
  assume "ready (t @ rest) L" "delim rest"
  then obtain L' r where "ready rest L'" "snd r = L'"
      "value_switch (with_token (scan L) p) = Inr (False, with_token r (handle_value j p))"
    using assms by blast
  then show "\<exists>r. ready rest (snd r) \<and>
      sax_loop False (with_token (scan L) p) = sax_loop True (with_token r (handle_value j p))"
    using sax_value by blast
qed

lemma reads_scalar:
  assumes "\<And>rest L. ready (t @ rest) L \<Longrightarrow> delim rest \<Longrightarrow>
      \<exists>L'. scan L = (ty, L') \<and> ready rest L' \<and>
        (\<forall>p. value_switch (with_token (ty, L') p) = Inr (False, handle_value j (with_token (ty, L') p)))"
  shows "reads_value j t"
proof (rule reads_valueI)
  fix rest L
  assume "ready (t @ rest) L" "delim rest"
  then obtain L' where "scan L = (ty, L')" "ready rest L'"
      "\<forall>p. value_switch (with_token (ty, L') p) = Inr (False, handle_value j (with_token (ty, L') p))"
    using assms by blast
  then show "\<exists>L'. ready rest L' \<and> (\<forall>p. \<exists>r. snd r = L' \<and>
        value_switch (with_token (scan L) p) = Inr (False, with_token r (handle_value j p)))"
    by (intro exI [of _ L'] conjI allI) (auto simp: handle_value_with_token intro!: exI [of _ "(ty, L')"])
qed

lemma reads_atoms:
  "reads_value (JBool True) ''true''" "reads_value (JBool False) ''false''" "reads_value JNull ''null''"
  by (rule reads_scalar, drule literals, auto simp: value_switch_def)+

lemma reads_string:
  "well_formed_utf8 s \<Longrightarrow> reads_value (JString s) ([CHR 0x22] @ concat (map esc_char s) @ [CHR 0x22])"
  by (rule reads_scalar [where ty = Value_string])
    (auto simp: value_switch_def dest!: scan_string_reads)

lemma reads_integer:
  "i64_min \<le> i \<Longrightarrow> i \<le> ulong_max \<Longrightarrow> reads_value (norm_json (JInt i)) (int_str i)"
proof (cases "0 \<le> i")
  case True
  assume "i \<le> ulong_max"
  then have "reads_value (JUInt i) (int_str i)"
    using True by (intro reads_scalar [where ty = Value_unsigned])
      (auto simp: value_switch_def dest!: scan_integer_reads(1))
  then show ?thesis using True by simp
next
  case False
  assume "i64_min \<le> i"
  then have "reads_value (JInt i) (int_str i)"
    using False by (intro reads_scalar [where ty = Value_integer])
      (auto simp: value_switch_def dest!: scan_integer_reads(2))
  then show ?thesis using False by simp
qed

context float_printer
begin

lemma reads_float: "representable d \<Longrightarrow> reads_value (JFloat d) (ft d)"
proof (rule reads_scalar [where ty = Value_float])
  fix rest L
  assume "representable d" "ready (ft d @ rest) L" "delim rest"
  moreover from this have "isfinite d" by (auto simp: representable_def split: dbl.splits)
  ultimately show "\<exists>L'. scan L = (Value_float, L') \<and> ready rest L' \<and>
      (\<forall>p. value_switch (with_token (Value_float, L') p) = Inr (False, handle_value (JFloat d) (with_token (Value_float, L') p)))"
    using scan_printed by (fastforce simp: value_switch_def)
qed

end

section \<open>Arrays\<close>

lemma joined: "join_with sep (t # ts) = (if ts = [] then t else t @ sep @ join_with sep ts)"
  by (cases ts) auto

lemma reads_not_close:
  assumes "reads_value j t" and "ready (t @ rest) L" and "delim rest"
  shows "fst (scan L) \<noteq> End_array"
proof
  assume a: "fst (scan L) = End_array"
  define p where "p = \<lparr>m_lexer = L, last_token = Uninitialized, root = JNull, ref_stack = [], states = []\<rparr>"
  obtain r where "sax_loop False (with_token (scan L) p) = sax_loop True (with_token r (handle_value j p))"
    using assms unfolding reads_value_def by blast
  also have "\<dots> = Inr (with_token r (handle_value j p))"
    by (rule sax_end) (simp add: p_def)
  finally show False
    by (subst (asm) sax_loop.simps) (simp add: a value_switch_def)
qed

lemma delim_close: "delim (CHR '']'' # s)" "delim (CHR ''}'' # s)" "delim (CHR '','' # s)"
  by (simp_all add: delim_def)

lemma reads_elements:
  "list_all2 reads_value js ts \<Longrightarrow> js \<noteq> [] \<Longrightarrow> ready (join_with '','' ts @ CHR '']'' # rest) L \<Longrightarrow>
   ref_stack p = In_array ys # fs \<Longrightarrow> states p = True # st \<Longrightarrow>
   \<exists>r. ready rest (snd r) \<and> sax_loop False (with_token (scan L) p) =
     sax_loop True (with_token r (handle_value (JArray (ys @ js)) (p\<lparr>ref_stack := fs, states := st\<rparr>)))"
proof (induction js arbitrary: ts L p ys)
  case (Cons j js)
  obtain t ts' where ts: "ts = t # ts'" "reads_value j t" "list_all2 reads_value js ts'"
    using Cons.prems(1) by (cases ts) auto
  have h: "ref_stack (handle_value j p) = In_array (ys @ [j]) # fs"
    using Cons.prems(4) by (simp add: handle_value_def)
  show ?case
  proof (cases "js = []")
    case True
    then have "ts' = []" using ts(3) by simp
    then have "ready (t @ CHR '']'' # rest) L" using Cons.prems(3) ts(1) by simp
    with ts(2) obtain r where r: "ready (CHR '']'' # rest) (snd r)"
      "sax_loop False (with_token (scan L) p) = sax_loop True (with_token r (handle_value j p))"
      unfolding reads_value_def using delim_close(1) by blast
    obtain L' where L': "scan (snd r) = (End_array, L')" "ready rest L'" using punctuation(2) [OF r(1)] by blast
    have "state_eval (with_token r (handle_value j p)) =
        Inr (Some True, (end_container (with_token (End_array, L') (handle_value j p)))\<lparr>states := st\<rparr>)"
      using Cons.prems(5) L' by (simp add: state_eval_def get_token_eq Let_def)
    moreover have "(end_container (with_token (End_array, L') (handle_value j p)))\<lparr>states := st\<rparr> =
        with_token (End_array, L') (handle_value (JArray (ys @ [j])) (p\<lparr>ref_stack := fs, states := st\<rparr>))"
      using h Cons.prems(4) by (simp add: end_container_def handle_value_def with_token_def split: list.split frame.split)
    ultimately show ?thesis
      using r(2) sax_True L'(2) True by (intro exI [of _ "(End_array, L')"]) simp
  next
    case False
    then have "ts' \<noteq> []" using ts(3) by auto
    then have "ready (t @ CHR '','' # join_with '','' ts' @ CHR '']'' # rest) L"
      using Cons.prems(3) ts(1) by (simp add: joined)
    with ts(2) obtain r where r: "ready (CHR '','' # join_with '','' ts' @ CHR '']'' # rest) (snd r)"
      "sax_loop False (with_token (scan L) p) = sax_loop True (with_token r (handle_value j p))"
      unfolding reads_value_def using delim_close(3) by blast
    obtain L' where L': "scan (snd r) = (Value_separator, L')" "ready (join_with '','' ts' @ CHR '']'' # rest) L'"
      using punctuation(6) [OF r(1)] by blast
    have "state_eval (with_token r (handle_value j p)) =
        Inr (Some False, with_token (scan L') (handle_value j p))"
      using Cons.prems(5) L' by (simp add: state_eval_def get_token_eq Let_def)
    then have s: "sax_loop False (with_token (scan L) p) = sax_loop False (with_token (scan L') (handle_value j p))"
      using r(2) sax_True by simp
    have p: "handle_value v ((handle_value j p)\<lparr>ref_stack := fs, states := st\<rparr>) =
        handle_value v (p\<lparr>ref_stack := fs, states := st\<rparr>)" for v
      using Cons.prems(4) by (simp add: handle_value_def)
    show ?thesis
      using Cons.IH [OF ts(3) False L'(2) h] Cons.prems(5) unfolding s p by simp
  qed
qed simp

lemma reads_array:
  assumes "list_all2 reads_value js ts"
  shows "reads_value (JArray js) (dump_elements ts)"
  unfolding reads_value_def
proof (intro allI impI)
  fix rest L and p :: parser
  assume L: "ready (dump_elements ts @ rest) L" and d: "delim rest"
  then have "ready (CHR ''['' # join_with '','' ts @ CHR '']'' # rest) L" by (simp add: dump_elements_def)
  then obtain L1 where L1: "scan L = (Begin_array, L1)" "ready (join_with '','' ts @ CHR '']'' # rest) L1"
    using punctuation(1) by blast
  show "\<exists>r. ready rest (snd r) \<and>
      sax_loop False (with_token (scan L) p) = sax_loop True (with_token r (handle_value (JArray js) p))"
  proof (cases "js = []")
    case True
    then have "ready (CHR '']'' # rest) L1" using L1(2) assms by simp
    then obtain L2 where L2: "scan L1 = (End_array, L2)" "ready rest L2" using punctuation(2) by blast
    have "value_switch (with_token (scan L) p) =
        Inr (False, end_container (with_token (End_array, L2) (start_array p)))"
      using L1 L2 by (simp add: value_switch_def get_token_eq start_array_def Let_def)
    moreover have "end_container (with_token (End_array, L2) (start_array p)) =
        with_token (End_array, L2) (handle_value (JArray js) p)"
      using True by (simp add: end_container_def start_array_def handle_value_def with_token_def
          split: list.split frame.split)
    ultimately show ?thesis using L2(2) sax_value by (intro exI [of _ "(End_array, L2)"]) simp
  next
    case False
    then obtain j js' t ts' where jt: "js = j # js'" "ts = t # ts'" "reads_value j t"
      using assms by (cases js; cases ts) auto
    define s where "s = (if ts' = [] then CHR '']'' # rest else CHR '','' # join_with '','' ts' @ CHR '']'' # rest)"
    have "ready (t @ s) L1" using L1(2) jt(2) by (cases "ts' = []") (simp_all add: s_def joined)
    moreover have "delim s" by (simp add: s_def delim_close)
    ultimately have "fst (scan L1) \<noteq> End_array" by (rule reads_not_close [OF jt(3)])
    then have "value_switch (with_token (scan L) p) =
        Inr (True, with_token (scan L1) ((start_array p)\<lparr>states := True # states p\<rparr>))"
      using L1 by (simp add: value_switch_def get_token_eq start_array_def Let_def)
    then have s: "sax_loop False (with_token (scan L) p) =
        sax_loop False (with_token (scan L1) ((start_array p)\<lparr>states := True # states p\<rparr>))"
      by (rule sax_nested)
    have "ref_stack ((start_array p)\<lparr>states := True # states p\<rparr>) = In_array [] # ref_stack p"
      "states ((start_array p)\<lparr>states := True # states p\<rparr>) = True # states p"
      by (simp_all add: start_array_def)
    from reads_elements [OF assms False L1(2) this]
    show ?thesis unfolding s by (simp add: start_array_def)
  qed
qed

section \<open>Objects\<close>

definition key_text :: "string \<Rightarrow> string" where
  "key_text k = [CHR 0x22] @ concat (map esc_char k) @ [CHR 0x22]"

definition member_text :: "string \<times> json \<Rightarrow> string \<Rightarrow> bool" where
  "member_text e t \<longleftrightarrow> (\<exists>v. t = key_text (fst e) @ '':'' @ v \<and> well_formed_utf8 (fst e) \<and> reads_value (snd e) v)"

lemma omap_put_twice: "omap_put k v (omap_put k u m) = omap_put k v m"
  by (induction m) auto

lemma reads_key:
  assumes "ready (key_text k @ '':'' @ s) L" and "well_formed_utf8 k" and "ref_stack p = In_object es k0 # fs"
  shows "\<exists>r. parse_key (with_token (scan L) p) =
      Inr (with_token r (p\<lparr>ref_stack := In_object (omap_put k JNull es) k # fs\<rparr>)) \<and> ready s (snd r)"
    and "fst (scan L) = Value_string"
proof -
  obtain L1 where L1: "scan L = (Value_string, L1)" "token_buffer L1 = k" "ready (CHR '':'' # s) L1"
    using scan_string_reads [of k "CHR '':'' # s" L] assms(1,2) by (auto simp: key_text_def)
  obtain L2 where L2: "scan L1 = (Name_separator, L2)" "ready s L2" using punctuation(5) [OF L1(3)] by blast
  have "sax_key k (with_token (scan L) p) = with_token (scan L) (p\<lparr>ref_stack := In_object (omap_put k JNull es) k # fs\<rparr>)"
    using assms(3) by (simp add: sax_key_def)
  then show "\<exists>r. parse_key (with_token (scan L) p) =
      Inr (with_token r (p\<lparr>ref_stack := In_object (omap_put k JNull es) k # fs\<rparr>)) \<and> ready s (snd r)"
    using L1 L2 by (intro exI [of _ "(Name_separator, L2)"]) (simp add: parse_key_def Let_def get_token_eq)
  show "fst (scan L) = Value_string" using L1 by simp
qed

lemma reads_members:
  "list_all2 member_text es ts \<Longrightarrow> es \<noteq> [] \<Longrightarrow> ready (join_with '','' ts @ CHR ''}'' # rest) L \<Longrightarrow>
   ref_stack p = In_object es0 k0 # fs \<Longrightarrow>
   \<exists>q. parse_key (with_token (scan L) p) = Inr q \<and> states q = states p \<and>
     (\<forall>st. \<exists>r. ready rest (snd r) \<and> sax_loop False (get_token (q\<lparr>states := False # st\<rparr>)) =
       sax_loop True (with_token r (handle_value (JObject (fold (\<lambda>(k, v). omap_put k v) es es0))
         (p\<lparr>ref_stack := fs, states := st\<rparr>))))"
proof (induction es arbitrary: ts L p es0 k0)
  case (Cons e es)
  obtain t ts' where ts: "ts = t # ts'" "member_text e t" "list_all2 member_text es ts'"
    using Cons.prems(1) by (cases ts) auto
  obtain v where v: "t = key_text (fst e) @ '':'' @ v" "well_formed_utf8 (fst e)" "reads_value (snd e) v"
    using ts(2) by (auto simp: member_text_def)
  define s where "s = (if ts' = [] then CHR ''}'' # rest else CHR '','' # join_with '','' ts' @ CHR ''}'' # rest)"
  have s: "delim s" by (simp add: s_def delim_close)
  have "ready (key_text (fst e) @ '':'' @ v @ s) L"
    using Cons.prems(3) ts(1) v(1) by (cases "ts' = []") (simp_all add: s_def joined)
  from reads_key(1) [OF this v(2) Cons.prems(4)] obtain r where
    r: "parse_key (with_token (scan L) p) =
      Inr (with_token r (p\<lparr>ref_stack := In_object (omap_put (fst e) JNull es0) (fst e) # fs\<rparr>))" "ready (v @ s) (snd r)"
    by blast
  define q where "q = p\<lparr>ref_stack := In_object (omap_put (fst e) JNull es0) (fst e) # fs\<rparr>"
  have q: "states (with_token r q) = states p" "parse_key (with_token (scan L) p) = Inr (with_token r q)"
    using r by (simp_all add: q_def)
  define h where "h = p\<lparr>ref_stack := In_object (omap_put (fst e) (snd e) es0) (fst e) # fs\<rparr>"
  have hv: "handle_value (snd e) (q\<lparr>states := False # st\<rparr>) = h\<lparr>states := False # st\<rparr>" for st
    by (simp add: handle_value_def q_def h_def omap_put_twice)
  have step: "\<exists>r1. ready s (snd r1) \<and> sax_loop False (get_token ((with_token r q)\<lparr>states := False # st\<rparr>)) =
      sax_loop True (with_token r1 (h\<lparr>states := False # st\<rparr>))" for st
  proof -
    have "get_token ((with_token r q)\<lparr>states := False # st\<rparr>) = with_token (scan (snd r)) (q\<lparr>states := False # st\<rparr>)"
      by (simp add: get_token_eq with_token_def)
    then show ?thesis using v(3) r(2) s hv [of st] unfolding reads_value_def by metis
  qed
  have rest: "\<exists>r2. ready rest (snd r2) \<and> sax_loop True (with_token r1 (h\<lparr>states := False # st\<rparr>)) =
      sax_loop True (with_token r2 (handle_value (JObject (fold (\<lambda>(k, v). omap_put k v) (e # es) es0))
         (p\<lparr>ref_stack := fs, states := st\<rparr>)))" if r1: "ready s (snd r1)" for r1 st
  proof (cases "es = []")
    case True
    then have "ready (CHR ''}'' # rest) (snd r1)" using ts(3) r1 by (simp add: s_def)
    then obtain L' where L': "scan (snd r1) = (End_object, L')" "ready rest L'" using punctuation(4) by blast
    have "state_eval (with_token r1 (h\<lparr>states := False # st\<rparr>)) =
        Inr (Some True, (end_container (with_token (End_object, L') (h\<lparr>states := False # st\<rparr>)))\<lparr>states := st\<rparr>)"
      using L' by (simp add: state_eval_def get_token_eq Let_def)
    moreover have "(end_container (with_token (End_object, L') (h\<lparr>states := False # st\<rparr>)))\<lparr>states := st\<rparr> =
        with_token (End_object, L') (handle_value (JObject (fold (\<lambda>(k, v). omap_put k v) (e # es) es0))
          (p\<lparr>ref_stack := fs, states := st\<rparr>))"
      using True by (cases e) (simp add: end_container_def handle_value_def with_token_def h_def split: list.split frame.split)
    ultimately show ?thesis
      using sax_True L'(2) by (intro exI [of _ "(End_object, L')"]) simp
  next
    case False
    then have "ts' \<noteq> []" using ts(3) by auto
    then have "ready (CHR '','' # join_with '','' ts' @ CHR ''}'' # rest) (snd r1)" using r1 by (simp add: s_def)
    then obtain L' where L': "scan (snd r1) = (Value_separator, L')" "ready (join_with '','' ts' @ CHR ''}'' # rest) L'"
      using punctuation(6) by blast
    have "ref_stack (h\<lparr>states := False # st\<rparr>) = In_object (omap_put (fst e) (snd e) es0) (fst e) # fs"
      by (simp add: h_def)
    from Cons.IH [OF ts(3) False L'(2) this] obtain q' where q':
      "parse_key (with_token (scan L') (h\<lparr>states := False # st\<rparr>)) = Inr q'" "states q' = False # st"
      "\<exists>r. ready rest (snd r) \<and> sax_loop False (get_token (q'\<lparr>states := False # st\<rparr>)) =
        sax_loop True (with_token r (handle_value (JObject (fold (\<lambda>(k, v). omap_put k v) es (omap_put (fst e) (snd e) es0)))
         (h\<lparr>states := False # st, ref_stack := fs, states := st\<rparr>)))"
      by auto
    have "q'\<lparr>states := False # st\<rparr> = q'" using q'(2) by (cases q') simp
    moreover have "state_eval (with_token r1 (h\<lparr>states := False # st\<rparr>)) = Inr (Some False, get_token q')"
      using L' q'(1) by (simp add: state_eval_def get_token_eq Let_def)
    from sax_True [OF this]
    have "sax_loop True (with_token r1 (h\<lparr>states := False # st\<rparr>)) = sax_loop False (get_token q')" .
    moreover have "h\<lparr>states := False # st, ref_stack := fs, states := st\<rparr> = p\<lparr>ref_stack := fs, states := st\<rparr>"
      by (simp add: h_def)
    ultimately show ?thesis using q'(3) by (cases e) simp
  qed
  show ?case
  proof (intro exI [of _ "with_token r q"] conjI allI)
    fix st
    show "\<exists>r'. ready rest (snd r') \<and> sax_loop False (get_token ((with_token r q)\<lparr>states := False # st\<rparr>)) =
       sax_loop True (with_token r' (handle_value (JObject (fold (\<lambda>(k, v). omap_put k v) (e # es) es0))
         (p\<lparr>ref_stack := fs, states := st\<rparr>)))"
      using step [of st] rest [of _ st] by metis
  qed (use q in simp_all)
qed simp

lemma parse_key_states: "parse_key p = Inr q \<Longrightarrow> parse_key (p\<lparr>states := st\<rparr>) = Inr (q\<lparr>states := st\<rparr>)"
  by (auto simp: parse_key_def Let_def get_token_def sax_key_def split: if_splits prod.splits list.split frame.split)

lemma fold_put_sorted:
  "omap_inv (es0 @ es) \<Longrightarrow> fold (\<lambda>(k, v). omap_put k v) es es0 = es0 @ es"
proof (induction es arbitrary: es0)
  case (Cons e es)
  have "omap_put (fst e) (snd e) es0 = es0 @ [e]"
    using Cons.prems by (induction es0) (auto simp: omap_inv_def)
  then show ?case using Cons.IH [of "es0 @ [e]"] Cons.prems by (cases e) simp
qed simp

lemma reads_object:
  assumes "list_all2 member_text es ts" and "omap_inv es"
  shows "reads_value (JObject es) (dump_members ts)"
  unfolding reads_value_def
proof (intro allI impI)
  fix rest L and p :: parser
  assume L: "ready (dump_members ts @ rest) L" and d: "delim rest"
  then have "ready (CHR ''{'' # join_with '','' ts @ CHR ''}'' # rest) L" by (simp add: dump_members_def)
  then obtain L1 where L1: "scan L = (Begin_object, L1)" "ready (join_with '','' ts @ CHR ''}'' # rest) L1"
    using punctuation(3) by blast
  show "\<exists>r. ready rest (snd r) \<and>
      sax_loop False (with_token (scan L) p) = sax_loop True (with_token r (handle_value (JObject es) p))"
  proof (cases "es = []")
    case True
    then have "ready (CHR ''}'' # rest) L1" using L1(2) assms by simp
    then obtain L2 where L2: "scan L1 = (End_object, L2)" "ready rest L2" using punctuation(4) by blast
    have "value_switch (with_token (scan L) p) =
        Inr (False, end_container (with_token (End_object, L2) (start_object p)))"
      using L1 L2 by (simp add: value_switch_def get_token_eq start_object_def Let_def)
    moreover have "end_container (with_token (End_object, L2) (start_object p)) =
        with_token (End_object, L2) (handle_value (JObject es) p)"
      using True by (simp add: end_container_def start_object_def handle_value_def with_token_def
          split: list.split frame.split)
    ultimately show ?thesis using L2(2) sax_value by (intro exI [of _ "(End_object, L2)"]) simp
  next
    case False
    have ref: "ref_stack (start_object p) = In_object [] [] # ref_stack p" by (simp add: start_object_def)
    from reads_members [OF assms(1) False L1(2) ref] obtain q where q:
      "parse_key (with_token (scan L1) (start_object p)) = Inr q" "states q = states p"
      "\<exists>r. ready rest (snd r) \<and> sax_loop False (get_token (q\<lparr>states := False # states p\<rparr>)) =
        sax_loop True (with_token r (handle_value (JObject (fold (\<lambda>(k, v). omap_put k v) es []))
         ((start_object p)\<lparr>ref_stack := ref_stack p, states := states p\<rparr>)))"
      by auto
    have "last_token (with_token (scan L1) (start_object p)) = Value_string" using parse_key_token [OF q(1)] .
    then have "value_switch (with_token (scan L) p) = Inr (True, get_token (q\<lparr>states := False # states p\<rparr>))"
      using L1 q(1,2) by (simp add: value_switch_def get_token_eq start_object_def Let_def)
    then have "sax_loop False (with_token (scan L) p) = sax_loop False (get_token (q\<lparr>states := False # states p\<rparr>))"
      by (rule sax_nested)
    moreover have "(start_object p)\<lparr>ref_stack := ref_stack p, states := states p\<rparr> = p"
      by (simp add: start_object_def)
    ultimately show ?thesis using q(3) fold_put_sorted [of "[]" es] assms(2) by simp
  qed
qed

section \<open>parse after dump\<close>

lemma norm_members_inv: "omap_inv (map (\<lambda>e. (fst e, norm_json (snd e))) es) = omap_inv es"
  by (simp add: omap_inv_def comp_def)

lemma snd_in_snds: "snd e \<in> Basic_BNFs.snds e"
  by (cases e) simp

context float_printer
begin

lemma reads_dump:
  "wf_json j \<Longrightarrow> floats_ok j \<Longrightarrow> dump ft j = Inr t \<Longrightarrow> reads_value (norm_json j) t"
proof (induction j arbitrary: t)
  case (JObject es)
  obtain ps where ps: "list_all2 (\<lambda>e t. bindE (dump_string (fst e)) (\<lambda>k. bindE (dump ft (snd e)) (\<lambda>v.
      Inr (k @ '':'' @ v))) = Inr t) es ps" and t: "t = dump_members ps"
    using JObject.prems(3) by (auto simp: bindE_eq_Inr mapE_eq_Inr)
  have "list_all2 (\<lambda>e t. member_text (fst e, norm_json (snd e)) t) es ps"
  proof (rule list.rel_mono_strong [OF ps])
    fix e s
    assume e: "e \<in> set es" and "bindE (dump_string (fst e)) (\<lambda>k. bindE (dump ft (snd e)) (\<lambda>v. Inr (k @ '':'' @ v))) = Inr s"
    then obtain v where v: "dump ft (snd e) = Inr v" "well_formed_utf8 (fst e)" "s = key_text (fst e) @ '':'' @ v"
      by (auto simp: bindE_eq_Inr dump_string_spec key_text_def)
    have "wf_json (snd e)" "floats_ok (snd e)" using JObject.prems(1,2) e by auto
    then have "reads_value (norm_json (snd e)) v"
      using JObject.IH [OF e snd_in_snds] v(1) by blast
    then show "member_text (fst e, norm_json (snd e)) s" using v by (auto simp: member_text_def)
  qed
  then have "list_all2 member_text (map (\<lambda>e. (fst e, norm_json (snd e))) es) ps"
    by (simp add: list_all2_map1)
  then show ?case using JObject.prems(1) unfolding t norm_json.simps
    by (intro reads_object) (simp_all add: norm_members_inv)
next
  case (JArray xs)
  obtain ps where ps: "list_all2 (\<lambda>x t. dump ft x = Inr t) xs ps" and t: "t = dump_elements ps"
    using JArray.prems(3) by (auto simp: bindE_eq_Inr mapE_eq_Inr)
  have "list_all2 (\<lambda>x t. reads_value (norm_json x) t) xs ps"
    by (rule list.rel_mono_strong [OF ps]) (use JArray in auto)
  then show ?case unfolding t norm_json.simps by (intro reads_array) (simp add: list_all2_map1)
next
  case (JInt i)
  then have "reads_value (norm_json (JInt i)) (int_str i)"
    by (intro reads_integer) (simp_all add: i64_max_def ulong_max_def)
  then show ?case using JInt by (simp add: dump_integer_eq del: norm_json.simps)
next
  case (JUInt i)
  then have "reads_value (norm_json (JInt i)) (int_str i)"
    by (intro reads_integer) (simp_all add: i64_min_def ulong_max_def)
  then show ?case using JUInt by (simp add: dump_integer_eq)
next
  case (JFloat d)
  then have "isfinite d" by (auto simp: representable_def split: dbl.splits)
  then show ?case using JFloat reads_float [of d] by (auto simp: dump_float_def)
next
  case (JBool b)
  then show ?case using reads_atoms by (cases b) auto
qed (auto simp: reads_atoms dump_string_spec intro: reads_string [simplified])

lemma dump_head: "wf_json j \<Longrightarrow> floats_ok j \<Longrightarrow> dump ft j = Inr t \<Longrightarrow> t \<noteq> [] \<and> hd t \<noteq> CHR 0xEF"
proof (cases j)
  case (JInt i)
  moreover obtain c cs where "dec_str \<bar>i\<bar> = c # cs" by (cases "dec_str \<bar>i\<bar>") auto
  moreover from this have "is_digit c" using dec_str_digits [of "\<bar>i\<bar>"] by simp
  moreover assume "dump ft j = Inr t"
  ultimately show ?thesis by (auto simp: dump_integer_eq int_str_def is_digit_def split: if_splits)
next
  case (JUInt i)
  moreover obtain c cs where "dec_str \<bar>i\<bar> = c # cs" by (cases "dec_str \<bar>i\<bar>") auto
  moreover from this have "is_digit c" using dec_str_digits [of "\<bar>i\<bar>"] by simp
  moreover assume "dump ft j = Inr t"
  ultimately show ?thesis by (auto simp: dump_integer_eq int_str_def is_digit_def split: if_splits)
next
  case (JFloat d)
  moreover assume a: "floats_ok j" "dump ft j = Inr t"
  ultimately have d: "representable d" "isfinite d" by (auto simp: representable_def split: dbl.splits)
  then obtain sg w f x where "ft d = sg @ w @ f @ x" "number_text sg w f x"
    using prints_float [OF d(1)] by (auto simp: float_text_def)
  then obtain c where "ft d \<noteq> []" "hd (ft d) = c" "c = CHR ''-'' \<or> is_digit c"
    by (cases w; cases "sg = []") (auto simp: number_text_def digits_Cons)
  then show ?thesis using JFloat a(2) d by (auto simp: dump_float_def is_digit_def)
qed (auto simp: bindE_eq_Inr dump_members_def dump_elements_def dump_string_spec split: if_splits)

lemma parse_dump_norm:
  assumes "wf_json j" and "floats_ok j" and "dump ft j = Inr t"
  shows "parse t = Inr (norm_json j)"
proof -
  define p where "p = \<lparr>m_lexer = lexer0 t, last_token = Uninitialized, root = JNull, ref_stack = [], states = []\<rparr>"
  have "ready (t @ []) (lexer0 t)"
    using dump_head [OF assms] by (auto simp: ready_def lexer0_def eof_ok_def pending_def)
  moreover have "delim []" by (simp add: delim_def)
  ultimately obtain r where r: "ready [] (snd r)"
    "sax_loop False (with_token (scan (lexer0 t)) p) = sax_loop True (with_token r (handle_value (norm_json j) p))"
    using reads_dump [OF assms] unfolding reads_value_def by blast
  have "parser0 t = with_token (scan (lexer0 t)) p"
    by (simp add: parser0_def get_token_eq p_def)
  then have "sax_loop False (parser0 t) = Inr (with_token r (handle_value (norm_json j) p))"
    using r(2) sax_end [of "with_token r (handle_value (norm_json j) p)"] by (simp add: p_def)
  then show ?thesis
    using scan_end [OF r(1)] by (simp add: parse_def Let_def get_token_eq p_def handle_value_def)
qed

end

lemma norm_json_eq: "wf_json j \<Longrightarrow> floats_ok j \<Longrightarrow> json_eq (norm_json j) j"
proof (induction j)
  case (JObject es)
  have "json_eq_items (map (\<lambda>e. (fst e, norm_json (snd e))) es') es'" if "set es' \<subseteq> set es" for es'
    using that
  proof (induction es')
    case (Cons e es')
    then have "e \<in> set es" "wf_json (snd e)" "floats_ok (snd e)" using JObject.prems by auto
    then have "json_eq (norm_json (snd e)) (snd e)"
      using JObject.IH [OF _ snd_in_snds] by blast
    then show ?case using Cons by (cases e) auto
  qed simp
  then show ?case by simp
next
  case (JArray xs)
  have "json_eq_list (map norm_json xs') xs'" if "set xs' \<subseteq> set xs" for xs'
    using that JArray by (induction xs') auto
  then show ?case by simp
next
  case (JInt i)
  then show ?case by (simp add: i64_id)
next
  case (JFloat d)
  then show ?case by (auto simp: deq_def representable_def split: dbl.splits)
qed simp_all

text \<open>
  Property C13. What \<open>dump()\<close> writes, \<open>parse\<close> reads back: for every value in the range of its C++
  types whose strings are well-formed UTF-8 and whose floats are finite doubles, parsing the
  dumped text returns a value that \<open>operator==\<close> equates with the original; it is the original
  with every non-negative integer retagged as unsigned. Of the float printer only the round
  trip it documents is assumed.
\<close>

theorem parse_dump:
  assumes "float_printer ft" and "wf_json j" and "floats_ok j" and "json_utf8 j"
  shows "\<exists>t. dump ft j = Inr t \<and> parse t = Inr (norm_json j) \<and> json_eq (norm_json j) j"
  using float_printer.parse_dump_norm [OF assms(1-3)] dump_succeeds [of ft j] norm_json_eq [OF assms(2,3)] assms(4)
  by blast

theorem parse_dump_witness:
  "\<exists>t. dump dyadic_text (JObject [(''a'', JArray [JInt 7, JBool True]), (''b'', JString ''x'')]) = Inr t \<and>
     parse t = Inr (JObject [(''a'', JArray [JUInt 7, JBool True]), (''b'', JString ''x'')])"
proof -
  have w: "well_formed_utf8 ''a''" "well_formed_utf8 ''b''" "well_formed_utf8 ''x''"
    by (simp_all add: well_formed_utf8_run utf8_next_0 byte_of_def)
  show ?thesis
    using parse_dump [OF dyadic.float_printer_axioms, of "JObject [(''a'', JArray [JInt 7, JBool True]), (''b'', JString ''x'')]"]
      w by (auto simp: omap_inv_def i64_min_def i64_max_def simp del: dump.simps)
qed

end
