(* ===== verification/Json_Parsed.thy ===== *)
theory Json_Parsed
  imports Json_Roundtrip
begin

text \<open>
  What \<open>json::parse\<close> returns on arbitrary input: strings that are well-formed UTF-8, integers in
  the range of their type, floats that are doubles (rounding is idempotent) and objects with
  sorted, unique keys. The invariant is carried through the lexer's loops and the parser's
  explicit stack.
\<close>

section \<open>Rounding twice\<close>

lemma rne_bound:
  assumes "\<bar>x\<bar> \<le> of_int n"
  shows "\<bar>rne x\<bar> \<le> n"
proof -
  have a: "- of_int n \<le> x" "x \<le> of_int n" using assms by (simp_all add: abs_le_iff)
  have "rne x \<le> n"
  proof (cases "x = of_int n")
    case False
    then have "x < of_int n" using a(2) by simp
    then have "\<lfloor>x\<rfloor> < n" by (simp only: floor_less_iff)
    then show ?thesis by (auto simp: rne_def Let_def)
  qed simp
  moreover have "- n \<le> \<lfloor>x\<rfloor>" using a(1) by (simp add: le_floor_iff)
  then have "- n \<le> rne x" by (auto simp: rne_def Let_def)
  ultimately show ?thesis by simp
qed

lemma ilog2_less: "0 < q \<Longrightarrow> q < pow2 k \<Longrightarrow> ilog2 q < k"
  using ilog2_bounds(1) [of q] pow2_less_cancel [of "ilog2 q" k] by linarith

lemma rnd_val_grid:
  assumes "v = of_int m * pow2 e" and "- 1074 \<le> e" and "\<bar>m\<bar> \<le> 2 ^ 53"
  shows "rnd_val v = v"
proof (cases "m = 0")
  case True
  then show ?thesis using assms(1) by (simp add: rnd_val_def)
next
  case m0: False
  have av: "\<bar>v\<bar> = of_int \<bar>m\<bar> * pow2 e" by (simp add: assms(1) abs_mult)
  have exact: "rnd_val v = v" if "v / pow2 (ulp_exp v) = of_int k" for k
  proof -
    have "v = of_int k * pow2 (ulp_exp v)" using that by (simp add: field_simps)
    then show ?thesis using that by (simp add: rnd_val_def)
  qed
  have pos: "0 < \<bar>v\<bar>" using m0 by (simp add: av)
  show ?thesis
  proof (cases "\<bar>m\<bar> = 2 ^ 53")
    case False
    then have "\<bar>m\<bar> < 2 ^ 53" using assms(3) by simp
    then have "(of_int \<bar>m\<bar> :: rat) < of_int (2 ^ 53)" by (simp only: of_int_less_iff)
    then have "of_int \<bar>m\<bar> * pow2 e < of_int (2 ^ 53) * pow2 e"
      by (rule mult_strict_right_mono) simp
    moreover have "pow2 53 = of_int (2 ^ 53)" by (simp add: pow2_def)
    ultimately have "\<bar>v\<bar> < pow2 53 * pow2 e" by (simp only: av)
    then have "ilog2 \<bar>v\<bar> < 53 + e" using pos by (intro ilog2_less) (simp_all add: pow2_add)
    then have u: "0 \<le> e - ulp_exp v" using assms(2) by (simp add: ulp_exp_def)
    have "v / pow2 (ulp_exp v) = of_int m * pow2 (e - ulp_exp v)" by (simp add: assms(1) pow2_diff)
    also have "\<dots> = of_int (m * 2 ^ nat (e - ulp_exp v))" using u by (simp add: pow2_def)
    finally show ?thesis by (rule exact)
  next
    case True
    have "\<bar>v\<bar> = pow2 (53 + e)" using True by (simp add: av pow2_add) (simp add: pow2_def)
    moreover have "pow2 (53 + e) < pow2 (54 + e)" by (simp add: pow2_add) (simp add: pow2_def)
    ultimately have "ilog2 \<bar>v\<bar> < 54 + e" using pos by (intro ilog2_less) simp_all
    then have u: "0 \<le> e + 1 - ulp_exp v" using assms(2) by (simp add: ulp_exp_def)
    obtain h where h: "m = 2 * h"
      using True by (cases "0 \<le> m") (auto intro: that [of "2 ^ 52"] that [of "- (2 ^ 52)"])
    have "v / pow2 (ulp_exp v) = of_int h * pow2 (e + 1 - ulp_exp v)"
      by (simp add: assms(1) h pow2_diff pow2_add)
    also have "\<dots> = of_int (h * 2 ^ nat (e + 1 - ulp_exp v))" using u by (simp add: pow2_def)
    finally show ?thesis by (rule exact)
  qed
qed

lemma rnd_val_idem: "rnd_val (rnd_val q) = rnd_val q"
proof (cases "q = 0")
  case False
  let ?e = "ulp_exp q"
  have "\<bar>q\<bar> < pow2 (ilog2 \<bar>q\<bar> + 1)" using False by (intro ilog2_bounds) simp
  also have "\<dots> \<le> pow2 (?e + 53)" by (intro pow2_mono) (simp add: ulp_exp_def)
  finally have "\<bar>q / pow2 ?e\<bar> \<le> pow2 53" by (simp add: abs_divide pow2_add field_simps)
  also have "pow2 53 = of_int (2 ^ 53)" by (simp add: pow2_def)
  finally have "\<bar>rne (q / pow2 ?e)\<bar> \<le> 2 ^ 53" by (rule rne_bound)
  then show ?thesis
    using rnd_val_grid [of "rnd_val q" "rne (q / pow2 ?e)" ?e] False
    by (simp add: rnd_val_def [of q] ulp_exp_def)
qed (simp add: rnd_val_def)

lemma rnd_representable: "isfinite (rnd q) \<Longrightarrow> representable (rnd q)"
  using rnd_val_idem [of q]
  by (auto simp: rnd_def Let_def representable_def split: if_splits)

section \<open>What the lexer puts into a token\<close>

lemma well_formed_append: "well_formed_utf8 s \<Longrightarrow> well_formed_utf8 t \<Longrightarrow> well_formed_utf8 (s @ t)"
proof -
  assume "well_formed_utf8 s" "well_formed_utf8 t"
  then obtain xs ys where "list_all scalar_value xs" "map byte_of s = concat (map utf8_encode xs)"
      "list_all scalar_value ys" "map byte_of t = concat (map utf8_encode ys)"
    by (auto simp: well_formed_utf8_def)
  then show ?thesis unfolding well_formed_utf8_def by (intro exI [of _ "xs @ ys"]) simp
qed

lemma well_formed_Nil [simp]: "well_formed_utf8 []"
  by (simp add: well_formed_utf8_run)

lemma well_formed_ascii: "byte_of c < 0x80 \<Longrightarrow> well_formed_utf8 [c]"
  by (simp add: well_formed_utf8_run utf8_next_0)

lemma ranges_from_reads:
  "st \<in> {0, 2, 3, 4, 5, 6, 7, 8} \<Longrightarrow> ranges_from (state_ranges st) L = (True, L') \<Longrightarrow>
     \<exists>bs. token_buffer L' = token_buffer L @ bs \<and> utf8_run st (map byte_of bs)"
proof (induction "length (state_ranges st)" arbitrary: st L)
  case 0
  then have "st = 0" by (auto simp: state_ranges_def split: if_splits)
  then show ?case using 0 by (simp add: state_ranges_def)
next
  case (Suc n)
  then obtain lo hi rs where rs: "state_ranges st = (lo, hi) # rs" by (cases "state_ranges st") auto
  obtain c where c: "current (get L) = Some c" "lo \<le> byte_of c" "byte_of c \<le> hi"
      "ranges_from rs (add c (get L)) = (True, L')"
    using Suc.prems(2) by (auto simp: rs Let_def byte_of_def split: option.splits if_splits)
  have nx: "utf8_next st (byte_of c) \<noteq> 1" "state_ranges (utf8_next st (byte_of c)) = rs"
      "utf8_next st (byte_of c) \<in> {0, 2, 3}"
    using rs c Suc.prems(1) by (auto simp: state_ranges_def utf8_next_rest split: if_splits)
  have "n = length (state_ranges (utf8_next st (byte_of c)))" using Suc.hyps(2) rs nx by simp
  from Suc.hyps(1) [OF this] nx c(4)
  obtain bs where "token_buffer L' = token_buffer (add c (get L)) @ bs"
      "utf8_run (utf8_next st (byte_of c)) (map byte_of bs)" by force
  then show ?case using nx by (intro exI [of _ "c # bs"]) simp
qed

lemma lead_state:
  assumes "lead_ranges b = Some rs"
  shows "rs = state_ranges (utf8_next 0 b) \<and> utf8_next 0 b \<in> {0, 2, 3, 4, 5, 6, 7, 8}"
  using assms by (auto simp: lead_ranges_def utf8_next_0 state_ranges_def split: if_splits)

lemma codepoint_from_digit:
  assumes "codepoint_from (f # fs) cp L = (c, L')"
  shows "c = - 1 \<or> (\<exists>x. 0 \<le> x \<and> x \<le> 15 \<and> codepoint_from fs (cp + x * 2 ^ f) (get L) = (c, L'))"
proof (cases "current (get L)")
  case (Some ch)
  define x :: int where "x = (if 0x30 \<le> (of_char ch :: int) \<and> (of_char ch :: int) \<le> 0x39 then of_char ch - 0x30
    else if 0x41 \<le> (of_char ch :: int) \<and> (of_char ch :: int) \<le> 0x46 then of_char ch - 0x37
    else of_char ch - 0x57)"
  have "c = - 1 \<or> 0 \<le> x \<and> x \<le> 15 \<and> codepoint_from fs (cp + x * 2 ^ f) (get L) = (c, L')"
    using assms Some by (auto simp: Let_def x_def split: if_splits)
  then show ?thesis by blast
qed (use assms in \<open>auto simp: Let_def\<close>)

lemma codepoint_from_bound:
  "codepoint_from fs cp L = (c, L') \<Longrightarrow> c = - 1 \<or> cp \<le> c \<and> c \<le> cp + sum_list (map (\<lambda>f. 15 * 2 ^ f) fs)"
proof (induction fs arbitrary: cp L)
  case (Cons f fs)
  show ?case
  proof (cases "c = - 1")
    case False
    then obtain x where x: "0 \<le> x" "x \<le> 15" "codepoint_from fs (cp + x * 2 ^ f) (get L) = (c, L')"
      using codepoint_from_digit [OF Cons.prems] by blast
    have "x * 2 ^ f \<le> 15 * 2 ^ f" using x(2) by (rule mult_right_mono) simp
    moreover have "0 \<le> x * 2 ^ f" using x(1) by simp
    ultimately show ?thesis using Cons.IH [OF x(3)] False unfolding list.map sum_list.Cons by linarith
  qed simp
qed simp

lemma get_codepoint_bound: "get_codepoint L = (c, L') \<Longrightarrow> c = - 1 \<or> 0 \<le> c \<and> c \<le> 0xFFFF"
  using codepoint_from_bound [of "[12, 8, 4, 0]" 0 L c L'] by (simp add: get_codepoint_def)

lemma get_codepoint_buffer: "get_codepoint L = (c, L') \<Longrightarrow> token_buffer L' = token_buffer L"
proof -
  have "token_buffer (snd (codepoint_from fs cp L)) = token_buffer L" for fs cp
    by (induction fs cp L rule: codepoint_from.induct) (auto simp: Let_def split: option.split)
  from this [of "[12, 8, 4, 0]" 0] show "get_codepoint L = (c, L') \<Longrightarrow> token_buffer L' = token_buffer L"
    by (simp add: get_codepoint_def)
qed

lemma fold_add_buffer: "token_buffer (fold (\<lambda>b. add (f b)) bs L) = token_buffer L @ map f bs"
  by (induction bs arbitrary: L) auto

lemma byte_of_char_of: "0 \<le> b \<Longrightarrow> b < 256 \<Longrightarrow> byte_of (char_of b) = nat b" for b :: int
proof -
  assume b: "0 \<le> b" "b < 256"
  have "int (byte_of (char_of b)) = of_char (char_of b)" by (simp only: byte_of_def of_nat_of_char)
  also have "\<dots> = b" using b by simp
  finally show ?thesis by simp
qed

lemma byte_of_char_of_nat [simp]: "byte_of (char_of n) = n mod 256" for n :: nat
  by (simp add: byte_of_def)

lemma add_codepoint_buffer:
  assumes "0 \<le> cp" and "scalar_value (nat cp)"
  shows "\<exists>bs. token_buffer (add_codepoint cp L) = token_buffer L @ bs \<and> well_formed_utf8 bs"
proof -
  obtain n where n: "cp = int n" using assms(1) nonneg_int_cases by blast
  have sv: "scalar_value n" using assms(2) n by simp
  define bs where "bs = (if cp < 0x80 then [cp]
      else if cp \<le> 0x7FF then [0xC0 + cp div 0x40, 0x80 + cp mod 0x40]
      else if cp \<le> 0xFFFF then [0xE0 + cp div 0x1000, 0x80 + cp div 0x40 mod 0x40, 0x80 + cp mod 0x40]
      else [0xF0 + cp div 0x40000, 0x80 + cp div 0x1000 mod 0x40, 0x80 + cp div 0x40 mod 0x40,
            0x80 + cp mod 0x40])"
  have up: "n < 0x110000" using sv by (auto simp: scalar_value_def)
  have "bs = map int (utf8_encode n)"
    by (simp add: bs_def n utf8_encode_def zdiv_int zmod_int)
  moreover have "\<forall>b \<in> set (utf8_encode n). b < 256"
    using up by (auto simp: utf8_encode_def)
  ultimately have "map byte_of (map char_of bs) = utf8_encode n"
    by (simp add: comp_def map_idI)
  then have "well_formed_utf8 (map char_of bs)"
    unfolding well_formed_utf8_def using sv by (intro exI [of _ "[n]"]) simp
  then show ?thesis
    by (intro exI [of _ "map char_of bs"]) (simp add: add_codepoint_def fold_add_buffer bs_def [symmetric])
qed

definition buffer_grows :: "lexer \<Rightarrow> lexer \<Rightarrow> bool" where
  "buffer_grows L L' \<longleftrightarrow> (\<exists>bs. token_buffer L' = token_buffer L @ bs \<and> well_formed_utf8 bs)"

lemma unicode_escape_grows: "unicode_escape L = Go L' \<Longrightarrow> buffer_grows L L'"
proof -
  assume a: "unicode_escape L = Go L'"
  obtain c1 L1 where 1: "get_codepoint L = (c1, L1)" by fastforce
  obtain c2 L2 where 2: "get_codepoint (get (get L1)) = (c2, L2)" by fastforce
  note b = get_codepoint_bound [OF 1] get_codepoint_bound [OF 2]
  note t = get_codepoint_buffer [OF 1] get_codepoint_buffer [OF 2]
  consider "L' = add_codepoint c1 L1" "c1 \<noteq> - 1" "\<not> (0xD800 \<le> c1 \<and> c1 \<le> 0xDFFF)"
    | "L' = add_codepoint (c1 * 1024 + c2 - 0x35FDC00) L2" "0xD800 \<le> c1" "c1 \<le> 0xDBFF" "0xDC00 \<le> c2" "c2 \<le> 0xDFFF"
    using a 1 2 by (auto simp: unicode_escape_def Let_def split: if_splits)
  then show ?thesis
  proof cases
    case 1
    then have "0 \<le> c1" "scalar_value (nat c1)" using b by (auto simp: scalar_value_def)
    from add_codepoint_buffer [OF this, of L1] show ?thesis using 1 t by (simp add: buffer_grows_def)
  next
    case 2
    let ?c = "c1 * 1024 + c2 - 0x35FDC00"
    have "0x10000 \<le> ?c" "?c \<le> 0x10FFFF" using 2 by linarith+
    then have "0 \<le> ?c" "scalar_value (nat ?c)" by (auto simp: scalar_value_def)
    from add_codepoint_buffer [OF this, of L2] show ?thesis using 2 t by (simp add: buffer_grows_def)
  qed
qed

lemma buffer_grows_add: "byte_of c < 0x80 \<Longrightarrow> token_buffer K = token_buffer L \<Longrightarrow> buffer_grows L (add c K)"
  using well_formed_ascii [of c] by (simp add: buffer_grows_def)

lemma string_escape_grows: "string_escape L = Go L' \<Longrightarrow> buffer_grows L L'"
  using unicode_escape_grows [of L L']
  by (auto simp: string_escape_def byte_of_def intro!: buffer_grows_add split: option.splits if_splits)

lemma string_step_char:
  "current (get L) = Some c \<Longrightarrow> string_step L =
     (if c = CHR 0x22 then Stop (Value_string, get L)
      else if c = CHR 0x5C then string_escape (get (get L))
      else if byte_of c \<le> 0x1F then Stop (lex_fail (control_message (byte_of c)) (get L))
      else if byte_of c \<le> 0x7F then Go (add_current (get L))
      else (case lead_ranges (byte_of c) of
          None \<Rightarrow> Stop (lex_fail ''invalid string: ill-formed UTF-8 byte'' (get L))
        | Some rs \<Rightarrow> (case next_byte_in_range rs (get L) of
            (ok, L') \<Rightarrow> if ok then Go L' else Stop (Token_parse_error, L'))))"
  by (simp add: string_step_eq byte_of_def Let_def)

lemma string_step_Go:
  assumes "string_step L = Go L'" and "current (get L) = Some c"
  shows "string_escape (get (get L)) = Go L' \<or> byte_of c \<le> 0x7F \<and> L' = add_current (get L) \<or>
    (\<exists>rs. lead_ranges (byte_of c) = Some rs \<and> next_byte_in_range rs (get L) = (True, L'))"
proof (cases "lead_ranges (byte_of c)")
  case None
  then show ?thesis
    using assms(1) unfolding string_step_char [OF assms(2)] by (simp split: if_split_asm)
next
  case (Some rs)
  obtain ok K where K: "next_byte_in_range rs (get L) = (ok, K)" by fastforce
  show ?thesis
    using assms(1) unfolding string_step_char [OF assms(2)]
    by (simp add: Some K split: if_split_asm)
qed

lemma string_step_grows: "string_step L = Go L' \<Longrightarrow> buffer_grows L L'"
proof -
  assume a: "string_step L = Go L'"
  then obtain c where c: "current (get L) = Some c"
    by (auto simp: string_step_eq Let_def split: option.splits)
  consider "string_escape (get (get L)) = Go L'" | "byte_of c \<le> 0x7F" "L' = add_current (get L)"
    | rs where "lead_ranges (byte_of c) = Some rs" "next_byte_in_range rs (get L) = (True, L')"
    using string_step_Go [OF a c] by blast
  then show ?thesis
  proof cases
    case 1
    then show ?thesis using string_escape_grows by (force simp: buffer_grows_def)
  next
    case 2
    then show ?thesis using c buffer_grows_add [of c "get L" L] by (simp add: add_current_def cur_char_def)
  next
    case 3
    note st = lead_state [OF 3(1)]
    obtain bs where "token_buffer L' = token_buffer (add_current (get L)) @ bs"
        "utf8_run (utf8_next 0 (byte_of c)) (map byte_of bs)"
      using ranges_from_reads [of "utf8_next 0 (byte_of c)" "add_current (get L)" L'] st 3(2)
      by (auto simp: next_byte_in_range_def)
    moreover have "utf8_next 0 (byte_of c) \<noteq> 1" using st by auto
    ultimately show ?thesis using c unfolding buffer_grows_def
      by (intro exI [of _ "c # bs"]) (simp add: well_formed_utf8_run)
  qed
qed

lemma unicode_escape_Stop: "unicode_escape L = Stop (t, K) \<Longrightarrow> t = Token_parse_error"
  by (auto simp: unicode_escape_def Let_def lex_fail_def split: prod.splits if_splits)

lemma string_escape_Stop: "string_escape L = Stop (t, K) \<Longrightarrow> t = Token_parse_error"
  by (auto simp: string_escape_def lex_fail_def unicode_escape_Stop split: option.splits if_splits)

lemma string_step_Stop: "string_step L = Stop (Value_string, K) \<Longrightarrow> K = get L"
proof (cases "current (get L)")
  case (Some c)
  assume a: "string_step L = Stop (Value_string, K)"
  show ?thesis
  proof (cases "c = CHR 0x22")
    case False
    show ?thesis
      using a False string_escape_Stop [of "get (get L)" Value_string K] unfolding string_step_char [OF Some]
      by (cases "lead_ranges (byte_of c)") (simp_all add: lex_fail_def split_beta split: if_split_asm)
  qed (use a in \<open>simp add: string_step_char [OF Some]\<close>)
qed (simp add: string_step_eq Let_def lex_fail_def)

lemma scan_string_utf8: "scan_string L = (Value_string, L') \<Longrightarrow> well_formed_utf8 (token_buffer L')"
proof -
  have "string_loop K = (Value_string, L') \<Longrightarrow> well_formed_utf8 (token_buffer K) \<Longrightarrow> well_formed_utf8 (token_buffer L')" for K
  proof (induction K rule: string_loop.induct)
    case (1 K)
    show ?case
    proof (cases "string_step K")
      case (Go K')
      then have "well_formed_utf8 (token_buffer K')"
        using string_step_grows [OF Go] 1(3) well_formed_append by (auto simp: buffer_grows_def)
      then show ?thesis using 1 Go by (simp add: string_loop.simps [of K])
    next
      case (Stop r)
      then have "r = (Value_string, L')" using 1(2) by (simp add: string_loop.simps [of K])
      then have "L' = get K"
        using Stop string_step_Stop by blast
      then show ?thesis using 1(3) by simp
    qed
  qed
  from this [of "lreset L"] show "scan_string L = (Value_string, L') \<Longrightarrow> well_formed_utf8 (token_buffer L')"
    by (simp add: scan_string_def)
qed

lemma scan_digits_buffer: "\<exists>ds. digits ds \<and> token_buffer (scan_digits L) = token_buffer L @ ds"
proof (induction L rule: scan_digits.induct)
  case (1 L)
  show ?case
  proof (cases "cur_digit (get L)")
    case True
    then obtain c where c: "current (get L) = Some c" "is_digit c" by (auto simp: cur_digit_def split: option.splits)
    from 1 [OF refl True] obtain ds where
      "digits ds" "token_buffer (scan_digits (add_current (get L))) = token_buffer (add_current (get L)) @ ds" by blast
    then show ?thesis using c True
      by (intro exI [of _ "c # ds"]) (simp add: scan_digits.simps [of L] Let_def digits_Cons)
  next
    case False
    then show ?thesis by (intro exI [of _ "[]"]) (simp add: scan_digits.simps [of L] Let_def digits_def)
  qed
qed

lemma digits_val_nonneg: "digits ds \<Longrightarrow> 0 \<le> acc \<Longrightarrow> 0 \<le> digits_val acc ds"
proof (induction ds arbitrary: acc)
  case (Cons d ds)
  then have "0 \<le> digit_val d" by (simp add: digits_Cons is_digit_def digit_val_def)
  then show ?case using Cons by (simp add: digits_Cons)
qed simp

lemma signed_digits_nonneg: "digits s \<Longrightarrow> 0 \<le> signed_digits s"
proof (cases s)
  case (Cons c cs)
  assume d: "digits s"
  then have "c \<noteq> CHR ''-''" "c \<noteq> CHR ''+''" using Cons is_digit_sign [of c] by (simp_all add: digits_Cons)
  then show ?thesis using d digits_val_nonneg [OF d, of 0] Cons by (simp add: signed_digits_def starts_with_def)
qed (simp add: signed_digits_def starts_with_def)

definition token_ok :: "token_type \<times> lexer \<Rightarrow> bool" where
  "token_ok r \<longleftrightarrow> (case r of (t, L) \<Rightarrow>
     (t = Value_string \<longrightarrow> well_formed_utf8 (token_buffer L)) \<and>
     (t = Value_unsigned \<longrightarrow> 0 \<le> value_unsigned L \<and> value_unsigned L \<le> ulong_max) \<and>
     (t = Value_integer \<longrightarrow> i64_min \<le> value_integer L \<and> value_integer L \<le> i64_max) \<and>
     (t = Value_float \<longrightarrow> isfinite (value_float L) \<longrightarrow> representable (value_float L)))"

lemma token_ok_fail [simp]: "token_ok (lex_fail m L)"
  by (simp add: token_ok_def lex_fail_def)

lemma token_ok_done:
  assumes "ty = Value_unsigned \<longrightarrow> digits (token_buffer L)" and "ty \<noteq> Value_string"
  shows "token_ok (number_done ty L)"
proof -
  have b: "token_buffer (unget L) = token_buffer L" by (simp add: unget_def Let_def split: option.split)
  show ?thesis
    using assms signed_digits_nonneg [of "token_buffer L"] rnd_representable
    by (auto simp: token_ok_def number_done_def Let_def b strtod_def)
qed

lemma token_ok_exponent: "token_ok (number_exponent L)"
  by (simp add: number_exponent_def number_sign_def number_any2_def Let_def token_ok_done)

lemma token_ok_tail:
  "ty = Value_unsigned \<longrightarrow> digits (token_buffer L) \<Longrightarrow> ty \<noteq> Value_string \<Longrightarrow> token_ok (number_tail ty L)"
  by (simp add: number_tail_def number_decimal1_def number_decimal2_def Let_def token_ok_exponent token_ok_done)

lemma token_ok_number:
  assumes "current L = Some c" and "c = CHR ''-'' \<or> is_digit c"
  shows "token_ok (scan_number L)"
proof -
  have i: "token_ok (number_zero Value_integer K)" "token_ok (number_any1 Value_integer K)" for K
    by (simp_all add: number_zero_def number_any1_def token_ok_tail)
  have u: "token_ok (number_zero Value_unsigned K)" "token_ok (number_any1 Value_unsigned K)"
    if "digits (token_buffer K)" for K
    using that scan_digits_buffer [of K]
    by (auto simp: number_zero_def number_any1_def digits_def intro!: token_ok_tail)
  show ?thesis
    using assms i u [of "add_current (lreset L)"]
    by (auto simp: scan_number_def number_minus_def Let_def digits_def)
qed

lemma token_ok_literal: "ty \<in> {Literal_true, Literal_false, Literal_null} \<Longrightarrow> token_ok (scan_literal cs ty L)"
  by (induction cs ty L rule: scan_literal.induct) (auto simp: token_ok_def Let_def lex_fail_def)

lemma string_loop_token: "fst (string_loop L) = Value_string \<or> fst (string_loop L) = Token_parse_error"
proof (induction L rule: string_loop.induct)
  case (1 L)
  show ?case
  proof (cases "string_step L")
    case (Go K)
    then show ?thesis using 1 by (simp add: string_loop.simps [of L])
  next
    case (Stop r)
    obtain t K where r: "r = (t, K)" by fastforce
    have "t = Value_string \<or> t = Token_parse_error"
    proof (cases "current (get L)")
      case None
      then show ?thesis using Stop r by (simp add: string_step_eq Let_def lex_fail_def)
    next
      case (Some c)
      then show ?thesis using Stop r string_escape_Stop [of "get (get L)" t K]
        unfolding string_step_char [OF Some]
        by (cases "lead_ranges (byte_of c)") (auto simp add: lex_fail_def split_beta split: if_split_asm)
    qed
    then show ?thesis using Stop r by (simp add: string_loop.simps [of L])
  qed
qed

lemma token_ok_string: "token_ok (scan_string L)"
proof -
  obtain t K where r: "scan_string L = (t, K)" by fastforce
  then show ?thesis
    using string_loop_token [of "lreset L"] scan_string_utf8 [of L K]
    by (auto simp: token_ok_def scan_string_def)
qed

lemma token_ok_scan: "token_ok (scan L)"
proof -
  have d: "token_ok (scan_dispatch K)" for K
  proof (cases "current K")
    case None
    then show ?thesis by (simp add: scan_dispatch_None token_ok_def)
  next
    case (Some c)
    have p: "token_ok (t, K)" if "t \<notin> {Value_string, Value_unsigned, Value_integer, Value_float}" for t
      using that by (simp add: token_ok_def)
    show ?thesis
      using Some token_ok_number [OF Some] token_ok_string [of K]
      by (simp add: scan_dispatch_def p token_ok_literal del: scan_literal.simps)
  qed
  obtain ok K where "(if chars_read_total L = 0 then skip_bom L else (True, L)) = (ok, K)" by fastforce
  then show ?thesis using d by (simp add: scan_def)
qed

section \<open>What the parser builds\<close>

definition parsed_ok :: "json \<Rightarrow> bool" where
  "parsed_ok j \<longleftrightarrow> wf_json j \<and> floats_ok j \<and> json_utf8 j"

definition members_ok :: "(string \<times> json) list \<Rightarrow> bool" where
  "members_ok es \<longleftrightarrow> omap_inv es \<and> (\<forall>e \<in> set es. well_formed_utf8 (fst e) \<and> parsed_ok (snd e))"

fun frame_ok :: "frame \<Rightarrow> bool" where
  "frame_ok (In_array xs) \<longleftrightarrow> (\<forall>x \<in> set xs. parsed_ok x)"
| "frame_ok (In_object es k) \<longleftrightarrow> members_ok es \<and> well_formed_utf8 k"

definition parser_ok :: "parser \<Rightarrow> bool" where
  "parser_ok p \<longleftrightarrow> parsed_ok (root p) \<and> list_all frame_ok (ref_stack p) \<and> token_ok (last_token p, m_lexer p)"

lemma parsed_ok_object: "parsed_ok (JObject es) \<longleftrightarrow> members_ok es"
  by (auto simp: parsed_ok_def members_ok_def)

lemma parsed_ok_array: "parsed_ok (JArray xs) \<longleftrightarrow> (\<forall>x \<in> set xs. parsed_ok x)"
  by (auto simp: parsed_ok_def)

lemma parsed_ok_scalars [simp]:
  "parsed_ok JNull" "parsed_ok (JBool b)" "parsed_ok (JString s) \<longleftrightarrow> well_formed_utf8 s"
  "parsed_ok (JFloat d) \<longleftrightarrow> representable d"
  by (simp_all add: parsed_ok_def)

lemma omap_put_set: "set (omap_put k v es) \<subseteq> insert (k, v) (set es)"
  by (induction es) auto

lemma members_ok_put: "members_ok es \<Longrightarrow> well_formed_utf8 k \<Longrightarrow> parsed_ok v \<Longrightarrow> members_ok (omap_put k v es)"
  using omap_put_set [of k v es] by (force simp: members_ok_def omap_inv_put)

lemma parser_ok_handle: "parser_ok p \<Longrightarrow> parsed_ok v \<Longrightarrow> parser_ok (handle_value v p)"
  by (auto simp: parser_ok_def handle_value_def members_ok_put split: list.split frame.split)

lemma parser_ok_get_token [simp]:
  "parser_ok (get_token p) \<longleftrightarrow> parsed_ok (root p) \<and> list_all frame_ok (ref_stack p)"
  using token_ok_scan [of "m_lexer p"] by (auto simp: parser_ok_def get_token_def split: prod.split)

lemma parser_ok_states [simp]: "parser_ok (p\<lparr>states := st\<rparr>) = parser_ok p"
  by (simp add: parser_ok_def)

lemma parser_ok_start: "parser_ok p \<Longrightarrow> parser_ok (start_object p)" "parser_ok p \<Longrightarrow> parser_ok (start_array p)"
  by (simp_all add: parser_ok_def start_object_def start_array_def members_ok_def omap_inv_def)

lemma parser_ok_parts: "parser_ok p \<Longrightarrow> parsed_ok (root p) \<and> list_all frame_ok (ref_stack p)"
  by (simp add: parser_ok_def)

lemma parser_ok_key: "parser_ok p \<Longrightarrow> well_formed_utf8 k \<Longrightarrow> parser_ok (sax_key k p)"
  by (auto simp: parser_ok_def sax_key_def members_ok_put split: list.split frame.split)

lemma parser_ok_end: "parser_ok p \<Longrightarrow> parser_ok (end_container p)"
  by (auto simp: end_container_def parsed_ok_object parsed_ok_array intro!: parser_ok_handle split: list.split frame.split)
    (auto simp: parser_ok_def)

lemma parser_ok_parse_key: "parser_ok p \<Longrightarrow> parse_key p = Inr q \<Longrightarrow> parser_ok q"
  using parser_ok_parts [OF parser_ok_key [of p "token_buffer (m_lexer p)"]]
  by (auto simp: parse_key_def Let_def parser_ok_def [of p] token_ok_def split: if_splits)

lemma parser_ok_switch: "parser_ok p \<Longrightarrow> value_switch p = Inr (b, q) \<Longrightarrow> parser_ok q"
proof -
  assume ok: "parser_ok p" and a: "value_switch p = Inr (b, q)"
  note s = parser_ok_parts [OF parser_ok_start(1) [OF ok]] parser_ok_parts [OF parser_ok_start(2) [OF ok]]
  have g: "parser_ok (get_token (start_object p))" "parser_ok (get_token (start_array p))"
    using s by simp_all
  show ?thesis
    using a ok g
    by (auto simp: value_switch_def Let_def bindE_eq_Inr parsed_ok_def parser_ok_def [of p] token_ok_def ulong_max_def
        split: token_type.splits if_splits
        intro!: parser_ok_handle [OF ok] parser_ok_end dest!: parser_ok_parse_key [OF g(1)] parser_ok_parts)
qed

lemma parser_ok_state: "parser_ok p \<Longrightarrow> state_eval p = Inr (b, q) \<Longrightarrow> parser_ok q"
proof -
  assume ok: "parser_ok p" and a: "state_eval p = Inr (b, q)"
  have g: "parser_ok (get_token p)" using parser_ok_parts [OF ok] by simp
  have gg: "parser_ok (get_token r)" if "parser_ok r" for r using parser_ok_parts [OF that] by simp
  consider "q = p" | "q = get_token (get_token p)" | st where "q = (end_container (get_token p))\<lparr>states := st\<rparr>"
    | p2 where "parse_key (get_token (get_token p)) = Inr p2" "q = get_token p2"
    using a by (auto simp: state_eval_def Let_def bindE_eq_Inr split: list.splits if_splits bool.splits)
  then show ?thesis
  proof cases
    case 4
    then show ?thesis using gg [OF parser_ok_parse_key [OF gg [OF g] 4(1)]] by simp
  qed (use ok gg [OF g] parser_ok_end [OF g] in simp_all)
qed

lemma parser_ok_loop: "sax_loop skip p = Inr q \<Longrightarrow> parser_ok p \<Longrightarrow> parser_ok q"
proof (induction skip p arbitrary: q rule: sax_loop.induct)
  case (1 skip p)
  obtain cont p1 where s: "(if skip then Inr (False, p) else value_switch p) = Inr (cont, p1)"
    and l: "(if cont then sax_loop False p1
       else bindE (state_eval p1) (\<lambda>(r, p2). case r of None \<Rightarrow> Inr p2 | Some sk \<Rightarrow> sax_loop sk p2)) = Inr q"
    using 1(3) by (subst (asm) sax_loop.simps) (auto simp: bindE_eq_Inr)
  have ok: "parser_ok p1" using s 1(4) parser_ok_switch by (auto split: if_splits)
  show ?case
  proof (cases cont)
    case True
    then show ?thesis using 1(1) [OF s refl True] l ok by simp
  next
    case False
    then obtain r p2 where e: "state_eval p1 = Inr (r, p2)"
      "(case r of None \<Rightarrow> Inr p2 | Some sk \<Rightarrow> sax_loop sk p2) = Inr q"
      using l by (auto simp: bindE_eq_Inr)
    then show ?thesis
      using 1(2) [OF s refl False e(1) refl] parser_ok_state [OF ok e(1)] by (auto split: option.splits)
  qed
qed

lemma parse_parsed_ok: "parse s = Inr j \<Longrightarrow> parsed_ok j"
proof -
  assume "parse s = Inr j"
  then obtain q where q: "sax_loop False (parser0 s) = Inr q" "j = root (get_token q)"
    by (auto simp: parse_def Let_def bindE_eq_Inr split: if_splits)
  have "parser_ok (parser0 s)" by (simp add: parser0_def)
  then have "parser_ok q" using parser_ok_loop [OF q(1)] by blast
  then show ?thesis using parser_ok_parts q(2) by (simp add: get_token_def split: prod.split)
qed

text \<open>
  Property C21. Every value that comes out of \<open>parse\<close> is well-formed: object keys are sorted and
  unique, integers are in the range of their type, floats are finite doubles, and all strings
  and keys are well-formed UTF-8 (escapes and surrogate pairs included), so such a value can
  always be dumped, and parsing the dump returns it up to the tag of non-negative integers.
\<close>

theorem parse_well_formed:
  assumes "parse s = Inr j"
  shows "wf_json j \<and> floats_ok j \<and> json_utf8 j \<and>
    (\<exists>t. dump dyadic_text j = Inr t \<and> parse t = Inr (norm_json j))"
proof -
  have ok: "wf_json j" "floats_ok j" "json_utf8 j" using parse_parsed_ok [OF assms] by (simp_all add: parsed_ok_def)
  obtain t where t: "dump dyadic_text j = Inr t" using dump_succeeds ok(3) by blast
  then show ?thesis using dyadic.parse_dump_norm [OF ok(1,2) t] ok by blast
qed

theorem parse_well_formed_witness:
  "\<exists>t. dump dyadic_text (JArray [JUInt 1, JNull]) = Inr t \<and> parse t = Inr (JArray [JUInt 1, JNull])"
proof -
  have "parse ''[1, null]'' = Inr (JArray [JUInt 1, JNull])" by code_simp
  from parse_well_formed [OF this] show ?thesis by auto
qed


end
