(* ===== verification/Rehydration.thy ===== *)
theory Rehydration
  imports StateMatrix Json_Parsed
begin

text \<open>
  Why a stored document is as good as the extracted one: the validator cannot tell a value from
  the one \<open>parse\<close> reads back from its dump, which differs in the tag of non-negative integers
  only (\<open>norm_json\<close>). The dump of a value contains no NUL byte, so the C string that SQLite
  is given is the whole text.
\<close>

section \<open>The validator on re-read values\<close>

lemma norm_is [simp]:
  "is_object (norm_json j) = is_object j" "is_array (norm_json j) = is_array j"
  "is_string (norm_json j) = is_string j" "is_boolean (norm_json j) = is_boolean j"
  "is_number (norm_json j) = is_number j"
  by (cases j; simp)+

lemma norm_type_name [simp]: "type_name (norm_json j) = type_name j"
  by (cases j) simp_all

lemma map_of_map_snd: "map_of (map (\<lambda>e. (fst e, f (snd e))) es) k = map_option f (map_of es k)"
  by (induction es) auto

lemma jfind_norm [simp]: "jfind (norm_json j) k = map_option norm_json (jfind j k)"
  by (cases j) (simp_all add: omap_get_def map_of_map_snd)

lemma norm_string [simp]: "norm_json j = JString s \<longleftrightarrow> j = JString s"
  by (cases j) auto

lemma norm_bool [simp]: "norm_json j = JBool b \<longleftrightarrow> j = JBool b"
  by (cases j) auto

lemma requireString_norm [simp]: "requireString (norm_json j) p = requireString j p"
  by (cases j) (simp_all add: requireString_def)

lemma get_double_norm [simp]: "is_number j \<Longrightarrow> get_double (norm_json j) = get_double j"
  by (cases j) simp_all

lemma get_bool_norm [simp]: "get_bool (norm_json j) = get_bool j"
  by (cases j) simp_all

lemma jat_norm: "jat (norm_json j) k = map_sum id norm_json (jat j k)"
  by (simp add: jat_def split: option.split)

lemma bindE_map_sum [simp]: "bindE (map_sum id f m) g = bindE m (\<lambda>x. g (f x))"
  by (cases m) simp_all

lemma requireE_bind_cong:
  "(b \<Longrightarrow> f = g) \<Longrightarrow> bindE (requireE b e) (\<lambda>_. f) = bindE (requireE b e) (\<lambda>_. g)"
  by (cases b) simp_all

lemma toCents_norm [simp]: "toCents (norm_json j) = toCents j"
  unfolding toCents_def norm_is by (rule requireE_bind_cong) simp

lemma rateToBps_norm [simp]: "rateToBps (norm_json j) p = rateToBps j p"
  unfolding rateToBps_def norm_is by (rule requireE_bind_cong) simp

lemma string_at_norm [simp]: "string_at (norm_json j) k p = string_at j k p"
  by (simp add: string_at_def jat_norm)

lemma opt_string_norm [simp]: "opt_string (norm_json j) k p = opt_string j k p"
  by (simp add: opt_string_def split: option.split)

lemma money_or_0_norm [simp]: "money_or_0 (norm_json j) k = money_or_0 j k"
  by (simp add: money_or_0_def split: option.split)

lemma object_field_norm [simp]: "object_field (norm_json j) k e = map_sum id norm_json (object_field j k e)"
  by (simp add: object_field_def split: option.split)

lemma number_field_norm [simp]:
  "bindE (requireE (is_number v) e) (\<lambda>_. bindE (get_double (norm_json v)) f) =
   bindE (requireE (is_number v) e) (\<lambda>_. bindE (get_double v) f)"
  by (rule requireE_bind_cong) simp

lemma vs_supplier_norm [simp]: "vs_supplier (norm_json j) m = vs_supplier j m"
  by (simp add: vs_supplier_def comp_def cong: option.case_cong)

lemma vs_buyer_norm [simp]: "vs_buyer (norm_json j) m = vs_buyer j m"
  by (simp add: vs_buyer_def comp_def cong: option.case_cong)

lemma vs_irn_norm [simp]: "vs_irn (norm_json j) m = vs_irn j m"
proof -
  have "(case norm_json v of JBool b \<Rightarrow> f b | _ \<Rightarrow> g) = (case v of JBool b \<Rightarrow> f b | _ \<Rightarrow> g)" for v f and g :: "StateMatrix result"
    by (cases v) simp_all
  moreover have "(case norm_json v of JString b \<Rightarrow> f b | _ \<Rightarrow> g) = (case v of JString b \<Rightarrow> f b | _ \<Rightarrow> g)" for v f and g :: "StateMatrix result"
    by (cases v) simp_all
  ultimately show ?thesis by (simp add: vs_irn_def comp_def cong: option.case_cong json.case_cong if_cong)
qed

lemma vs_invoice_norm [simp]: "vs_invoice (norm_json j) m = vs_invoice j m"
  by (simp add: vs_invoice_def comp_def cong: option.case_cong)

lemma vs_line_item_norm [simp]: "vs_line_item i (norm_json j) = vs_line_item i j"
  by (simp add: vs_line_item_def jat_norm comp_def cong: option.case_cong)

lemma mapE_enumerate_norm:
  "mapE (\<lambda>(i, li). vs_line_item i li) (enumerate n (map norm_json xs)) = mapE (\<lambda>(i, li). vs_line_item i li) (enumerate n xs)"
  by (induction xs arbitrary: n) simp_all

lemma vs_line_items_norm [simp]: "vs_line_items (norm_json j) m = vs_line_items j m"
proof -
  have "(case norm_json v of JArray xs \<Rightarrow> f xs | _ \<Rightarrow> g) = (case v of JArray xs \<Rightarrow> f (map norm_json xs) | _ \<Rightarrow> g)"
    for v f and g :: "StateMatrix result"
    by (cases v) simp_all
  then show ?thesis by (simp add: vs_line_items_def mapE_enumerate_norm comp_def cong: option.case_cong json.case_cong)
qed

lemma vs_tax_norm [simp]: "vs_tax (norm_json j) m = vs_tax j m"
  by (simp add: vs_tax_def comp_def cong: option.case_cong)

lemma vs_total_norm [simp]: "vs_total (norm_json j) m = vs_total j m"
  by (simp add: vs_total_def comp_def cong: option.case_cong)

lemma vs_irp_norm [simp]: "vs_irp (norm_json j) m = vs_irp j m"
  by (simp add: vs_irp_def comp_def cong: option.case_cong)

lemma validate_norm [simp]: "validateAndSanitize (norm_json j) = validateAndSanitize j"
  by (simp add: validateAndSanitize_def)

section \<open>Dumped text as a C string\<close>

definition no_nul :: "string \<Rightarrow> bool" where
  "no_nul s \<longleftrightarrow> CHR 0x00 \<notin> set s"

lemma no_nul_simps [simp]:
  "no_nul []" "no_nul (c # s) \<longleftrightarrow> c \<noteq> CHR 0x00 \<and> no_nul s" "no_nul (s @ t) \<longleftrightarrow> no_nul s \<and> no_nul t"
  by (auto simp: no_nul_def)

lemma c_str_no_nul [simp]: "no_nul s \<Longrightarrow> c_str s = s"
  by (simp add: no_nul_def c_str_id)

lemma no_nul_c_str [simp]: "no_nul (c_str s)"
  by (auto simp: no_nul_def c_str_def dest: set_takeWhileD)

lemma no_nul_digits: "digits ds \<Longrightarrow> no_nul ds"
proof -
  have "\<not> is_digit CHR 0x00" by code_simp
  then show "digits ds \<Longrightarrow> no_nul ds" by (auto simp: digits_def no_nul_def list_all_iff)
qed

lemma hex_lower_no_nul: "n < 16 \<Longrightarrow> hex_lower n \<noteq> CHR 0x00"
proof
  assume "n < 16" and "hex_lower n = CHR 0x00"
  then have "byte_of (hex_lower n) = 0" by (simp add: byte_of_def)
  then show False using \<open>n < 16\<close> by (auto simp: hex_lower_def split: if_splits)
qed

lemma escape_no_nul: "no_nul (esc_char c)"
proof -
  have "byte_of c = 0" if "c = CHR 0x00" using that by (simp add: byte_of_def)
  then show ?thesis by (auto simp: esc_char_def escape_cp_def intro!: hex_lower_no_nul)
qed

lemma dump_string_no_nul: "dump_string s = Inr t \<Longrightarrow> no_nul t"
  using escape_no_nul by (auto simp: dump_string_spec no_nul_def)

lemma join_with_no_nul: "no_nul sep \<Longrightarrow> list_all no_nul ps \<Longrightarrow> no_nul (join_with sep ps)"
  by (induction sep ps rule: join_with.induct) auto

lemma number_text_no_nul: "number_text sg w f x \<Longrightarrow> no_nul (sg @ w @ f @ x)"
  by (auto simp: number_text_def fraction_def exponent_def no_nul_digits)

context float_printer
begin

lemma dump_no_nul: "floats_ok j \<Longrightarrow> dump ft j = Inr t \<Longrightarrow> no_nul t"
proof (induction j arbitrary: t)
  case (JObject es)
  obtain ps where ps: "list_all2 (\<lambda>e t. bindE (dump_string (fst e)) (\<lambda>k. bindE (dump ft (snd e)) (\<lambda>v.
      Inr (k @ '':'' @ v))) = Inr t) es ps" and t: "t = dump_members ps"
    using JObject.prems(2) by (auto simp: bindE_eq_Inr mapE_eq_Inr)
  have "no_nul p" if "e \<in> set es" and "bindE (dump_string (fst e)) (\<lambda>k. bindE (dump ft (snd e)) (\<lambda>v.
      Inr (k @ '':'' @ v))) = Inr p" for e p
    using that JObject.IH [OF that(1) snd_in_snds] JObject.prems(1)
    by (auto simp: bindE_eq_Inr dest: dump_string_no_nul)
  then have "list_all2 (\<lambda>_. no_nul) es ps"
    by (intro list.rel_mono_strong [OF ps])
  then have "list_all no_nul ps"
    by (auto simp: list_all2_conv_all_nth list_all_length)
  then show ?case by (simp add: t dump_members_def join_with_no_nul)
next
  case (JArray xs)
  obtain ps where ps: "list_all2 (\<lambda>x t. dump ft x = Inr t) xs ps" and t: "t = dump_elements ps"
    using JArray.prems(2) by (auto simp: bindE_eq_Inr mapE_eq_Inr)
  have "list_all2 (\<lambda>_. no_nul) xs ps"
    by (rule list.rel_mono_strong [OF ps]) (use JArray in auto)
  then have "list_all no_nul ps"
    by (auto simp: list_all2_conv_all_nth list_all_length)
  then show ?case by (simp add: t dump_elements_def join_with_no_nul)
next
  case (JInt i)
  have "no_nul (int_str i)" using no_nul_digits dec_str_digits by (auto simp: int_str_def digits_def)
  then show ?case using JInt by (simp add: dump_integer_eq)
next
  case (JUInt i)
  have "no_nul (int_str i)" using no_nul_digits dec_str_digits by (auto simp: int_str_def digits_def)
  then show ?case using JUInt by (simp add: dump_integer_eq)
next
  case (JFloat d)
  then have "float_text (ft d)" using prints_float by simp
  then have "no_nul (ft d)" using number_text_no_nul by (auto simp: float_text_def)
  then show ?case using JFloat by (auto simp: dump_float_def)
qed (auto dest: dump_string_no_nul)

text \<open>The text that is stored for a well-formed document, read back and validated again.\<close>

lemma stored_document:
  assumes "wf_json j" and "floats_ok j" and "json_utf8 j"
  obtains t where "dump ft j = Inr t" and "c_str t = t"
    and "bindE (parse t) validateAndSanitize = validateAndSanitize j"
proof -
  obtain t where "dump ft j = Inr t" using dump_succeeds assms(3) by blast
  then show ?thesis using that parse_dump_norm dump_no_nul assms(1,2) by simp
qed

end

end
