(* ===== verification/Effects.thy ===== *)
theory Effects
  imports Prelude
begin

text \<open>
  Stateful operations that can throw: a function from the state to a result and the state it
  leaves, also when it throws (the C++ code has no transactions: whatever was written before an
  exception stays written). \<open>triple P m Q E\<close> is the Hoare triple with a second postcondition for
  exceptional exits; the rules are collected in \<open>triples\<close>.
\<close>

named_theorems triples \<open>rules for the Hoare triples of stateful operations\<close>

type_synonym ('s, 'a) op = "'s \<Rightarrow> 'a result \<times> 's"

definition liftD :: "'a result \<Rightarrow> ('s, 'a) op" where
  "liftD r s = (r, s)"

definition bindD :: "('s, 'a) op \<Rightarrow> ('a \<Rightarrow> ('s, 'b) op) \<Rightarrow> ('s, 'b) op" where
  "bindD m f s = (case m s of (Inl e, s') \<Rightarrow> (Inl e, s') | (Inr x, s') \<Rightarrow> f x s')"

definition catchD :: "('s, 'a) op \<Rightarrow> (exn \<Rightarrow> ('s, 'a) op) \<Rightarrow> ('s, 'a) op" where
  "catchD m h s = (case m s of (Inl e, s') \<Rightarrow> h e s' | (Inr x, s') \<Rightarrow> (Inr x, s'))"

definition getD :: "('s \<Rightarrow> 'a) \<Rightarrow> ('s, 'a) op" where
  "getD f s = (Inr (f s), s)"

definition modifyD :: "('s \<Rightarrow> 's) \<Rightarrow> ('s, unit) op" where
  "modifyD f s = (Inr (), f s)"

text \<open>A loop over a list, for its effects.\<close>

fun foreachD :: "('x \<Rightarrow> ('s, unit) op) \<Rightarrow> 'x list \<Rightarrow> ('s, unit) op" where
  "foreachD f [] = liftD (Inr ())"
| "foreachD f (x # xs) = bindD (f x) (\<lambda>_. foreachD f xs)"

lemma liftD_eq [simp]: "liftD r s = (r', s') \<longleftrightarrow> r' = r \<and> s' = s"
  by (auto simp: liftD_def)

lemma bindD_eq_Inr: "bindD m f s = (Inr y, s') \<longleftrightarrow> (\<exists>x t. m s = (Inr x, t) \<and> f x t = (Inr y, s'))"
  by (auto simp: bindD_def split: prod.splits sum.splits)

lemma bindD_eq_Inl:
  "bindD m f s = (Inl e, s') \<longleftrightarrow> m s = (Inl e, s') \<or> (\<exists>x t. m s = (Inr x, t) \<and> f x t = (Inl e, s'))"
  by (auto simp: bindD_def split: prod.splits sum.splits)

lemma bindD_Inr: "m s = (Inr x, t) \<Longrightarrow> bindD m f s = f x t"
  by (simp add: bindD_def)

lemma bindD_Inl: "m s = (Inl e, t) \<Longrightarrow> bindD m f s = (Inl e, t)"
  by (simp add: bindD_def)

lemma bindD_lift [simp]: "bindD (liftD (Inr x)) f = f x" "bindD (liftD (Inl e)) f = liftD (Inl e)"
  by (auto simp: bindD_def liftD_def)

lemma bindE_Inr_right [simp]: "bindE m Inr = m"
  by (cases m) simp_all

section \<open>Hoare triples\<close>

definition triple :: "('s \<Rightarrow> bool) \<Rightarrow> ('s, 'a) op \<Rightarrow> ('a \<Rightarrow> 's \<Rightarrow> bool) \<Rightarrow> (exn \<Rightarrow> 's \<Rightarrow> bool) \<Rightarrow> bool" where
  "triple P m Q E \<longleftrightarrow> (\<forall>s. P s \<longrightarrow> (case m s of (Inr x, s') \<Rightarrow> Q x s' | (Inl e, s') \<Rightarrow> E e s'))"

lemma triple_Inr: "triple P m Q E \<Longrightarrow> P s \<Longrightarrow> m s = (Inr x, s') \<Longrightarrow> Q x s'"
  by (auto simp: triple_def split: prod.splits sum.splits)

lemma triple_Inl: "triple P m Q E \<Longrightarrow> P s \<Longrightarrow> m s = (Inl e, s') \<Longrightarrow> E e s'"
  by (auto simp: triple_def split: prod.splits sum.splits)

lemma tripleI:
  "(\<And>s x s'. P s \<Longrightarrow> m s = (Inr x, s') \<Longrightarrow> Q x s') \<Longrightarrow>
   (\<And>s e s'. P s \<Longrightarrow> m s = (Inl e, s') \<Longrightarrow> E e s') \<Longrightarrow> triple P m Q E"
  by (auto simp: triple_def split: prod.splits sum.splits)

lemma triple_bind [triples]:
  "triple P m Q E \<Longrightarrow> (\<And>x. triple (Q x) (f x) R E) \<Longrightarrow> triple P (bindD m f) R E"
  by (fastforce simp: triple_def bindD_def split: prod.splits sum.splits)

lemma triple_lift: "triple P (liftD r) (\<lambda>x s. r = Inr x \<and> P s) (\<lambda>e s. r = Inl e \<and> P s)"
  by (cases r) (auto simp: triple_def liftD_def)

lemma triple_weaken:
  "triple P m Q E \<Longrightarrow> (\<And>s. P' s \<Longrightarrow> P s) \<Longrightarrow> (\<And>x s. Q x s \<Longrightarrow> Q' x s) \<Longrightarrow> (\<And>e s. E e s \<Longrightarrow> E' e s) \<Longrightarrow>
   triple P' m Q' E'"
  by (fastforce simp: triple_def split: prod.splits sum.splits)

lemma triple_catch [triples]:
  "triple P m Q E \<Longrightarrow> (\<And>e. triple (E e) (h e) Q F) \<Longrightarrow> triple P (catchD m h) Q F"
  by (fastforce simp: triple_def catchD_def split: prod.splits sum.splits)

text \<open>\<open>keeps I m\<close>: \<open>m\<close> preserves the invariant \<open>I\<close>, whether it returns or throws.\<close>

definition keeps :: "('s \<Rightarrow> bool) \<Rightarrow> ('s, 'a) op \<Rightarrow> bool" where
  "keeps I m \<longleftrightarrow> triple I m (\<lambda>_. I) (\<lambda>_. I)"

lemma keepsI: "(\<And>s. I s \<Longrightarrow> I (snd (m s))) \<Longrightarrow> keeps I m"
  by (fastforce simp: keeps_def triple_def split: prod.splits sum.splits)

lemma keepsD: "keeps I m \<Longrightarrow> I s \<Longrightarrow> m s = (r, s') \<Longrightarrow> I s'"
  by (cases r) (auto simp: keeps_def intro: triple_Inr triple_Inl)

lemma keeps_bind [triples]: "keeps I m \<Longrightarrow> (\<And>x. keeps I (f x)) \<Longrightarrow> keeps I (bindD m f)"
  unfolding keeps_def by (rule triple_bind)

lemma keeps_lift [triples]: "keeps I (liftD r)"
  by (rule keepsI) (simp add: liftD_def)

lemma keeps_get [triples]: "keeps I (getD f)"
  by (rule keepsI) (simp add: getD_def)

lemma keeps_modify [triples]: "(\<And>s. I s \<Longrightarrow> I (f s)) \<Longrightarrow> keeps I (modifyD f)"
  by (rule keepsI) (simp add: modifyD_def)

lemma keeps_catch [triples]: "keeps I m \<Longrightarrow> (\<And>e. keeps I (h e)) \<Longrightarrow> keeps I (catchD m h)"
  unfolding keeps_def by (rule triple_catch)

lemma keeps_foreach [triples]: "(\<And>x. x \<in> set xs \<Longrightarrow> keeps I (f x)) \<Longrightarrow> keeps I (foreachD f xs)"
  by (induction xs) (auto intro: triples)

lemma keeps_if [triples]: "keeps I a \<Longrightarrow> keeps I b \<Longrightarrow> keeps I (if c then a else b)"
  by simp

text \<open>Reading the state inside an operation.\<close>

lemma keeps_state: "(\<And>t. keeps I (f t)) \<Longrightarrow> keeps I (\<lambda>s. f s s)"
  by (auto simp: keeps_def triple_def split: prod.splits sum.splits)

end
