(* ===== verification/InvoiceRepository.thy ===== *)
theory InvoiceRepository
  imports Rehydration Effects
begin

text \<open>
  backend/src/InvoiceRepository.cpp: sessions, invoices, line items and the chat transcript in
  SQLite. A database is the list of rows of each table, in rowid order, with the AUTOINCREMENT
  counters; the statements have the meaning the SQL has (INSERT OR IGNORE on the primary key,
  CHECK and FOREIGN KEY constraints, ORDER BY the rowid). SQLite itself is outside the program:
  whether a call of \<open>sqlite3_prepare_v2\<close> or \<open>sqlite3_step\<close> fails, with which message, and what
  the clock says are parameters (\<open>sqlite\<close>), indexed by the number of calls made so far, so every
  pattern of failures is covered. An operation returns a result together with the database it
  leaves, also when it throws: no operation is wrapped in a transaction.
\<close>

section \<open>Tables\<close>

record session_row =
  sr_session_id :: string
  sr_status :: string
  sr_created_at :: string
  sr_updated_at :: string

record invoice_row =
  ir_invoice_id :: int
  ir_session_id :: string
  ir_file_name :: string
  ir_mime_type :: string
  ir_invoice_number :: string
  ir_invoice_date :: string
  ir_seller_gstin :: string
  ir_buyer_gstin :: "string option"
  ir_classification :: string
  ir_supply_type :: string
  ir_place_of_supply :: string
  ir_irn_present :: int
  ir_irn :: string
  ir_hsn_string :: string
  ir_base_value_cents :: int
  ir_total_tax_cents :: int
  ir_total_value_cents :: int
  ir_tax_breakdown_json :: string
  ir_extraction_meta_json :: string
  ir_document_json :: "string option"
  ir_extracted_at :: string

record line_row =
  lr_line_item_id :: int
  lr_invoice_id :: int
  lr_line_no :: int
  lr_hsn :: string
  lr_description :: string
  lr_quantity :: "dbl option"
  lr_unit_price_cents :: "int option"
  lr_base_value_cents :: int
  lr_tax_rate_bps :: int

record chat_row =
  cr_message_id :: int
  cr_session_id :: string
  cr_role :: string
  cr_content :: string
  cr_action_required :: string
  cr_created_at :: string

record db =
  tax_sessions :: "session_row list"
  invoices :: "invoice_row list"
  line_rows :: "line_row list"
  chat_messages :: "chat_row list"
  invoice_seq :: int
  line_seq :: int
  message_seq :: int
  calls :: nat

definition empty_db :: db where
  "empty_db = \<lparr>tax_sessions = [], invoices = [], line_rows = [], chat_messages = [],
     invoice_seq = 0, line_seq = 0, message_seq = 0, calls = 0\<rparr>"

section \<open>SQLite calls\<close>

record sqlite =
  prepare_fault :: "nat \<Rightarrow> string option"
  step_fault :: "nat \<Rightarrow> string option"
  clock :: "nat \<Rightarrow> string"

type_synonym 'a db_op = "(db, 'a) op"

definition tick :: "db \<Rightarrow> db" where
  "tick d = d\<lparr>calls := calls d + 1\<rparr>"

text \<open>The constructor of \<open>Stmt\<close>.\<close>

definition prepare :: "sqlite \<Rightarrow> string \<Rightarrow> unit db_op" where
  "prepare q sql d =
     (case prepare_fault q (calls d) of
        Some msg \<Rightarrow> (Inl (Runtime_error (''sqlite prepare failed: '' @ msg @ '' ['' @ sql @ '']'')), tick d)
      | None \<Rightarrow> (Inr (), tick d))"

text \<open>
  One \<open>sqlite3_step\<close> of a writing statement: it fails, or the statement takes effect, or a
  constraint refuses it (\<open>Inl\<close> with SQLite's message); a failure becomes the exception of the
  caller, whose prefix is \<open>who\<close>.
\<close>

definition step :: "sqlite \<Rightarrow> string \<Rightarrow> (string \<Rightarrow> db \<Rightarrow> string + (int \<times> db)) \<Rightarrow> int db_op" where
  "step q who effect d =
     (case step_fault q (calls d) of
        Some msg \<Rightarrow> (Inl (Runtime_error (who @ '': '' @ msg)), tick d)
      | None \<Rightarrow> (case effect (clock q (calls d)) d of
          Inl msg \<Rightarrow> (Inl (Runtime_error (who @ '': '' @ msg)), tick d)
        | Inr (rowid, d') \<Rightarrow> (Inr rowid, tick d')))"

text \<open>
  The rows a reading loop \<open>while (sqlite3_step(s) == SQLITE_ROW)\<close> sees: a failing step ends the
  loop like the end of the rows does.
\<close>

fun fetch :: "sqlite \<Rightarrow> 'r list \<Rightarrow> db \<Rightarrow> 'r list \<times> db" where
  "fetch q [] d = ([], tick d)"
| "fetch q (r # rs) d =
     (if step_fault q (calls d) \<noteq> None then ([], tick d)
      else case fetch q rs (tick d) of (xs, d') \<Rightarrow> (r # xs, d'))"

text \<open>A single \<open>sqlite3_step\<close> compared with \<open>SQLITE_ROW\<close>.\<close>

definition first_row :: "sqlite \<Rightarrow> 'r list \<Rightarrow> 'r option db_op" where
  "first_row q rs d =
     (case rs of [] \<Rightarrow> (Inr None, tick d)
      | r # _ \<Rightarrow> (if step_fault q (calls d) \<noteq> None then (Inr None, tick d) else (Inr (Some r), tick d)))"

section \<open>Enumerations\<close>

fun classificationString :: "Classification \<Rightarrow> string" where
  "classificationString B2B = ''B2B''"
| "classificationString B2C = ''B2C''"
| "classificationString UNDETERMINED = ''UNDETERMINED''"

fun supplyTypeString :: "SupplyType \<Rightarrow> string" where
  "supplyTypeString INTRA = ''INTRA''"
| "supplyTypeString INTER = ''INTER''"

section \<open>Opening\<close>

text \<open>
  The constructor: \<open>sqlite3_open\<close> and the schema script may fail; otherwise the tables of the
  file are there, created empty on first use. \<open>stored\<close> is the content of the file.
\<close>

definition open_repository :: "string option \<Rightarrow> string option \<Rightarrow> string \<Rightarrow> db option \<Rightarrow> db result" where
  "open_repository open_fault schema_fault db_path stored =
     (case open_fault of
        Some msg \<Rightarrow> Inl (Runtime_error (''cannot open database '' @ [CHR 0x27] @ db_path @ [CHR 0x27] @ '': '' @ msg))
      | None \<Rightarrow> (case schema_fault of
          Some msg \<Rightarrow> Inl (Runtime_error (''schema initialization failed: '' @ msg))
        | None \<Rightarrow> Inr (case stored of None \<Rightarrow> empty_db | Some d \<Rightarrow> d)))"

section \<open>Sessions\<close>

definition session_known :: "db \<Rightarrow> string \<Rightarrow> bool" where
  "session_known d sid \<longleftrightarrow> sid \<in> set (map sr_session_id (tax_sessions d))"

definition insert_session :: "string \<Rightarrow> string \<Rightarrow> db \<Rightarrow> string + (int \<times> db)" where
  "insert_session sid now d =
     (if session_known d sid then Inr (0, d)
      else Inr (0, d\<lparr>tax_sessions := tax_sessions d @
        [\<lparr>sr_session_id = sid, sr_status = ''ACTIVE'', sr_created_at = now, sr_updated_at = now\<rparr>]\<rparr>))"

definition createSession :: "sqlite \<Rightarrow> string \<Rightarrow> unit db_op" where
  "createSession q session_id =
     bindD (prepare q ''INSERT OR IGNORE INTO tax_sessions (session_id) VALUES (?)'') (\<lambda>_.
     bindD (step q ''createSession'' (insert_session (c_str session_id))) (\<lambda>_. liftD (Inr ())))"

definition sessionExists :: "sqlite \<Rightarrow> string \<Rightarrow> bool db_op" where
  "sessionExists q session_id =
     bindD (prepare q ''SELECT 1 FROM tax_sessions WHERE session_id = ?'') (\<lambda>_ d.
     bindD (first_row q (filter (\<lambda>r. sr_session_id r = c_str session_id) (tax_sessions d)))
       (\<lambda>r. liftD (Inr (r \<noteq> None))) d)"

definition statuses :: "string list" where
  "statuses = [''ACTIVE'', ''INTERROGATING'', ''FILED'', ''ABANDONED'']"

definition sql_quoted :: "string \<Rightarrow> string" where
  "sql_quoted s = [CHR 0x27] @ s @ [CHR 0x27]"

definition status_check :: string where
  "status_check = ''CHECK constraint failed: status IN ('' @ join_with '', '' (map sql_quoted statuses) @ '')''"

definition update_status :: "string \<Rightarrow> string \<Rightarrow> string \<Rightarrow> db \<Rightarrow> string + (int \<times> db)" where
  "update_status sid status now d =
     (if session_known d sid \<and> status \<notin> set statuses then Inl status_check
      else Inr (0, d\<lparr>tax_sessions := map (\<lambda>r. if sr_session_id r = sid
             then r\<lparr>sr_status := status, sr_updated_at := now\<rparr> else r) (tax_sessions d)\<rparr>))"

definition setSessionStatus :: "sqlite \<Rightarrow> string \<Rightarrow> string \<Rightarrow> unit db_op" where
  "setSessionStatus q session_id status =
     bindD (prepare q (''UPDATE tax_sessions SET status = ?, updated_at = strftime('' @
         sql_quoted ''%Y-%m-%dT%H:%M:%SZ'' @ '','' @ sql_quoted ''now'' @ '') WHERE session_id = ?'')) (\<lambda>_.
     bindD (step q ''setSessionStatus'' (update_status (c_str session_id) (c_str status))) (\<lambda>_.
     liftD (Inr ())))"

definition sessionStatus :: "sqlite \<Rightarrow> string \<Rightarrow> string db_op" where
  "sessionStatus q session_id =
     bindD (prepare q ''SELECT status FROM tax_sessions WHERE session_id = ?'') (\<lambda>_ d.
     bindD (first_row q (filter (\<lambda>r. sr_session_id r = c_str session_id) (tax_sessions d)))
       (\<lambda>r. liftD (Inr (case r of None \<Rightarrow> [] | Some s \<Rightarrow> sr_status s))) d)"

section \<open>Invoices\<close>

text \<open>The extractor's confidence block with a warnings array that carries the caller's.\<close>

definition extraction_meta :: "json \<Rightarrow> string list \<Rightarrow> json" where
  "extraction_meta document extraction_warnings =
     (let meta = (case jfind document ''extraction_confidence'' of
                    Some c \<Rightarrow> if is_object c then c else JObject [] | None \<Rightarrow> JObject []);
          meta = (case jfind meta ''warnings'' of
                    Some (JArray _) \<Rightarrow> meta | _ \<Rightarrow> jset meta ''warnings'' (JArray []))
      in fold (\<lambda>w meta. jset meta ''warnings''
                 (JArray ((case jfind meta ''warnings'' of Some v \<Rightarrow> elems v | None \<Rightarrow> []) @ [JString w])))
           extraction_warnings meta)"

definition breakdown_json :: "(dbl \<Rightarrow> string) \<Rightarrow> json \<Rightarrow> string result" where
  "breakdown_json ft document =
     (case jfind document ''invoice'' of
        Some iv \<Rightarrow> (case jfind iv ''tax_breakdown'' of
            Some tb \<Rightarrow> (if is_object iv \<and> is_object tb then dump ft tb else Inr ''{}'')
          | None \<Rightarrow> Inr ''{}'')
      | None \<Rightarrow> Inr ''{}'')"

definition fk_failed :: string where
  "fk_failed = ''FOREIGN KEY constraint failed''"

definition seq_full :: string where
  "seq_full = ''database or disk is full''"

definition insert_invoice :: "invoice_row \<Rightarrow> string \<Rightarrow> db \<Rightarrow> string + (int \<times> db)" where
  "insert_invoice row now d =
     (if i64_max \<le> invoice_seq d then Inl seq_full
      else if \<not> session_known d (ir_session_id row) then Inl fk_failed
      else let i = invoice_seq d + 1 in
        Inr (i, d\<lparr>invoices := invoices d @ [row\<lparr>ir_invoice_id := i, ir_extracted_at := now\<rparr>],
                   invoice_seq := i\<rparr>))"

definition insert_line :: "line_row \<Rightarrow> string \<Rightarrow> db \<Rightarrow> string + (int \<times> db)" where
  "insert_line row now d =
     (if i64_max \<le> line_seq d then Inl seq_full
      else if lr_invoice_id row \<notin> set (map ir_invoice_id (invoices d)) then Inl fk_failed
      else let i = line_seq d + 1 in
        Inr (i, d\<lparr>line_rows := line_rows d @ [row\<lparr>lr_line_item_id := i\<rparr>], line_seq := i\<rparr>))"

text \<open>\<open>sqlite3_bind_double\<close> stores NULL for a NaN; \<open>bindOptionalText\<close> for an empty string.\<close>

definition bind_double :: "dbl option \<Rightarrow> dbl option" where
  "bind_double v = (case v of Some NaN \<Rightarrow> None | _ \<Rightarrow> v)"

definition bindOptionalText :: "string option \<Rightarrow> string option" where
  "bindOptionalText v = (case v of Some s \<Rightarrow> (if s \<noteq> [] then Some (c_str s) else None) | None \<Rightarrow> None)"

definition invoice_row_of :: "string \<Rightarrow> string \<Rightarrow> string \<Rightarrow> StateMatrix \<Rightarrow> string \<Rightarrow> string \<Rightarrow> string \<Rightarrow> invoice_row" where
  "invoice_row_of session_id file_name mime_type matrix breakdown meta document = \<lparr>
     ir_invoice_id = 0, ir_session_id = c_str session_id, ir_file_name = c_str file_name,
     ir_mime_type = c_str mime_type, ir_invoice_number = c_str (invoice_number matrix),
     ir_invoice_date = c_str (invoice_date matrix), ir_seller_gstin = c_str (supplier_gstin matrix),
     ir_buyer_gstin = bindOptionalText (buyer_gstin matrix),
     ir_classification = classificationString (classification matrix),
     ir_supply_type = supplyTypeString (supply_type matrix),
     ir_place_of_supply = c_str (place_of_supply matrix),
     ir_irn_present = (if irn_present matrix then 1 else 0), ir_irn = c_str (irn matrix),
     ir_hsn_string = c_str (hsn_string matrix),
     ir_base_value_cents = matrix_base_value_cents matrix,
     ir_total_tax_cents = total_tax_cents (tax matrix),
     ir_total_value_cents = total_value_cents matrix,
     ir_tax_breakdown_json = c_str breakdown, ir_extraction_meta_json = c_str meta,
     ir_document_json = Some (c_str document), ir_extracted_at = []\<rparr>"

definition line_row_of :: "int \<Rightarrow> int \<Rightarrow> LineItem \<Rightarrow> line_row" where
  "line_row_of invoice_id line_no li = \<lparr>
     lr_line_item_id = 0, lr_invoice_id = invoice_id, lr_line_no = line_no, lr_hsn = c_str (hsn li),
     lr_description = c_str (description li), lr_quantity = bind_double (quantity li),
     lr_unit_price_cents = unit_price_cents li, lr_base_value_cents = base_value_cents li,
     lr_tax_rate_bps = tax_rate_bps li\<rparr>"

definition invoice_sql :: string where
  "invoice_sql = ''INSERT INTO invoices (session_id, file_name, mime_type, invoice_number, '' @
     ''invoice_date, seller_gstin, buyer_gstin, classification, supply_type, '' @
     ''place_of_supply, irn_present, irn, hsn_string, base_value_cents, '' @
     ''total_tax_cents, total_value_cents, tax_breakdown_json, '' @
     ''extraction_meta_json, document_json) '' @
     ''VALUES (?,?,?,?,?,?,?,?,?,?,?,?,?,?,?,?,?,?,?)''"

definition line_sql :: string where
  "line_sql = ''INSERT INTO line_items (invoice_id, line_no, hsn, description, '' @
     ''quantity, unit_price_cents, base_value_cents, tax_rate_bps) '' @
     ''VALUES (?,?,?,?,?,?,?,?)''"

text \<open>The loop over the line items, from the line number given on.\<close>

fun save_lines :: "sqlite \<Rightarrow> int \<Rightarrow> int \<Rightarrow> LineItem list \<Rightarrow> unit db_op" where
  "save_lines q invoice_id line_no [] = liftD (Inr ())"
| "save_lines q invoice_id line_no (li # lis) =
     bindD (prepare q line_sql) (\<lambda>_.
     bindD (step q ''saveExtraction(line)'' (insert_line (line_row_of invoice_id (line_no + 1) li))) (\<lambda>_.
     save_lines q invoice_id (line_no + 1) lis))"

definition saveExtraction ::
  "(dbl \<Rightarrow> string) \<Rightarrow> sqlite \<Rightarrow> string \<Rightarrow> string \<Rightarrow> string \<Rightarrow> StateMatrix \<Rightarrow> json \<Rightarrow> string list \<Rightarrow> int db_op" where
  "saveExtraction ft q session_id file_name mime_type matrix document extraction_warnings =
     bindD (createSession q session_id) (\<lambda>_.
     bindD (liftD (breakdown_json ft document)) (\<lambda>breakdown.
     bindD (prepare q invoice_sql) (\<lambda>_.
     bindD (liftD (dump ft (extraction_meta document extraction_warnings))) (\<lambda>meta.
     bindD (liftD (dump ft document)) (\<lambda>text.
     bindD (step q ''saveExtraction''
         (insert_invoice (invoice_row_of session_id file_name mime_type matrix breakdown meta text))) (\<lambda>invoice_id.
     bindD (save_lines q invoice_id 0 (line_items matrix)) (\<lambda>_.
     liftD (Inr invoice_id))))))))"

text \<open>A stored document, parsed and validated again.\<close>

definition revalidate :: "string \<Rightarrow> StateMatrix result" where
  "revalidate document =
     catchE (bindE (parse (c_str document)) validateAndSanitize) (\<lambda>e.
       Inl (Runtime_error (''invoicesForSession: stored document failed revalidation: '' @ c_str (what e))))"

fun rehydrate :: "sqlite \<Rightarrow> invoice_row list \<Rightarrow> StateMatrix list db_op" where
  "rehydrate q [] d = (Inr [], tick d)"
| "rehydrate q (r # rs) d =
     (if step_fault q (calls d) \<noteq> None then (Inr [], tick d)
      else case ir_document_json r of
        None \<Rightarrow> rehydrate q rs (tick d)
      | Some t \<Rightarrow> bindD (liftD (revalidate t)) (\<lambda>m.
          bindD (rehydrate q rs) (\<lambda>ms. liftD (Inr (m # ms)))) (tick d))"

definition invoicesForSession :: "sqlite \<Rightarrow> string \<Rightarrow> StateMatrix list db_op" where
  "invoicesForSession q session_id =
     bindD (prepare q ''SELECT document_json FROM invoices WHERE session_id = ? ORDER BY invoice_id ASC'') (\<lambda>_ d.
     rehydrate q (filter (\<lambda>r. ir_session_id r = c_str session_id) (invoices d)) d)"

section \<open>Chat transcript\<close>

definition roles :: "string list" where
  "roles = [''assistant'', ''user'', ''system'']"

definition role_check :: string where
  "role_check = ''CHECK constraint failed: role IN ('' @ join_with '', '' (map sql_quoted roles) @ '')''"

definition insert_message :: "chat_row \<Rightarrow> string \<Rightarrow> db \<Rightarrow> string + (int \<times> db)" where
  "insert_message row now d =
     (if i64_max \<le> message_seq d then Inl seq_full
      else if cr_role row \<notin> set roles then Inl role_check
      else if \<not> session_known d (cr_session_id row) then Inl fk_failed
      else let i = message_seq d + 1 in
        Inr (i, d\<lparr>chat_messages := chat_messages d @ [row\<lparr>cr_message_id := i, cr_created_at := now\<rparr>],
                   message_seq := i\<rparr>))"

definition addChatMessage :: "sqlite \<Rightarrow> string \<Rightarrow> string \<Rightarrow> string \<Rightarrow> string \<Rightarrow> unit db_op" where
  "addChatMessage q session_id role content action_required =
     bindD (createSession q session_id) (\<lambda>_.
     bindD (prepare q (''INSERT INTO chat_messages (session_id, role, content, action_required) '' @
         ''VALUES (?,?,?,?)'')) (\<lambda>_.
     bindD (step q ''addChatMessage'' (insert_message \<lparr>cr_message_id = 0,
         cr_session_id = c_str session_id, cr_role = c_str role, cr_content = c_str content,
         cr_action_required = c_str action_required, cr_created_at = []\<rparr>)) (\<lambda>_.
     liftD (Inr ()))))"

record ChatMessage =
  cm_role :: string
  cm_content :: string
  cm_action_required :: string
  cm_created_at :: string

definition chatHistory :: "sqlite \<Rightarrow> string \<Rightarrow> ChatMessage list db_op" where
  "chatHistory q session_id =
     bindD (prepare q (''SELECT role, content, action_required, created_at FROM chat_messages '' @
         ''WHERE session_id = ? ORDER BY message_id ASC'')) (\<lambda>_ d.
     case fetch q (filter (\<lambda>r. cr_session_id r = c_str session_id) (chat_messages d)) d of
       (rs, d') \<Rightarrow> (Inr (map (\<lambda>r. \<lparr>cm_role = c_str (cr_role r), cm_content = c_str (cr_content r),
          cm_action_required = c_str (cr_action_required r), cm_created_at = c_str (cr_created_at r)\<rparr>) rs), d'))"

section \<open>Diagnostics\<close>

definition sessionCount :: "sqlite \<Rightarrow> int db_op" where
  "sessionCount q =
     bindD (prepare q ''SELECT COUNT(*) FROM tax_sessions'') (\<lambda>_ d.
     bindD (first_row q [int (length (tax_sessions d))])
       (\<lambda>r. liftD (Inr (case r of None \<Rightarrow> 0 | Some n \<Rightarrow> n))) d)"

end
