(* ===== verification/Ledger.thy ===== *)
theory Ledger
  imports InvoiceRepository MockExtractor
begin

text \<open>
  What the repository promises: the integrity of its tables under every call and every pattern
  of SQLite failures, and the ledger of a session, the list of state matrices its stored
  documents stand for, which \<open>saveExtraction\<close> extends and \<open>invoicesForSession\<close> returns.
\<close>

section \<open>Integrity\<close>

definition ids_ok :: "int list \<Rightarrow> int \<Rightarrow> bool" where
  "ids_ok ids n \<longleftrightarrow> sorted_wrt (<) ids \<and> (\<forall>i \<in> set ids. 1 \<le> i \<and> i \<le> n) \<and> 0 \<le> n \<and> n \<le> i64_max"

definition sessions_ok :: "db \<Rightarrow> bool" where
  "sessions_ok d \<longleftrightarrow> distinct (map sr_session_id (tax_sessions d)) \<and>
     (\<forall>r \<in> set (tax_sessions d). sr_status r \<in> set statuses)"

definition invoice_row_ok :: "db \<Rightarrow> invoice_row \<Rightarrow> bool" where
  "invoice_row_ok d r \<longleftrightarrow> session_known d (ir_session_id r) \<and>
     ir_classification r \<in> {''B2B'', ''B2C'', ''UNDETERMINED''} \<and>
     ir_supply_type r \<in> {''INTRA'', ''INTER''} \<and> ir_irn_present r \<in> {0, 1}"

definition invoices_ok :: "db \<Rightarrow> bool" where
  "invoices_ok d \<longleftrightarrow> ids_ok (map ir_invoice_id (invoices d)) (invoice_seq d) \<and>
     (\<forall>r \<in> set (invoices d). invoice_row_ok d r)"

definition lines_ok :: "db \<Rightarrow> bool" where
  "lines_ok d \<longleftrightarrow> ids_ok (map lr_line_item_id (line_rows d)) (line_seq d) \<and>
     (\<forall>r \<in> set (line_rows d). lr_invoice_id r \<in> set (map ir_invoice_id (invoices d)))"

definition messages_ok :: "db \<Rightarrow> bool" where
  "messages_ok d \<longleftrightarrow> ids_ok (map cr_message_id (chat_messages d)) (message_seq d) \<and>
     (\<forall>r \<in> set (chat_messages d). session_known d (cr_session_id r) \<and> cr_role r \<in> set roles)"

definition db_ok :: "db \<Rightarrow> bool" where
  "db_ok d \<longleftrightarrow> sessions_ok d \<and> invoices_ok d \<and> lines_ok d \<and> messages_ok d"

lemmas table_defs = sessions_ok_def invoices_ok_def invoice_row_ok_def lines_ok_def messages_ok_def session_known_def

lemma ids_ok_next: "ids_ok ids n \<Longrightarrow> n < i64_max \<Longrightarrow> ids_ok (ids @ [n + 1]) (n + 1)"
  by (force simp: ids_ok_def sorted_wrt_append)

lemma db_ok_tick: "db_ok (tick d) = db_ok d"
  by (simp add: db_ok_def table_defs tick_def)

lemma db_ok_empty: "db_ok empty_db"
  by (simp add: db_ok_def table_defs empty_db_def ids_ok_def i64_max_def)

lemma insert_session_ok: "db_ok d \<Longrightarrow> insert_session sid now d = Inr (r, d') \<Longrightarrow> db_ok d'"
  by (auto simp: insert_session_def db_ok_def table_defs statuses_def split: if_splits)

lemma status_update_ids:
  "map sr_session_id (map (\<lambda>r. if sr_session_id r = sid
     then r\<lparr>sr_status := st, sr_updated_at := now\<rparr> else r) rs) = map sr_session_id rs"
  by (simp add: comp_def if_distrib [of sr_session_id] cong: if_cong)

lemma update_status_ok: "db_ok d \<Longrightarrow> update_status sid st now d = Inr (r, d') \<Longrightarrow> db_ok d'"
proof -
  assume ok: "db_ok d" and "update_status sid st now d = Inr (r, d')"
  then have st: "\<not> session_known d sid \<or> st \<in> set statuses"
    and d': "d' = d\<lparr>tax_sessions := map (\<lambda>r. if sr_session_id r = sid
             then r\<lparr>sr_status := st, sr_updated_at := now\<rparr> else r) (tax_sessions d)\<rparr>"
    by (auto simp: update_status_def split: if_splits)
  have ids: "map sr_session_id (tax_sessions d') = map sr_session_id (tax_sessions d)"
    unfolding d' by (simp add: status_update_ids del: map_map)
  then have known: "session_known d' = session_known d" by (simp add: session_known_def fun_eq_iff)
  have "sessions_ok d'" unfolding sessions_ok_def ids
    using ok st by (auto simp: d' db_ok_def sessions_ok_def session_known_def)
  moreover have "invoices_ok d'" "lines_ok d'" "messages_ok d'"
    using ok unfolding invoices_ok_def invoice_row_ok_def lines_ok_def messages_ok_def known
    by (simp_all add: d' db_ok_def invoices_ok_def invoice_row_ok_def lines_ok_def messages_ok_def)
  ultimately show "db_ok d'" by (simp add: db_ok_def)
qed

lemma insert_invoice_ok:
  assumes "db_ok d" and "insert_invoice (invoice_row_of sid fn mt m b meta doc) now d = Inr (r, d')"
  shows "db_ok d'"
proof -
  let ?row = "(invoice_row_of sid fn mt m b meta doc)\<lparr>ir_invoice_id := invoice_seq d + 1, ir_extracted_at := now\<rparr>"
  have i: "invoice_seq d < i64_max" "session_known d (c_str sid)"
    and d': "d' = d\<lparr>invoices := invoices d @ [?row], invoice_seq := invoice_seq d + 1\<rparr>"
    using assms(2) by (auto simp: insert_invoice_def Let_def invoice_row_of_def split: if_splits)
  have "invoice_row_ok d ?row"
    using i(2) by (cases "classification m"; cases "supply_type m") (simp_all add: invoice_row_ok_def invoice_row_of_def)
  then show ?thesis using assms(1) i ids_ok_next
    by (auto simp: d' db_ok_def table_defs)
qed

lemma insert_line_ok: "db_ok d \<Longrightarrow> insert_line row now d = Inr (r, d') \<Longrightarrow> db_ok d'"
  using ids_ok_next
  by (auto simp: insert_line_def Let_def db_ok_def table_defs split: if_splits)

lemma insert_message_ok: "db_ok d \<Longrightarrow> insert_message row now d = Inr (r, d') \<Longrightarrow> db_ok d'"
  using ids_ok_next
  by (auto simp: insert_message_def Let_def db_ok_def table_defs split: if_splits)

section \<open>Invariants of the tables\<close>

text \<open>
  What a property of the tables has to survive: the call counter for the operations that only
  read, a successful statement on sessions or messages for those that do not write the ledger,
  and the insertion of invoices and lines for \<open>saveExtraction\<close>. The operations then preserve it,
  whatever SQLite call fails.
\<close>

locale read_invariant =
  fixes I :: "db \<Rightarrow> bool"
  assumes tick_iff [simp]: "I (tick d) = I d"
begin

lemma keeps_prepare [triples]: "keeps I (prepare q sql)"
  by (rule keepsI) (simp add: prepare_def split: option.split)

lemma keeps_step:
  assumes "\<And>now d r d'. I d \<Longrightarrow> effect now d = Inr (r, d') \<Longrightarrow> I d'"
  shows "keeps I (step q who effect)"
proof (rule keepsI)
  fix d assume ok: "I d"
  show "I (snd (step q who effect d))"
  proof (cases "effect (clock q (calls d)) d")
    case (Inr x)
    then have "I (snd x)" using assms [OF ok, of _ "fst x" "snd x"] by simp
    then show ?thesis using Inr ok by (cases x) (simp add: step_def split: option.split)
  qed (simp add: step_def ok split: option.split)
qed

lemma keeps_first_row [triples]: "keeps I (first_row q rs)"
  by (rule keepsI) (simp add: first_row_def split: list.split)

lemma keeps_sessionExists [triples]: "keeps I (sessionExists q sid)"
  unfolding sessionExists_def by (intro triples keeps_state [where f = "\<lambda>t. bindD (first_row q (F t)) G" for F G])

lemma keeps_sessionStatus [triples]: "keeps I (sessionStatus q sid)"
  unfolding sessionStatus_def by (intro triples keeps_state [where f = "\<lambda>t. bindD (first_row q (F t)) G" for F G])

lemma keeps_sessionCount [triples]: "keeps I (sessionCount q)"
  unfolding sessionCount_def by (intro triples keeps_state [where f = "\<lambda>t. bindD (first_row q (F t)) G" for F G])

lemma keeps_rehydrate [triples]: "keeps I (rehydrate q rs)"
proof (rule keepsI)
  show "I d \<Longrightarrow> I (snd (rehydrate q rs d))" for d
  proof (induction rs arbitrary: d)
    case (Cons r rs)
    then have "I (snd (rehydrate q rs (tick d)))" by simp
    then show ?case using Cons.prems
      by (auto simp: bindD_def liftD_def split: option.split sum.split prod.split)
  qed simp
qed

lemma keeps_invoicesForSession [triples]: "keeps I (invoicesForSession q sid)"
  unfolding invoicesForSession_def by (intro triples keeps_state [where f = "\<lambda>t. rehydrate q (F t)" for F])

lemma keeps_fetch: "I d \<Longrightarrow> I (snd (fetch q rs d))"
  by (induction q rs d rule: fetch.induct) (auto split: prod.splits)

lemma keeps_chatHistory [triples]: "keeps I (chatHistory q sid)"
  unfolding chatHistory_def
  by (intro triples keepsI) (auto split: prod.split dest: keeps_fetch [where q = q] simp: prod.case_eq_if intro: keeps_fetch)

end

locale writer_invariant = read_invariant +
  assumes session_inserted: "I d \<Longrightarrow> insert_session sid now d = Inr (i, d') \<Longrightarrow> I d'"
begin

lemma keeps_createSession [triples]: "keeps I (createSession q sid)"
  unfolding createSession_def by (intro triples keeps_step) (erule (1) session_inserted)

end

locale session_invariant = writer_invariant +
  assumes status_updated: "I d \<Longrightarrow> update_status sid status now d = Inr (i, d') \<Longrightarrow> I d'"
    and message_inserted: "I d \<Longrightarrow> insert_message msg now d = Inr (i, d') \<Longrightarrow> I d'"
begin

lemma keeps_setSessionStatus [triples]: "keeps I (setSessionStatus q sid st)"
  unfolding setSessionStatus_def by (intro triples keeps_step) (erule (1) status_updated)

lemma keeps_addChatMessage [triples]: "keeps I (addChatMessage q sid role content action)"
  unfolding addChatMessage_def by (intro triples keeps_step) (erule (1) message_inserted)

end

locale ledger_invariant = writer_invariant +
  assumes invoice_inserted: "I d \<Longrightarrow> insert_invoice (invoice_row_of sid fn mt m b meta doc) now d = Inr (i, d') \<Longrightarrow> I d'"
    and line_inserted: "I d \<Longrightarrow> insert_line row now d = Inr (i, d') \<Longrightarrow> I d'"
begin

lemma keeps_save_lines [triples]: "keeps I (save_lines q i n lis)"
proof (induction lis arbitrary: n)
  case (Cons li lis)
  then show ?case unfolding save_lines.simps by (intro triples keeps_step) (erule (1) line_inserted)
qed (auto intro: triples)

lemma keeps_saveExtraction [triples]: "keeps I (saveExtraction ft q sid fn mt m doc ws)"
  unfolding saveExtraction_def by (intro triples keeps_step) (erule (1) invoice_inserted)

end

locale table_invariant = session_invariant + ledger_invariant

interpretation integrity: table_invariant db_ok
  by unfold_locales (fact db_ok_tick insert_session_ok update_status_ok insert_invoice_ok insert_line_ok insert_message_ok)+

text \<open>No call forgets a session.\<close>

lemma session_known_simps [simp]:
  "session_known (tick d) s = session_known d s"
  "session_known (d\<lparr>invoices := ivs, invoice_seq := i\<rparr>) s = session_known d s"
  "session_known (d\<lparr>line_rows := ls, line_seq := i\<rparr>) s = session_known d s"
  "session_known (d\<lparr>chat_messages := ms, message_seq := i\<rparr>) s = session_known d s"
  by (simp_all add: session_known_def tick_def)

lemma update_status_known: "update_status sid st now d = Inr (i, d') \<Longrightarrow> session_known d' s = session_known d s"
  by (auto simp: update_status_def session_known_def status_update_ids simp del: set_map map_map split: if_splits)

interpretation known: table_invariant "\<lambda>d. session_known d s" for s
  by unfold_locales
    (auto simp: insert_session_def insert_invoice_def insert_line_def insert_message_def Let_def update_status_known
      split: if_splits, simp_all add: session_known_def)

text \<open>The calls that do not write the ledger leave its tables alone.\<close>

interpretation unwritten: session_invariant
  "\<lambda>d. invoices d = ivs \<and> line_rows d = ls \<and> invoice_seq d = i \<and> line_seq d = j" for ivs ls i j
  by unfold_locales
    (auto simp: insert_session_def update_status_def insert_message_def Let_def tick_def split: if_splits)

text \<open>\<open>saveExtraction\<close> leaves the transcript alone.\<close>

interpretation untold: ledger_invariant "\<lambda>d. chat_messages d = cs \<and> message_seq d = n" for cs n
  by unfold_locales
    (auto simp: insert_session_def insert_invoice_def insert_line_def Let_def tick_def split: if_splits)

text \<open>A reading call changes nothing but the call counter.\<close>

interpretation reads: read_invariant "\<lambda>d. d\<lparr>calls := 0\<rparr> = e" for e
  by unfold_locales (simp add: tick_def)

section \<open>What each call changes\<close>

text \<open>The part of the database the ledger and the transcript are read from.\<close>

definition same_rows :: "db \<Rightarrow> db \<Rightarrow> bool" where
  "same_rows d d' \<longleftrightarrow> invoices d' = invoices d \<and> line_rows d' = line_rows d \<and>
     chat_messages d' = chat_messages d \<and> invoice_seq d' = invoice_seq d \<and>
     (\<forall>s. session_known d s \<longrightarrow> session_known d' s)"

lemma same_rows_tick [simp]: "same_rows d (tick d)"
  by (simp add: same_rows_def tick_def session_known_def)

lemma same_rows_tick_right [simp]: "same_rows d (tick e) = same_rows d e"
  by (simp add: same_rows_def tick_def session_known_def)

lemma same_rows_refl [simp]: "same_rows d d"
  by (simp add: same_rows_def)

lemma same_rows_trans [trans]: "same_rows d e \<Longrightarrow> same_rows e f \<Longrightarrow> same_rows d f"
  by (simp add: same_rows_def)

lemma tick_fields [simp]:
  "invoices (tick d) = invoices d" "line_rows (tick d) = line_rows d" "chat_messages (tick d) = chat_messages d"
  "tax_sessions (tick d) = tax_sessions d" "invoice_seq (tick d) = invoice_seq d" "line_seq (tick d) = line_seq d"
  "message_seq (tick d) = message_seq d" "calls (tick d) = Suc (calls d)"
  by (simp_all add: tick_def)

lemma prepare_rows: "prepare q sql d = (r, d') \<Longrightarrow> d' = tick d"
  by (auto simp: prepare_def split: option.splits)

lemma step_rows:
  "step q who effect d = (r, d') \<Longrightarrow>
     (\<exists>e. r = Inl e) \<and> d' = tick d \<or> (\<exists>i e now. effect now d = Inr (i, e) \<and> r = Inr i \<and> d' = tick e)"
  by (auto simp: step_def split: option.splits sum.splits)

lemma createSession_rows:
  "createSession q sid d = (r, d') \<Longrightarrow> same_rows d d' \<and> (\<forall>x. r = Inr x \<longrightarrow> session_known d' (c_str sid))"
  by (auto simp: createSession_def bindD_def insert_session_def same_rows_def session_known_def
      split: prod.splits sum.splits if_splits dest!: prepare_rows step_rows)

fun line_rows_of :: "int \<Rightarrow> int \<Rightarrow> LineItem list \<Rightarrow> line_row list" where
  "line_rows_of i n [] = []"
| "line_rows_of i n (li # lis) = line_row_of i (n + 1) li # line_rows_of i (n + 1) lis"

text \<open>A row without the number the table gives it.\<close>

definition unnumbered :: "line_row \<Rightarrow> line_row" where
  "unnumbered r = r\<lparr>lr_line_item_id := 0\<rparr>"

lemma unnumbered_row [simp]: "unnumbered ((line_row_of i n li)\<lparr>lr_line_item_id := k\<rparr>) = line_row_of i n li"
  by (simp add: unnumbered_def line_row_of_def)

lemma line_rows_of_length [simp]: "length (line_rows_of i n lis) = length lis"
  by (induction lis arbitrary: n) auto

lemma save_lines_rows:
  "save_lines q i n lis d = (r, d') \<Longrightarrow>
     \<exists>rows. invoices d' = invoices d \<and> invoice_seq d' = invoice_seq d \<and> line_rows d' = line_rows d @ rows \<and>
       map unnumbered rows = take (length rows) (line_rows_of i n lis) \<and> length rows \<le> length lis \<and>
       (r = Inr () \<longleftrightarrow> length rows = length lis)"
proof (induction lis arbitrary: n d)
  case Nil
  then show ?case by simp
next
  case (Cons li lis)
  have fail: ?case if "d' = tick e" "same_rows d e" "\<exists>x. r = Inl x" for e
    using that by (intro exI [of _ "[]"]) (auto simp: same_rows_def)
  consider x e where "r = Inl x" "d' = tick e" "same_rows d e"
    | d1 i1 where "insert_line (line_row_of i (n + 1) li) [] (tick d) = Inr (i1, d1)"
        "save_lines q i (n + 1) lis (tick d1) = (r, d')"
    using Cons.prems
    by (auto simp: bindD_def insert_line_def Let_def split: prod.splits sum.splits if_splits
        dest!: prepare_rows step_rows)
  then show ?case
  proof cases
    case 1
    then show ?thesis using fail by blast
  next
    case 2
    then have d1: "d1 = (tick d)\<lparr>line_rows := line_rows d @ [(line_row_of i (n + 1) li)\<lparr>lr_line_item_id := i1\<rparr>],
        line_seq := i1\<rparr>"
      by (auto simp: insert_line_def Let_def split: if_splits)
    from Cons.IH [OF 2(2)] obtain rows where rows: "invoices d' = invoices d" "invoice_seq d' = invoice_seq d"
      "line_rows d' = line_rows d @ ((line_row_of i (n + 1) li)\<lparr>lr_line_item_id := i1\<rparr>) # rows"
      "map unnumbered rows = take (length rows) (line_rows_of i (n + 1) lis)" "length rows \<le> length lis"
      "r = Inr () \<longleftrightarrow> length rows = length lis"
      by (auto simp: d1)
    then show ?thesis
      by (intro exI [of _ "((line_row_of i (n + 1) li)\<lparr>lr_line_item_id := i1\<rparr>) # rows"])
        simp
  qed
qed

text \<open>
  The outcomes of \<open>saveExtraction\<close>: before the invoice row is written nothing of the ledger has
  changed; afterwards the row stays, with the line rows written so far.
\<close>

lemma saveExtraction_rows:
  assumes "saveExtraction ft q sid fn mt m doc ws d = (r, d')"
  shows "(\<exists>e. r = Inl e) \<and> same_rows d d' \<or>
    (\<exists>b meta text now rows. breakdown_json ft doc = Inr b \<and> dump ft (extraction_meta doc ws) = Inr meta \<and>
       dump ft doc = Inr text \<and>
       invoices d' = invoices d @ [(invoice_row_of sid fn mt m b meta text)
         \<lparr>ir_invoice_id := invoice_seq d + 1, ir_extracted_at := now\<rparr>] \<and>
       invoice_seq d' = invoice_seq d + 1 \<and> line_rows d' = line_rows d @ rows \<and>
       map unnumbered rows = take (length rows) (line_rows_of (invoice_seq d + 1) 0 (line_items m)) \<and>
       (if length rows = length (line_items m) then r = Inr (invoice_seq d + 1)
        else length rows < length (line_items m) \<and> (\<exists>e. r = Inl e)))"
proof -
  obtain r1 d1 where 1: "createSession q sid d = (r1, d1)" by fastforce
  note s = createSession_rows [OF 1]
  consider (early) e where "r = Inl e" "same_rows d1 d'"
    | (written) b meta t i d2 now where "breakdown_json ft doc = Inr b"
      "dump ft (extraction_meta doc ws) = Inr meta" "dump ft doc = Inr t"
      "insert_invoice (invoice_row_of sid fn mt m b meta t) now (tick d1) = Inr (i, d2)"
      "bindD (save_lines q i 0 (line_items m)) (\<lambda>_. liftD (Inr i)) (tick d2) = (r, d')"
    using assms 1
    by (auto simp: saveExtraction_def bindD_def [where m = "createSession q sid"] bindD_def [where m = "liftD x" for x]
        bindD_def [where m = "prepare q x" for x] bindD_def [where m = "step q x y" for x y] liftD_def
        split: prod.splits sum.splits dest!: prepare_rows step_rows)
  then show ?thesis
  proof cases
    case early
    then show ?thesis using s same_rows_trans by blast
  next
    case written
    let ?row = "(invoice_row_of sid fn mt m b meta t)\<lparr>ir_invoice_id := invoice_seq d + 1, ir_extracted_at := now\<rparr>"
    have d2: "i = invoice_seq d + 1" "invoices d2 = invoices d @ [?row]" "invoice_seq d2 = invoice_seq d + 1"
      "line_rows d2 = line_rows d"
      using written(4) s by (auto simp: insert_invoice_def Let_def same_rows_def split: if_splits)
    obtain r3 d3 where 3: "save_lines q i 0 (line_items m) (tick d2) = (r3, d3)" by fastforce
    have d': "d' = d3" "r = (case r3 of Inl e \<Rightarrow> Inl e | Inr _ \<Rightarrow> Inr i)"
      using written(5) 3 by (auto simp: bindD_def liftD_def split: sum.splits)
    from save_lines_rows [OF 3] obtain rows where rows: "invoices d3 = invoices d2" "invoice_seq d3 = invoice_seq d2"
      "line_rows d3 = line_rows d2 @ rows" "map unnumbered rows = take (length rows) (line_rows_of i 0 (line_items m))"
      "length rows \<le> length (line_items m)" "r3 = Inr () \<longleftrightarrow> length rows = length (line_items m)"
      by auto
    have "if length rows = length (line_items m) then r = Inr i
        else length rows < length (line_items m) \<and> (\<exists>e. r = Inl e)"
      using rows(5,6) d'(2) by (cases r3) auto
    moreover have "map unnumbered rows = take (length rows) (line_rows_of (invoice_seq d + 1) 0 (line_items m))"
      using rows(4) d2(1) by simp
    ultimately show ?thesis
      using written(1-3) rows(1-3) d2 d'(1)
      by (intro disjI2 exI [of _ b] exI [of _ meta] exI [of _ t] exI [of _ now] exI [of _ rows] conjI) simp_all
  qed
qed

section \<open>The ledger of a session\<close>

definition session_documents :: "db \<Rightarrow> string \<Rightarrow> string list" where
  "session_documents d sid =
     List.map_filter ir_document_json (filter (\<lambda>r. ir_session_id r = c_str sid) (invoices d))"

definition ledger :: "db \<Rightarrow> string \<Rightarrow> StateMatrix list result" where
  "ledger d sid = mapE revalidate (session_documents d sid)"

text \<open>SQLite without failures.\<close>

definition healthy :: "sqlite \<Rightarrow> bool" where
  "healthy q \<longleftrightarrow> (\<forall>n. prepare_fault q n = None \<and> step_fault q n = None)"

lemma same_rows_ledger: "same_rows d d' \<Longrightarrow> ledger d' sid = ledger d sid"
  by (simp add: same_rows_def ledger_def session_documents_def)

lemma fst_bindD_lift: "fst (bindD m (\<lambda>x. liftD (g x)) d) = bindE (fst (m d)) g"
  by (auto simp: bindD_def liftD_def bindE_def split: prod.splits sum.splits)

lemma rehydrate_healthy:
  "healthy q \<Longrightarrow> fst (rehydrate q rs d) = mapE revalidate (List.map_filter ir_document_json rs)"
proof (induction rs arbitrary: d)
  case (Cons r rs)
  have h: "step_fault q n = None" for n using Cons.prems by (simp add: healthy_def)
  show ?case
  proof (cases "ir_document_json r")
    case None
    then show ?thesis using h Cons by (simp add: map_filter_simps)
  next
    case (Some t)
    then show ?thesis using h Cons
      by (cases "revalidate t") (simp_all add: map_filter_simps fst_bindD_lift liftD_def)
  qed
qed (simp add: map_filter_simps)

lemma invoicesForSession_healthy:
  "healthy q \<Longrightarrow> fst (invoicesForSession q sid d) = ledger d sid"
  by (simp add: invoicesForSession_def bindD_def prepare_def healthy_def rehydrate_healthy [unfolded healthy_def]
      ledger_def session_documents_def)

text \<open>Whatever fails: what is returned is the revalidation of a prefix of the stored documents.\<close>

lemma rehydrate_prefix:
  "fst (rehydrate q rs d) = Inr ms \<Longrightarrow>
     \<exists>k. mapE revalidate (take k (List.map_filter ir_document_json rs)) = Inr ms"
proof (induction rs arbitrary: d ms)
  case (Cons r rs)
  show ?case
  proof (cases "step_fault q (calls d) = None \<and> ir_document_json r \<noteq> None")
    case True
    then obtain t where t: "ir_document_json r = Some t" by blast
    obtain m ms' where m: "revalidate t = Inr m" "fst (rehydrate q rs (tick d)) = Inr ms'" "ms = m # ms'"
      using Cons.prems True t
      by (auto simp: bindD_def liftD_def split: prod.splits sum.splits)
    obtain k where "mapE revalidate (take k (List.map_filter ir_document_json rs)) = Inr ms'"
      using Cons.IH [OF m(2)] by blast
    then show ?thesis using m t by (intro exI [of _ "Suc k"]) (simp add: map_filter_simps)
  next
    case False
    then show ?thesis
    proof (cases "step_fault q (calls d) = None")
      case True
      then have "fst (rehydrate q rs (tick d)) = Inr ms" "ir_document_json r = None" using False Cons.prems by auto
      then show ?thesis using Cons.IH by (simp add: map_filter_simps)
    next
      case False
      then show ?thesis using Cons.prems by (intro exI [of _ 0]) auto
    qed
  qed
qed (auto intro: exI [of _ 0])

lemma ledger_append:
  assumes "invoices d' = invoices d @ [r]" and "ir_document_json r = Some t"
  shows "ledger d' sid =
    (if ir_session_id r = c_str sid
     then bindE (ledger d sid) (\<lambda>ms. bindE (revalidate t) (\<lambda>m. Inr (ms @ [m]))) else ledger d sid)"
  using assms by (simp add: ledger_def session_documents_def map_filter_simps List.map_filter_def mapE_append bindE_assoc)

context float_printer
begin

text \<open>What the stored text of a document is worth.\<close>

lemma revalidate_dump:
  assumes "wf_json j" and "floats_ok j" and "dump ft j = Inr t"
  shows "revalidate (c_str t) = catchE (validateAndSanitize j) (\<lambda>e.
    Inl (Runtime_error (''invoicesForSession: stored document failed revalidation: '' @ c_str (what e))))"
  using assms dump_no_nul [OF assms(2,3)] parse_dump_norm [OF assms] by (simp add: revalidate_def)

lemma saveExtraction_ledger:
  assumes "wf_json doc" and "floats_ok doc" and "validateAndSanitize doc = Inr m"
    and "saveExtraction ft q sid fn mt m' doc ws d = (r, d')"
  shows "(\<forall>s. ledger d' s = ledger d s) \<and> (\<exists>e. r = Inl e) \<or>
    (\<forall>s. ledger d' s = (if c_str s = c_str sid then bindE (ledger d s) (\<lambda>ms. Inr (ms @ [m])) else ledger d s))"
proof -
  consider "same_rows d d'" "\<exists>e. r = Inl e"
    | b meta t now where "dump ft doc = Inr t" "invoices d' = invoices d @ [(invoice_row_of sid fn mt m' b meta t)
         \<lparr>ir_invoice_id := invoice_seq d + 1, ir_extracted_at := now\<rparr>]"
    using saveExtraction_rows [OF assms(4)] by (elim disjE exE conjE) blast+
  then show ?thesis
  proof cases
    case 1
    then show ?thesis using same_rows_ledger by blast
  next
    case 2
    then have "ledger d' s = (if c_str s = c_str sid then bindE (ledger d s) (\<lambda>ms. Inr (ms @ [m])) else ledger d s)" for s
      using revalidate_dump [OF assms(1,2) 2(1)] assms(3)
      by (auto simp: ledger_append [OF 2(2)] invoice_row_of_def)
    then show ?thesis by blast
  qed
qed

end

section \<open>When saving succeeds\<close>

lemma json_utf8_jfind: "json_utf8 j \<Longrightarrow> jfind j k = Some v \<Longrightarrow> json_utf8 v"
  by (cases j) (force simp: omap_get_def dest: map_of_SomeD)+

lemma json_utf8_jset: "json_utf8 j \<Longrightarrow> well_formed_utf8 k \<Longrightarrow> json_utf8 v \<Longrightarrow> json_utf8 (jset j k v)"
  using omap_put_set by (cases j) (fastforce)+

lemma json_utf8_elems: "json_utf8 j \<Longrightarrow> x \<in> set (elems j) \<Longrightarrow> json_utf8 x"
  by (cases j) auto

lemma warnings_utf8: "well_formed_utf8 ''warnings''"
  by (simp add: well_formed_utf8_run utf8_next_0 byte_of_def)

lemma extraction_meta_utf8:
  assumes "json_utf8 doc" and "list_all well_formed_utf8 ws"
  shows "json_utf8 (extraction_meta doc ws)"
proof -
  define push where "push = (\<lambda>w meta. jset meta ''warnings''
                 (JArray ((case jfind meta ''warnings'' of Some v \<Rightarrow> elems v | None \<Rightarrow> []) @ [JString w])))"
  have push: "json_utf8 (push w meta)" if "json_utf8 meta" "well_formed_utf8 w" for w meta
  proof (cases "jfind meta ''warnings''")
    case (Some v)
    then show ?thesis
      using that json_utf8_jfind [OF that(1) Some] json_utf8_elems [of v] warnings_utf8
      by (auto simp: push_def intro!: json_utf8_jset)
  qed (use that warnings_utf8 in \<open>auto simp: push_def intro!: json_utf8_jset\<close>)
  have fold: "json_utf8 (fold push ws meta)" if "json_utf8 meta" for meta
    using that assms(2) by (induction ws arbitrary: meta) (auto intro: push)
  define c where "c = (case jfind doc ''extraction_confidence'' of
      Some c \<Rightarrow> if is_object c then c else JObject [] | None \<Rightarrow> JObject [])"
  have c: "json_utf8 c"
    using json_utf8_jfind [OF assms(1)] by (auto simp: c_def split: option.split)
  have "json_utf8 (jset c ''warnings'' (JArray []))"
    using c warnings_utf8 by (intro json_utf8_jset) simp_all
  with c have "json_utf8 (case jfind c ''warnings'' of Some (JArray _) \<Rightarrow> c | _ \<Rightarrow> jset c ''warnings'' (JArray []))"
    by (cases "jfind c ''warnings''"; cases "the (jfind c ''warnings'')") simp_all
  then show ?thesis
    unfolding extraction_meta_def Let_def push_def [symmetric] c_def [symmetric] by (rule fold)
qed

lemma breakdown_json_succeeds:
  assumes "json_utf8 doc"
  shows "\<exists>b. breakdown_json ft doc = Inr b"
proof (cases "jfind doc ''invoice''")
  case (Some iv)
  note iv = json_utf8_jfind [OF assms Some]
  show ?thesis
  proof (cases "jfind iv ''tax_breakdown''")
    case (Some tb)
    then obtain t where "dump ft tb = Inr t" using dump_succeeds json_utf8_jfind [OF iv Some] by blast
    then show ?thesis using Some \<open>jfind doc ''invoice'' = Some iv\<close> by (simp add: breakdown_json_def)
  qed (simp add: breakdown_json_def Some)
qed (simp add: breakdown_json_def)

lemma healthy_simps:
  "healthy q \<Longrightarrow> prepare q sql d = (Inr (), tick d)"
  "healthy q \<Longrightarrow> step q who effect d =
     (case effect (clock q (calls d)) d of
        Inl msg \<Rightarrow> (Inl (Runtime_error (who @ '': '' @ msg)), tick d) | Inr (i, d') \<Rightarrow> (Inr i, tick d'))"
  by (simp_all add: healthy_def prepare_def step_def)

lemma createSession_healthy:
  assumes "healthy q"
  shows "\<exists>d'. createSession q sid d = (Inr (), d') \<and> same_rows d d' \<and> session_known d' (c_str sid) \<and>
    line_seq d' = line_seq d \<and> message_seq d' = message_seq d"
  using assms
  by (auto simp: createSession_def bindD_def liftD_def healthy_simps insert_session_def same_rows_def session_known_def)

lemma save_lines_healthy:
  assumes "healthy q" and "i \<in> set (map ir_invoice_id (invoices d))" and "line_seq d + int (length lis) \<le> i64_max"
  shows "fst (save_lines q i n lis d) = Inr ()"
  using assms(2,3)
proof (induction lis arbitrary: d n)
  case (Cons li lis)
  have "line_seq d < i64_max" using Cons.prems(2) by simp
  then show ?case using Cons assms(1)
    by (simp add: bindD_def healthy_simps insert_line_def line_row_of_def Let_def)
qed (simp add: liftD_def)

definition room :: "db \<Rightarrow> nat \<Rightarrow> bool" where
  "room d n \<longleftrightarrow> invoice_seq d < i64_max \<and> line_seq d + int n \<le> i64_max"

lemma saveExtraction_healthy:
  assumes "healthy q" and "json_utf8 doc" and "list_all well_formed_utf8 ws" and "room d (length (line_items m))"
  shows "\<exists>d'. saveExtraction ft q sid fn mt m doc ws d = (Inr (invoice_seq d + 1), d')"
proof -
  obtain d1 where 1: "createSession q sid d = (Inr (), d1)" "same_rows d d1" "session_known d1 (c_str sid)"
    "line_seq d1 = line_seq d"
    using createSession_healthy [OF assms(1)] by metis
  obtain b meta t where t: "breakdown_json ft doc = Inr b" "dump ft (extraction_meta doc ws) = Inr meta" "dump ft doc = Inr t"
    using breakdown_json_succeeds dump_succeeds extraction_meta_utf8 assms(2,3) by metis
  obtain d2 where 2: "insert_invoice (invoice_row_of sid fn mt m b meta t) (clock q (calls (tick d1))) (tick d1) =
      Inr (invoice_seq d + 1, d2)" "line_seq d2 = line_seq d" "invoice_seq d + 1 \<in> set (map ir_invoice_id (invoices d2))"
    using assms(4) 1(2-) by (simp add: insert_invoice_def Let_def invoice_row_of_def session_known_def same_rows_def room_def)
  have "fst (save_lines q (invoice_seq d + 1) 0 (line_items m) (tick d2)) = Inr ()"
    using save_lines_healthy [OF assms(1)] 2(2,3) assms(4) by (simp add: room_def)
  then obtain d3 where "save_lines q (invoice_seq d + 1) 0 (line_items m) (tick d2) = (Inr (), d3)"
    by (metis prod.collapse)
  then show ?thesis
    using 1(1) 2(1) t assms(1)
    by (simp add: saveExtraction_def bindD_def [where m = "createSession q sid"] bindD_def [where m = "prepare q x" for x]
        bindD_def [where m = "step q x y" for x y] bindD_def [where m = "save_lines q x y z" for x y z]
        liftD_def healthy_simps)
qed

section \<open>Properties\<close>

lemma keeps_snd: "keeps I m \<Longrightarrow> I s \<Longrightarrow> I (snd (m s))"
  by (cases "m s") (auto dest: keepsD)

text \<open>
  Property C20. The integrity of the tables survives every call, whether it returns or throws and
  whatever SQLite call fails: session ids are unique and their statuses legal, invoice, line and
  message ids increase and are bounded by their AUTOINCREMENT counters, and every invoice, line
  and message belongs to an existing session or invoice.
\<close>

theorem repository_integrity:
  assumes "db_ok d"
  shows "db_ok (snd (createSession q sid d)) \<and> db_ok (snd (sessionExists q sid d)) \<and>
    db_ok (snd (setSessionStatus q sid status d)) \<and> db_ok (snd (sessionStatus q sid d)) \<and>
    db_ok (snd (saveExtraction ft q sid file_name mime_type m doc warnings d)) \<and>
    db_ok (snd (invoicesForSession q sid d)) \<and>
    db_ok (snd (addChatMessage q sid role content action d)) \<and>
    db_ok (snd (chatHistory q sid d)) \<and> db_ok (snd (sessionCount q d))"
  by (intro conjI keeps_snd [where I = db_ok and s = d, OF _ assms] triples)

text \<open>
  Property C9. Rehydration is lossless, as InvoiceRepository.hpp promises: on a database that does
  not fail, saving a validated document (any document \<open>parse\<close> returns) succeeds with the next
  invoice id, appends exactly its state matrix to the ledger of that session and changes the
  ledger of no other; reading the session back, on this connection or after a restart, returns
  the ledger. Session ids are told apart up to their first NUL byte.
\<close>

theorem saved_invoice_rehydrates:
  assumes "float_printer ft" and "healthy q" and "room d (length (line_items m))"
    and "wf_json doc" and "floats_ok doc" and "json_utf8 doc" and "list_all well_formed_utf8 warnings"
    and "validateAndSanitize doc = Inr m"
  shows "\<exists>d'. saveExtraction ft q sid file_name mime_type m doc warnings d = (Inr (invoice_seq d + 1), d') \<and>
    (\<forall>s. ledger d' s =
       (if c_str s = c_str sid then bindE (ledger d s) (\<lambda>ms. Inr (ms @ [m])) else ledger d s)) \<and>
    (\<forall>s q'. healthy q' \<longrightarrow> fst (invoicesForSession q' s d') = ledger d' s)"
proof -
  obtain d' where s: "saveExtraction ft q sid file_name mime_type m doc warnings d = (Inr (invoice_seq d + 1), d')"
    using saveExtraction_healthy assms(2,3,6,7) by blast
  then show ?thesis
    using float_printer.saveExtraction_ledger [OF assms(1,4,5,8) s] invoicesForSession_healthy by blast
qed


lemma rehydrate_truncated:
  assumes "\<forall>i < k. step_fault q (calls d + i) = None" and "step_fault q (calls d + k) \<noteq> None"
    and "list_all (\<lambda>r. ir_document_json r \<noteq> None) rs"
    and "mapE revalidate (take k (List.map_filter ir_document_json rs)) = Inr ms"
  shows "fst (rehydrate q rs d) = Inr ms"
  using assms
proof (induction rs arbitrary: d k ms)
  case (Cons r rs)
  show ?case
  proof (cases k)
    case 0
    then show ?thesis using Cons.prems by auto
  next
    case (Suc k')
    obtain t where t: "ir_document_json r = Some t" using Cons.prems(3) by auto
    then obtain m ms' where m: "revalidate t = Inr m" "ms = m # ms'"
      "mapE revalidate (take k' (List.map_filter ir_document_json rs)) = Inr ms'"
      using Cons.prems(4) Suc by (auto simp: map_filter_simps bindE_eq_Inr)
    have "\<forall>i < k'. step_fault q (calls (tick d) + i) = None"
    proof (intro allI impI)
      fix i assume "i < k'"
      then have "step_fault q (calls d + Suc i) = None" using Cons.prems(1) Suc by blast
      then show "step_fault q (calls (tick d) + i) = None" by simp
    qed
    then have "fst (rehydrate q rs (tick d)) = Inr ms'"
      using Cons.IH [of k' "tick d" ms'] Cons.prems(2,3) m(3) Suc by simp
    moreover have "step_fault q (calls d) = None" using Cons.prems(1) Suc by auto
    ultimately show ?thesis using t m by (simp add: fst_bindD_lift liftD_def)
  qed
qed (simp add: map_filter_simps)

text \<open>
  Property C37. A read error is taken for the end of the rows: when the \<open>k\<close>-th step of the query
  fails, \<open>invoicesForSession\<close> does not throw but returns the first \<open>k\<close> invoices, so a filing after
  a restart can silently omit the rest.
\<close>

theorem read_error_truncates_ledger:
  assumes "prepare_fault q (calls d) = None" and "\<forall>i < k. step_fault q (calls d + 1 + i) = None"
    and "step_fault q (calls d + 1 + k) = Some msg"
    and "\<forall>r \<in> set (invoices d). ir_document_json r \<noteq> None"
    and "mapE revalidate (take k (session_documents d sid)) = Inr ms"
  shows "fst (invoicesForSession q sid d) = Inr ms"
proof -
  have "fst (rehydrate q (filter (\<lambda>r. ir_session_id r = c_str sid) (invoices d)) (tick d)) = Inr ms"
    using assms by (intro rehydrate_truncated [where k = k]) (auto simp: list_all_iff session_documents_def)
  then show ?thesis using assms(1) by (simp add: invoicesForSession_def bindD_def prepare_def)
qed

section \<open>Witnesses\<close>

definition fine_sqlite :: sqlite where
  "fine_sqlite = \<lparr>prepare_fault = \<lambda>_. None, step_fault = \<lambda>_. None, clock = \<lambda>_. ''2026-04-01T00:00:00Z''\<rparr>"

text \<open>SQLite with a single failing step.\<close>

definition failing_sqlite :: "nat \<Rightarrow> sqlite" where
  "failing_sqlite n = fine_sqlite\<lparr>step_fault := (\<lambda>i. if i = n then Some ''disk I/O error'' else None)\<rparr>"

lemma fine_sqlite_healthy [simp]: "healthy fine_sqlite"
  by (simp add: healthy_def fine_sqlite_def)

lemma representable_int: "\<bar>n\<bar> < 2 ^ 53 \<Longrightarrow> representable (Fin (of_int n))"
  by (simp add: representable_def rnd_of_int)

lemma representable_samples:
  "representable (Fin (13 / 2))" "representable (Fin 1000)" "representable (Fin 500)"
  "representable (Fin 180)" "representable (Fin 1180)" "representable (rnd (98 / 100))"
proof -
  have f: "\<lfloor>13 / 2 :: rat\<rfloor> = 6" by (simp add: floor_eq_iff)
  have "blen 6 = 3" by (simp add: blen.simps)
  then have "ulp_exp (13 / 2) = - 50" by (simp add: ulp_exp_def ilog2_def f)
  moreover have "rne 7318349394477056 = 7318349394477056" by (metis of_int_numeral rne_of_int)
  ultimately have "rnd_val (13 / 2) = 13 / 2" by (simp add: rnd_val_def pow2_def)
  moreover have "\<bar>13 / 2\<bar> < pow2 1024" using pow2_mono [of 3 1024] by (simp add: pow2_def)
  ultimately show "representable (Fin (13 / 2))" using rnd_Fin [of "13 / 2"] by (simp add: representable_def)
  have "(1 :: rat) / 10 ^ 300 \<le> \<bar>98 / 100\<bar>" and "\<bar>98 / 100\<bar> \<le> (10 :: rat) ^ 299" by simp_all
  then obtain v where "rnd (98 / 100) = Fin v" by (rule rnd_rel)
  then show "representable (rnd (98 / 100))" by (intro rnd_representable) simp
qed (use representable_int [of 1000] representable_int [of 500] representable_int [of 180] representable_int [of 1180] in simp_all)

lemma default_document_ok:
  "wf_json buildDefaultDocument" "floats_ok buildDefaultDocument" "json_utf8 buildDefaultDocument"
proof -
  show "wf_json buildDefaultDocument" by code_simp
  show "floats_ok buildDefaultDocument"
    using representable_samples
    by (simp add: buildDefaultDocument_def default_supplier_def default_buyer_def default_invoice_def mk_object_def)
  show "json_utf8 buildDefaultDocument"
    by (simp add: buildDefaultDocument_def default_supplier_def default_buyer_def default_invoice_def mk_object_def
        default_irn_def well_formed_utf8_run utf8_next_0 byte_of_def)
qed

theorem repository_integrity_witness:
  "db_ok (snd (createSession (failing_sqlite 1) ''s1'' empty_db))"
  using repository_integrity [OF db_ok_empty, of "failing_sqlite 1" "''s1''"] by blast

theorem saved_invoice_rehydrates_witness:
  "\<exists>d'. fst (saveExtraction dyadic_text fine_sqlite ''s1'' [] ''application/pdf'' default_matrix buildDefaultDocument [] empty_db) = Inr 1 \<and>
     ledger d' ''s1'' = Inr [default_matrix] \<and> ledger d' ''s2'' = Inr [] \<and>
     fst (invoicesForSession fine_sqlite ''s1'' d') = Inr [default_matrix]"
proof -
  have "room empty_db (length (line_items default_matrix))"
    by (simp add: room_def empty_db_def default_matrix_def i64_max_def)
  note this default_document_ok
  from saved_invoice_rehydrates [OF dyadic.float_printer_axioms fine_sqlite_healthy this _ validate_default,
      of "[]" "''s1''" "[]" "''application/pdf''"]
  obtain d' where "saveExtraction dyadic_text fine_sqlite ''s1'' [] ''application/pdf'' default_matrix
      buildDefaultDocument [] empty_db = (Inr (invoice_seq empty_db + 1), d')"
    "\<forall>s. ledger d' s = (if c_str s = c_str ''s1'' then bindE (ledger empty_db s) (\<lambda>ms. Inr (ms @ [default_matrix]))
       else ledger empty_db s)"
    "\<forall>s q'. healthy q' \<longrightarrow> fst (invoicesForSession q' s d') = ledger d' s"
    by auto
  moreover have "ledger empty_db s = Inr []" for s
    by (simp add: ledger_def session_documents_def empty_db_def map_filter_simps)
  ultimately show ?thesis
    by (intro exI [of _ d']) (simp add: empty_db_def c_str_def)
qed


definition one_invoice_db :: db where
  "one_invoice_db = empty_db\<lparr>invoices := [invoice_row_of ''s1'' [] [] default_matrix ''{}'' ''{}'' ''{}'']\<rparr>"

theorem read_error_truncates_ledger_witness:
  "session_documents one_invoice_db ''s1'' = [''{}''] \<and>
   fst (invoicesForSession (failing_sqlite 1) ''s1'' one_invoice_db) = Inr []"
proof
  show "session_documents one_invoice_db ''s1'' = [''{}'']"
    by (simp add: session_documents_def one_invoice_db_def empty_db_def invoice_row_of_def map_filter_simps c_str_def)
  show "fst (invoicesForSession (failing_sqlite 1) ''s1'' one_invoice_db) = Inr []"
    using read_error_truncates_ledger [of "failing_sqlite 1" one_invoice_db 0 "''disk I/O error''" "''s1''" "[]"]
    by (simp add: one_invoice_db_def empty_db_def failing_sqlite_def fine_sqlite_def invoice_row_of_def)
qed

end
