(* ===== verification/HttpClient.thy ===== *)
theory HttpClient
  imports Prelude
begin

text \<open>
  backend/include/HttpClient.hpp and its two transports, WinHttpClient.cpp and
  CurlHttpClient.cpp. The Windows and libcurl functions are outside the program: their outcomes
  are parameters (\<open>winhttp\<close>, \<open>curl\<close>), and next to the response \<open>postJson\<close> returns what it handed
  to the network, if it got that far. The locale \<open>http_transport\<close> is the seam the Gemini client
  is written against.
\<close>

section \<open>The seam\<close>

record HttpResponse =
  hr_status :: int
  hr_body :: string
  hr_error :: string

type_synonym post = "string \<Rightarrow> string \<Rightarrow> string \<Rightarrow> nat \<Rightarrow> HttpResponse"

text \<open>"A transport failure is NOT an exception": it is a status of 0 with the cause.\<close>

definition transport_failed :: "string \<Rightarrow> HttpResponse" where
  "transport_failed e = \<lparr>hr_status = 0, hr_body = [], hr_error = e\<rparr>"

locale http_transport =
  fixes post :: post
  assumes error_has_no_status: "hr_error (post url token payload timeout) \<noteq> [] \<Longrightarrow> hr_status (post url token payload timeout) = 0"

section \<open>parseUrl\<close>

record ParsedUrl =
  scheme :: string
  host :: string
  port :: nat
  path :: string

text \<open>
  \<open>std::stoul\<close> of the Windows build, where \<open>unsigned long\<close> has 32 bits: white space and a sign are
  skipped, a negative value wraps, what follows the digits is ignored; no digits or a value out
  of range throw (\<open>None\<close>).
\<close>

definition stoul32 :: "string \<Rightarrow> nat option" where
  "stoul32 s =
     (let s1 = dropWhile is_space s;
          neg = (s1 \<noteq> [] \<and> hd s1 = CHR ''-'');
          s2 = (if s1 \<noteq> [] \<and> (hd s1 = CHR ''-'' \<or> hd s1 = CHR ''+'') then tl s1 else s1);
          ds = takeWhile is_digit s2; v = digits_val 0 ds in
      if ds = [] \<or> 4294967295 < v then None
      else Some (nat (if neg then (- v) mod 4294967296 else v)))"

text \<open>\<open>rfind(c)\<close>: the last occurrence.\<close>

definition rfind_char :: "char \<Rightarrow> string \<Rightarrow> nat option" where
  "rfind_char c s = map_option (\<lambda>k. length s - 1 - k) (find_char c (rev s))"

definition url_scheme :: "string \<Rightarrow> (string \<times> nat \<times> string) option" where
  "url_scheme url =
     (if starts_with ''https://'' url then Some (''https'', 443, drop 8 url)
      else if starts_with ''http://'' url then Some (''http'', 80, drop 7 url)
      else None)"

definition parseUrl :: "string \<Rightarrow> ParsedUrl option" where
  "parseUrl url =
     (case url_scheme url of
        None \<Rightarrow> None
      | Some (sch, defaultPort, rest) \<Rightarrow>
          (let slash = find_char (CHR ''/'') rest;
               authority = (case slash of None \<Rightarrow> rest | Some k \<Rightarrow> take k rest);
               pth = (case slash of None \<Rightarrow> ''/'' | Some k \<Rightarrow> drop k rest) in
           if authority = [] then None
           else (let colon = rfind_char (CHR '':'') authority;
                     hst = (case colon of None \<Rightarrow> authority | Some k \<Rightarrow> take k authority) in
             if hst = [] then None
             else (case colon of
                 None \<Rightarrow> Some \<lparr>scheme = sch, host = hst, port = defaultPort, path = pth\<rparr>
               | Some k \<Rightarrow> (case stoul32 (drop (k + 1) authority) of
                   None \<Rightarrow> None
                 | Some p \<Rightarrow> (if 65535 < p then None
                     else Some \<lparr>scheme = sch, host = hst, port = p, path = pth\<rparr>))))))"

section \<open>WinHttpClient\<close>

text \<open>One round of the read loop: the answer of \<open>WinHttpQueryDataAvailable\<close>, then of \<open>WinHttpReadData\<close>.\<close>

datatype read_round = Query_fails nat | Read_fails nat nat | Read_bytes nat string

text \<open>
  The outcomes of the API: \<open>Some code\<close> is a failure whose \<open>GetLastError\<close> is the code. A wide
  string is the list of its UTF-16 units.
\<close>

record winhttp =
  WinHttpOpen :: "nat option"
  WinHttpSetTimeouts :: "nat option"
  WinHttpConnect :: "nat option"
  WinHttpOpenRequest :: "nat option"
  WinHttpSendRequest :: "nat option"
  WinHttpReceiveResponse :: "nat option"
  WinHttpQueryHeaders :: "nat + nat"
  read_rounds :: "read_round list"
  FormatMessage :: "nat \<Rightarrow> string"
  MultiByteToWideChar :: "string \<Rightarrow> nat list"

text \<open>What is handed to the network.\<close>

record wire_request =
  wr_host :: "nat list"
  wr_port :: nat
  wr_path :: "nat list"
  wr_secure :: bool
  wr_headers :: "nat list"
  wr_body :: string
  wr_timeout_ms :: nat

definition widen :: "winhttp \<Rightarrow> string \<Rightarrow> nat list" where
  "widen w s = (if s = [] then [] else MultiByteToWideChar w s)"

text \<open>An L-literal of ASCII characters, and the part of a wide string before its terminator.\<close>

definition wide_ascii :: "string \<Rightarrow> nat list" where
  "wide_ascii s = map of_char s"

definition wide_c_str :: "nat list \<Rightarrow> nat list" where
  "wide_c_str s = takeWhile (\<lambda>u. u \<noteq> 0) s"

definition trimmed_end :: "string \<Rightarrow> string" where
  "trimmed_end s = rev (dropWhile (\<lambda>c. c = CHR 0x0A \<or> c = CHR 0x0D \<or> c = CHR '' '') (rev s))"

definition winError :: "winhttp \<Rightarrow> nat \<Rightarrow> string" where
  "winError w code =
     (let out = trimmed_end (FormatMessage w code) in
      if out = [] then ''error '' @ int_str (int code) else out)"

fun read_body :: "winhttp \<Rightarrow> read_round list \<Rightarrow> string \<Rightarrow> HttpResponse + string" where
  "read_body w [] body = Inr body"
| "read_body w (Query_fails code # rs) body =
     Inl (transport_failed (''WinHttpQueryDataAvailable failed: '' @ winError w code))"
| "read_body w (Read_fails available code # rs) body =
     (if available = 0 then Inr body
      else Inl (transport_failed (''WinHttpReadData failed: '' @ winError w code)))"
| "read_body w (Read_bytes available bytes # rs) body =
     (if available = 0 then Inr body else read_body w rs (body @ bytes))"

definition url_error :: string where
  "url_error = ''malformed URL: must be '' @ [CHR 0x27] @ ''https://host/path'' @ [CHR 0x27] @ '' or '' @
     [CHR 0x27] @ ''http://host/path'' @ [CHR 0x27]"

definition win_headers :: "winhttp \<Rightarrow> string \<Rightarrow> nat list" where
  "win_headers w bearer_token =
     wide_ascii (''Content-Type: application/json'' @ CRLF @ ''Authorization: Bearer '') @
     widen w bearer_token @ wide_ascii CRLF"

definition win_request :: "winhttp \<Rightarrow> ParsedUrl \<Rightarrow> string \<Rightarrow> string \<Rightarrow> nat \<Rightarrow> wire_request" where
  "win_request w u bearer_token json_payload timeout_seconds =
     \<lparr>wr_host = wide_c_str (widen w (host u)), wr_port = port u mod 65536,
      wr_path = wide_c_str (widen w (path u)), wr_secure = (port u = 443),
      wr_headers = wide_c_str (win_headers w bearer_token),
      wr_body = take (length json_payload mod 4294967296) json_payload,
      wr_timeout_ms = min timeout_seconds 3600 * 1000\<rparr>"

text \<open>The calls after \<open>WinHttpSendRequest\<close> has returned.\<close>

definition win_receive :: "winhttp \<Rightarrow> HttpResponse" where
  "win_receive w =
     (case WinHttpSendRequest w of
        Some code \<Rightarrow> transport_failed (''WinHttpSendRequest failed: '' @ winError w code)
      | None \<Rightarrow> (case WinHttpReceiveResponse w of
          Some code \<Rightarrow> transport_failed (''WinHttpReceiveResponse failed: '' @ winError w code)
        | None \<Rightarrow> (case WinHttpQueryHeaders w of
            Inl code \<Rightarrow> transport_failed (''WinHttpQueryHeaders failed: '' @ winError w code)
          | Inr status \<Rightarrow> (case read_body w (read_rounds w) [] of
              Inl r \<Rightarrow> r
            | Inr body \<Rightarrow> \<lparr>hr_status = int status, hr_body = body, hr_error = []\<rparr>))))"

definition win_postJson ::
  "winhttp \<Rightarrow> string \<Rightarrow> string \<Rightarrow> string \<Rightarrow> nat \<Rightarrow> HttpResponse \<times> wire_request option" where
  "win_postJson w url bearer_token json_payload timeout_seconds =
     (case parseUrl url of
        None \<Rightarrow> (transport_failed url_error, None)
      | Some u \<Rightarrow> (case WinHttpOpen w of
          Some code \<Rightarrow> (transport_failed (''WinHttpOpen failed: '' @ winError w code), None)
        | None \<Rightarrow> (case WinHttpSetTimeouts w of
            Some code \<Rightarrow> (transport_failed (''WinHttpSetTimeouts failed: '' @ winError w code), None)
          | None \<Rightarrow> (case WinHttpConnect w of
              Some code \<Rightarrow> (transport_failed (''WinHttpConnect to '' @ host u @ '' failed: '' @ winError w code), None)
            | None \<Rightarrow> (case WinHttpOpenRequest w of
                Some code \<Rightarrow> (transport_failed (''WinHttpOpenRequest failed: '' @ winError w code), None)
              | None \<Rightarrow> (win_receive w,
                  Some (win_request w u bearer_token json_payload timeout_seconds)))))))"

section \<open>CurlHttpClient\<close>

text \<open>
  The outcome of \<open>curl_easy_perform\<close>: \<open>Some message\<close> on failure. The body callback has appended
  the chunks received, also before a failure.
\<close>

record curl =
  curl_easy_init :: bool
  slist_append_type :: bool
  slist_append_auth :: bool
  curl_easy_perform :: "string option"
  curl_chunks :: "string list"
  curl_response_code :: int

record curl_request =
  cu_url :: string
  cu_headers :: "string list"
  cu_body :: string
  cu_timeout :: nat
  cu_verify_peer :: bool
  cu_verify_host :: bool

definition writeBody :: "string \<Rightarrow> string \<Rightarrow> string" where
  "writeBody chunk sink = sink @ chunk"

definition curl_postJson ::
  "curl \<Rightarrow> string \<Rightarrow> string \<Rightarrow> string \<Rightarrow> nat \<Rightarrow> HttpResponse \<times> curl_request option" where
  "curl_postJson c url bearer_token json_payload timeout_seconds =
     (if \<not> curl_easy_init c then (transport_failed ''curl_easy_init failed'', None)
      else if \<not> slist_append_auth c then (transport_failed ''curl_slist_append failed'', None)
      else
        (let head = (if slist_append_type c then [''Content-Type: application/json''] else []) @
                    [c_str (''Authorization: Bearer '' @ bearer_token)];
             req = \<lparr>cu_url = c_str url, cu_headers = head, cu_body = json_payload,
                    cu_timeout = timeout_seconds, cu_verify_peer = True, cu_verify_host = True\<rparr>;
             body = fold writeBody (curl_chunks c) [] in
         case curl_easy_perform c of
           Some msg \<Rightarrow> (\<lparr>hr_status = 0, hr_body = body, hr_error = ''curl error: '' @ msg\<rparr>, Some req)
         | None \<Rightarrow> (\<lparr>hr_status = curl_response_code c, hr_body = body, hr_error = []\<rparr>, Some req)))"

section \<open>Both are transports\<close>

lemma transport_failed_simps [simp]:
  "hr_status (transport_failed e) = 0" "hr_error (transport_failed e) = e" "hr_body (transport_failed e) = []"
  by (simp_all add: transport_failed_def)

lemma read_body_fails: "read_body w rs b = Inl r \<Longrightarrow> hr_status r = 0"
  by (induction w rs b rule: read_body.induct) (auto split: if_splits)

lemma win_receive_error: "hr_error (win_receive w) \<noteq> [] \<Longrightarrow> hr_status (win_receive w) = 0"
  by (auto simp: win_receive_def read_body_fails split: option.splits sum.splits)

interpretation win: http_transport "\<lambda>url token payload timeout. fst (win_postJson w url token payload timeout)"
  by unfold_locales (auto simp: win_postJson_def win_receive_error split: option.splits)

interpretation curl: http_transport "\<lambda>url token payload timeout. fst (curl_postJson c url token payload timeout)"
  by unfold_locales (auto simp: curl_postJson_def Let_def split: option.splits if_splits)

section \<open>Properties\<close>

text \<open>The URL of its parts, with an explicit port.\<close>

definition url_text :: "ParsedUrl \<Rightarrow> string" where
  "url_text u = scheme u @ ''://'' @ host u @ '':'' @ dec_str (int (port u)) @ path u"

definition url_ok :: "ParsedUrl \<Rightarrow> bool" where
  "url_ok u \<longleftrightarrow> scheme u \<in> {''https'', ''http''} \<and> host u \<noteq> [] \<and> CHR ''/'' \<notin> set (host u) \<and>
     port u \<le> 65535 \<and> starts_with ''/'' (path u)"

lemma rfind_char_last: "c \<notin> set ys \<Longrightarrow> rfind_char c (xs @ c # ys) = Some (length xs)"
  by (simp add: rfind_char_def find_char_append [of c "rev ys" "rev xs", simplified])

lemma digits_no: "list_all is_digit ds \<Longrightarrow> CHR ''/'' \<notin> set ds \<and> CHR '':'' \<notin> set ds"
  by (auto simp: list_all_iff is_digit_def)

lemma stoul32_dec: "0 \<le> n \<Longrightarrow> n \<le> 4294967295 \<Longrightarrow> stoul32 (dec_str n) = Some (nat n)"
proof -
  assume n: "0 \<le> n" "n \<le> 4294967295"
  obtain c cs where c: "dec_str n = c # cs" by (cases "dec_str n") auto
  have d: "list_all is_digit (dec_str n)" using dec_str_digits n(1) .
  then have cd: "is_digit c" by (simp add: c)
  then have "\<not> is_space c" "c \<noteq> CHR ''-''" "c \<noteq> CHR ''+''" by (auto simp: is_digit_def is_space_def)
  then have s: "dropWhile is_space (dec_str n) = dec_str n" "hd (dec_str n) \<noteq> CHR ''-''" "hd (dec_str n) \<noteq> CHR ''+''"
    by (simp_all add: c)
  have tw: "takeWhile is_digit (dec_str n) = dec_str n"
    using d by (simp add: takeWhile_eq_all_conv list_all_iff)
  show ?thesis using n s(2,3) by (simp add: stoul32_def Let_def tw s(1))
qed

lemma parseUrl_read_back:
  assumes "url_ok u"
  shows "parseUrl (url_text u) = Some u"
proof -
  let ?d = "dec_str (int (port u))" and ?a = "host u @ CHR '':'' # dec_str (int (port u))"
  obtain p where p: "path u = CHR ''/'' # p" using assms by (cases "path u") (auto simp: url_ok_def starts_with_def)
  have d: "CHR ''/'' \<notin> set ?d" "CHR '':'' \<notin> set ?d" using digits_no dec_str_digits by simp_all
  have "url_scheme (url_text u) = Some (scheme u, (if scheme u = ''https'' then 443 else 80), ?a @ path u)"
    using assms by (auto simp: url_scheme_def url_text_def url_ok_def starts_with_def)
  moreover have "find_char (CHR ''/'') (?a @ path u) = Some (length ?a)"
    unfolding p using assms d by (intro find_char_append) (auto simp: url_ok_def)
  moreover have "rfind_char (CHR '':'') ?a = Some (length (host u))" using d by (intro rfind_char_last)
  moreover have "stoul32 ?d = Some (port u)" "port u \<le> 65535"
    using stoul32_dec [of "int (port u)"] assms by (simp_all add: url_ok_def)
  moreover have "host u \<noteq> []" using assms by (simp add: url_ok_def)
  ultimately show ?thesis by (cases u) (simp add: parseUrl_def Let_def)
qed

text \<open>
  Property C38. \<open>parseUrl\<close> reads back the URL of any scheme, host, port and path it supports: it
  finds the host before the last colon of the authority, the port as a number up to 65535, and
  the path from the first slash on.
\<close>

theorem parseUrl_url_text:
  "url_ok u \<Longrightarrow> parseUrl (url_text u) = Some u"
  by (rule parseUrl_read_back)

theorem parseUrl_url_text_witness:
  "parseUrl ''http://localhost:8080/v1'' = Some \<lparr>scheme = ''http'', host = ''localhost'', port = 8080, path = ''/v1''\<rparr>"
proof -
  have "dec_str 8080 = ''8080''" by code_simp
  then show ?thesis
    using parseUrl_url_text [of "\<lparr>scheme = ''http'', host = ''localhost'', port = 8080, path = ''/v1''\<rparr>"]
    by (simp add: url_ok_def url_text_def starts_with_def)
qed

text \<open>
  Property C39. TLS follows the port, not the scheme: whatever WinHTTP answers, a request to an
  https URL with a port other than 443 leaves in clear text, with the bearer token among its
  headers, and one to an http URL with port 443 is encrypted.
\<close>

theorem tls_follows_port:
  assumes "url_ok u" and "win_postJson w (url_text u) token payload timeout = (r, Some req)"
  shows "(wr_secure req \<longleftrightarrow> port u = 443) \<and> wr_headers req = wide_c_str (win_headers w token)"
  using assms parseUrl_read_back [OF assms(1)]
  by (auto simp: win_postJson_def win_request_def split: option.splits)

text \<open>The API when nothing fails, on ASCII text.\<close>

definition winhttp_ok :: winhttp where
  "winhttp_ok = \<lparr>WinHttpOpen = None, WinHttpSetTimeouts = None, WinHttpConnect = None,
     WinHttpOpenRequest = None, WinHttpSendRequest = None, WinHttpReceiveResponse = None,
     WinHttpQueryHeaders = Inr 200, read_rounds = [Read_bytes 2 ''{}''], FormatMessage = \<lambda>_. [],
     MultiByteToWideChar = wide_ascii\<rparr>"

theorem tls_follows_port_witness:
  "\<exists>req. snd (win_postJson winhttp_ok ''https://proxy.example:8443/v1'' ''secret'' ''{}'' 60) = Some req \<and>
     \<not> wr_secure req \<and> wr_headers req = wide_c_str (win_headers winhttp_ok ''secret'')"
proof -
  let ?u = "\<lparr>scheme = ''https'', host = ''proxy.example'', port = 8443, path = ''/v1''\<rparr>"
  have "dec_str 8443 = ''8443''" by code_simp
  then have t: "url_text ?u = ''https://proxy.example:8443/v1''" by (simp add: url_text_def)
  have ok: "url_ok ?u" by (simp add: url_ok_def starts_with_def)
  then have "win_postJson winhttp_ok (url_text ?u) ''secret'' ''{}'' 60 =
      (win_receive winhttp_ok, Some (win_request winhttp_ok ?u ''secret'' ''{}'' 60))"
    using parseUrl_read_back [OF ok] by (simp add: win_postJson_def winhttp_ok_def)
  from tls_follows_port [OF ok this] this show ?thesis unfolding t by auto
qed

end
