(* ===== verification/GeminiClient.thy ===== *)
theory GeminiClient
  imports HttpClient Rehydration MockExtractor
begin

text \<open>
  backend/src/GeminiClient.cpp: the live extractor. It posts the uploaded buffer with a prompt
  that embeds the schema, takes the answer's first candidate apart, and lets a document out only
  when it conforms to the schema. The transport is a parameter of type \<open>post\<close>. The nested
  initializer lists of \<open>buildRequest\<close> are the objects and arrays nlohmann::json makes of them (a
  list of pairs with string keys is an object).
\<close>

section \<open>Helpers\<close>

definition url_char :: "char \<Rightarrow> bool" where
  "url_char c \<longleftrightarrow> (let n = (of_char c :: nat) in
     97 \<le> n \<and> n \<le> 122 \<or> 65 \<le> n \<and> n \<le> 90 \<or> 48 \<le> n \<and> n \<le> 57) \<or>
     c = CHR ''-'' \<or> c = CHR ''.'' \<or> c = CHR ''_''"

definition urlComponent :: "string \<Rightarrow> string" where
  "urlComponent raw = map (\<lambda>c. if url_char c then c else CHR ''-'') raw"

definition trim :: "string \<Rightarrow> string" where
  "trim s =
     (let blank = (\<lambda>c. c = CHR '' '' \<or> c = CHR 0x09 \<or> c = CHR 0x0D \<or> c = CHR 0x0A) in
      rev (dropWhile blank (rev (dropWhile blank s))))"

definition fence :: string where
  "fence = [CHR 0x60, CHR 0x60, CHR 0x60]"

definition stripCodeFence :: "string \<Rightarrow> string" where
  "stripCodeFence s =
     (let t = trim s in
      if starts_with fence t then
        (case find_str fence (drop 3 t) of
           None \<Rightarrow> t
         | Some k \<Rightarrow> (let u = take k (drop 3 t); u = (if starts_with ''json'' u then drop 4 u else u) in trim u))
      else t)"

section \<open>Construction\<close>

record GeminiClient =
  gc_api_key :: string
  gc_model :: string
  gc_schema :: json
  gc_prompt :: string
  gc_timeout :: nat

text \<open>An em dash, as the bytes of the source file.\<close>

definition em_dash :: string where
  "em_dash = [CHR 0xE2, CHR 0x80, CHR 0x94]"

definition LF :: string where
  "LF = [CHR 0x0A]"

definition schema_prompt :: "string \<Rightarrow> string" where
  "schema_prompt schema_json =
     ''You are a strict GST invoice-extraction engine. From the uploaded '' @
     ''file, return ONE valid JSON document that conforms EXACTLY to '' @
     ''this schema:'' @ LF @ LF @ schema_json @ LF @ LF @ ''Rules:'' @ LF @
     ''  * Return raw JSON only '' @ em_dash @ '' no markdown, no commentary, no code '' @
     ''fence.'' @ LF @
     ''  * Every $required field must be present with its $type.'' @ LF @
     ''  * money fields are INR, scale 2: use plain JSON numbers, do not '' @
     ''quote them.'' @ LF @
     ''  * supplier.address_state and buyer.address_state are two-letter '' @
     ''state codes.'' @ LF @
     ''  * invoice.date and irp.reported_on are YYYY-MM-DD strings.'' @ LF @
     ''  * If a value is genuinely absent from the invoice, use '' @ [CHR 0x27, CHR 0x27] @ '' or 0 '' @
     ''or false as the schema allows; never invent data.'' @ LF"

text \<open>Only \<open>parse_error\<close> is caught: another exception of \<open>parse\<close> passes through.\<close>

definition on_parse_error :: "'a result \<Rightarrow> (string \<Rightarrow> 'a result) \<Rightarrow> 'a result" where
  "on_parse_error m h = (case m of Inl (Json_parse_error _ w) \<Rightarrow> h w | _ \<Rightarrow> m)"

definition makeGemini :: "string \<Rightarrow> string \<Rightarrow> bool \<Rightarrow> string \<Rightarrow> nat \<Rightarrow> GeminiClient result" where
  "makeGemini api_key model has_http schema_json timeout_seconds =
     bindE (requireE (api_key \<noteq> []) (Runtime_error ''GeminiClient requires a non-empty GEMINI_API_KEY'')) (\<lambda>_.
     bindE (requireE (model \<noteq> []) (Runtime_error ''GeminiClient requires a non-empty GEMINI_MODEL'')) (\<lambda>_.
     bindE (requireE has_http (Runtime_error ''GeminiClient requires a non-null IHttpClient'')) (\<lambda>_.
     bindE (requireE (schema_json \<noteq> []) (Runtime_error ''GeminiClient requires the gemini schema JSON'')) (\<lambda>_.
     bindE (on_parse_error (parse schema_json)
              (\<lambda>_. Inl (Runtime_error ''GeminiClient schema JSON failed to parse''))) (\<lambda>schema.
     Inr \<lparr>gc_api_key = api_key, gc_model = model, gc_schema = schema,
          gc_prompt = schema_prompt schema_json, gc_timeout = timeout_seconds\<rparr>)))))"

section \<open>The request\<close>

definition buildRequest :: "GeminiClient \<Rightarrow> string \<Rightarrow> string \<Rightarrow> json" where
  "buildRequest g base64_data mime_type = mk_object
     [(''system_instruction'', mk_object
        [(''parts'', JArray [mk_object [(''text'', JString (gc_prompt g))]])]),
      (''contents'', JArray
        [mk_object
          [(''role'', JString ''user''),
           (''parts'', JArray
             [mk_object [(''text'', JString (''Extract the GST invoice from the uploaded file '' @
                 ''now. Respond with a single JSON object conforming to the '' @
                 ''schema in your instructions.''))],
              mk_object [(''inline_data'', mk_object
                 [(''mime_type'', JString mime_type), (''data'', JString base64_data)])]])]]),
      (''generationConfig'', mk_object
        [(''responseMimeType'', JString ''application/json''), (''temperature'', JInt 0)])]"

definition gemini_url :: "string \<Rightarrow> string" where
  "gemini_url model = ''https://generativelanguage.googleapis.com/v1beta/models/'' @
     urlComponent model @ '':generateContent''"

section \<open>The response\<close>

definition no_candidates :: string where
  "no_candidates = ''Gemini response had no non-empty candidates[] (was extraction '' @
     ''blocked by safety filters? check the response log)''"

definition parseSuccessResponse :: "string \<Rightarrow> json result" where
  "parseSuccessResponse raw_body =
     bindE (on_parse_error (parse raw_body)
              (\<lambda>w. Inl (Runtime_error (''Gemini response was not valid JSON: '' @ c_str w)))) (\<lambda>body.
     bindE (case jfind body ''candidates'' of
              Some (JArray (c # _)) \<Rightarrow> Inr c | _ \<Rightarrow> Inl (Runtime_error no_candidates)) (\<lambda>candidate.
     bindE (jindex_mut candidate ''content'') (\<lambda>content.
     bindE (jindex_mut content ''parts'') (\<lambda>parts.
     bindE (case parts of
              JArray (p # _) \<Rightarrow> (if is_object p then Inr p
                else Inl (Runtime_error ''Gemini response candidates[0].content.parts[0] was missing''))
            | _ \<Rightarrow> Inl (Runtime_error ''Gemini response candidates[0].content.parts[0] was missing'')) (\<lambda>part.
     bindE (case jfind part ''text'' of
              Some (JString s) \<Rightarrow> Inr s | _ \<Rightarrow> Inl (Runtime_error ''Gemini response part had no text field'')) (\<lambda>s.
     on_parse_error
       (bindE (parse (stripCodeFence s)) (\<lambda>doc.
        if is_object doc then Inr doc
        else Inl (Runtime_error ''Gemini returned non-object JSON (expected an invoice document)'')))
       (\<lambda>w. Inl (Runtime_error (''Gemini extraction text was not valid JSON: '' @ c_str w)))))))))"

text \<open>The message of an API error: the error's own, or the first bytes of a body that is not JSON.\<close>

definition error_brief :: "string \<Rightarrow> string result" where
  "error_brief body =
     on_parse_error
       (bindE (parse body) (\<lambda>parsed.
        bindE (value_or Inr parsed ''error'' (JObject [])) (\<lambda>errs.
        value_str errs ''message'' [])))
       (\<lambda>_. Inr (substr body 0 256))"

definition geminiExtract :: "(dbl \<Rightarrow> string) \<Rightarrow> GeminiClient \<Rightarrow> post \<Rightarrow> extractor" where
  "geminiExtract ft g post base64_data mime_type =
     bindE (dump ft (buildRequest g base64_data mime_type)) (\<lambda>payload.
     let resp = post (gemini_url (gc_model g)) (gc_api_key g) payload (gc_timeout g) in
     if hr_status resp = 0 then
       Inl (Runtime_error (''Gemini request failed (transport): '' @ hr_error resp))
     else if hr_status resp < 200 \<or> 300 \<le> hr_status resp then
       bindE (error_brief (hr_body resp)) (\<lambda>brief.
       Inl (Runtime_error (''Gemini API error (HTTP '' @ int_str (hr_status resp) @ ''): '' @ brief)))
     else
       bindE (parseSuccessResponse (hr_body resp)) (\<lambda>doc.
       bindE (validateAgainstSchema doc (gc_schema g)) (\<lambda>errors.
       if errors \<noteq> [] then
         Inl (Runtime_error (''Gemini returned a document that did not pass the schema contract: '' @ hd errors))
       else Inr doc)))"

section \<open>What the extractor promises\<close>

text \<open>
  The contract of the extraction seam under the shipped schema: a document that comes out
  conforms to the schema and is a value \<open>parse\<close> or the program itself built.
\<close>

locale schema_extractor =
  fixes produce :: extractor
  assumes extracted: "produce base64_data mime_type = Inr doc \<Longrightarrow>
    conforms_root doc gemini_schema \<and> parsed_ok doc"
begin

text \<open>The validator then rejects in one way only, and what it accepts can be stored and read back.\<close>

lemma rejection:
  "produce b mt = Inr doc \<Longrightarrow> validateAndSanitize doc = Inl e \<Longrightarrow> \<exists>s. e = Invalid_argument s"
  using extracted conforming_rejection [of doc] by (auto simp: fails_with_def invalid_def)

lemma storable: "produce b mt = Inr doc \<Longrightarrow> wf_json doc \<and> floats_ok doc \<and> json_utf8 doc"
  using extracted by (simp add: parsed_ok_def)

lemma produces_object: "produce b mt = Inr doc \<Longrightarrow> is_object doc"
  using extracted by (simp add: conforms_root_def)

end

lemma on_parse_error_Inr: "on_parse_error m h = Inr x \<Longrightarrow> (\<And>w. h w \<noteq> Inr x) \<Longrightarrow> m = Inr x"
  by (auto simp: on_parse_error_def split: sum.splits exn.splits)

lemma parseSuccessResponse_parsed: "parseSuccessResponse s = Inr doc \<Longrightarrow> parsed_ok doc \<and> is_object doc"
proof -
  assume "parseSuccessResponse s = Inr doc"
  then obtain u where "on_parse_error
       (bindE (parse u) (\<lambda>doc. if is_object doc then Inr doc
        else Inl (Runtime_error ''Gemini returned non-object JSON (expected an invoice document)'')))
       (\<lambda>w. Inl (Runtime_error (''Gemini extraction text was not valid JSON: '' @ c_str w))) = Inr doc"
    unfolding parseSuccessResponse_def bindE_eq_Inr by blast
  then have "bindE (parse u) (\<lambda>doc. if is_object doc then Inr doc
        else Inl (Runtime_error ''Gemini returned non-object JSON (expected an invoice document)'')) = Inr doc"
    by (rule on_parse_error_Inr) simp
  then show ?thesis by (auto simp: bindE_eq_Inr dest: parse_parsed_ok split: if_splits)
qed

lemma geminiExtract_Inr:
  "geminiExtract ft g post b mt = Inr doc \<Longrightarrow>
     parsed_ok doc \<and> validateAgainstSchema doc (gc_schema g) = Inr []"
  by (auto simp: geminiExtract_def bindE_eq_Inr Let_def dest: parseSuccessResponse_parsed split: if_splits)

lemma geminiExtract_conforms:
  assumes "schema_ok (gc_schema g)" and "geminiExtract ft g post b mt = Inr doc"
  shows "conforms_root doc (gc_schema g) \<and> parsed_ok doc"
  using geminiExtract_Inr [OF assms(2)] schema_decides [OF assms(1), of doc] by auto

interpretation gemini: schema_extractor "geminiExtract ft (g\<lparr>gc_schema := gemini_schema\<rparr>) post"
  by unfold_locales (use geminiExtract_conforms [of "g\<lparr>gc_schema := gemini_schema\<rparr>"] gemini_schema_ok in simp)

section \<open>Transport failures\<close>

context http_transport
begin

text \<open>A transport failure surfaces as such, with its cause, and never as an API error.\<close>

lemma transport_failure_reported:
  assumes "dump ft (buildRequest g base64_data mime_type) = Inr payload"
    and "hr_error (post (gemini_url (gc_model g)) (gc_api_key g) payload (gc_timeout g)) = e" and "e \<noteq> []"
  shows "geminiExtract ft g post base64_data mime_type =
    Inl (Runtime_error (''Gemini request failed (transport): '' @ e))"
  using assms error_has_no_status [of "gemini_url (gc_model g)" "gc_api_key g" payload "gc_timeout g"]
  by (simp add: geminiExtract_def Let_def)

end

section \<open>The endpoint\<close>

definition gemini_host :: string where
  "gemini_host = ''generativelanguage.googleapis.com''"

lemma parse_gemini_url:
  "parseUrl (gemini_url model) = Some \<lparr>scheme = ''https'', host = gemini_host, port = 443,
     path = ''/v1beta/models/'' @ urlComponent model @ '':generateContent''\<rparr>"
proof -
  have "find_char (CHR ''/'') (gemini_host @ CHR ''/'' # s) = Some (length gemini_host)" for s
    by (rule find_char_append) (simp add: gemini_host_def)
  moreover have "gemini_url model = ''https://'' @ gemini_host @ CHR ''/'' #
      (''v1beta/models/'' @ urlComponent model @ '':generateContent'')"
    by (simp add: gemini_url_def gemini_host_def)
  moreover have "rfind_char (CHR '':'') gemini_host = None"
    by (simp add: rfind_char_def gemini_host_def)
  moreover have "gemini_host \<noteq> []" by (simp add: gemini_host_def)
  ultimately show ?thesis
    by (simp add: parseUrl_def url_scheme_def starts_with_def Let_def)
qed

lemma urlComponent_chars: "list_all url_char (urlComponent s)"
  by (auto simp: urlComponent_def list_all_iff) (simp add: url_char_def)

section \<open>Properties\<close>

text \<open>
  Property C16. The gate at the extraction seam: whatever the transport returns, a document leaves
  \<open>extractFromBuffer\<close> only if it conforms to the schema given at construction, and then its
  integers and floats are in range and its strings well-formed UTF-8, so it can be stored and
  read back; with the shipped schema the validator can reject it with \<open>invalid_argument\<close> only.
\<close>

theorem gemini_document_conforms:
  assumes "geminiExtract ft g post base64_data mime_type = Inr doc" and "schema_ok (gc_schema g)"
  shows "conforms_root doc (gc_schema g) \<and> wf_json doc \<and> floats_ok doc \<and> json_utf8 doc \<and>
    (gc_schema g = gemini_schema \<longrightarrow> (\<forall>e. validateAndSanitize doc = Inl e \<longrightarrow> (\<exists>s. e = Invalid_argument s)))"
proof -
  have "conforms_root doc (gc_schema g)" "parsed_ok doc" using geminiExtract_conforms assms by blast+
  moreover have "\<exists>s. e = Invalid_argument s" if "gc_schema g = gemini_schema" "validateAndSanitize doc = Inl e" for e
    using gemini.rejection [of ft g post base64_data mime_type doc e] assms(1) that
    by (metis GeminiClient.surjective GeminiClient.update_convs(3))
  ultimately show ?thesis by (simp add: parsed_ok_def)
qed

text \<open>
  Property C32. The API key goes to Google over TLS and nowhere else: for every model name, however
  hostile, the request the Windows transport makes is encrypted and addressed to
  generativelanguage.googleapis.com:443, and the model is one path segment of letters, digits
  and \<open>- . _\<close>, with no query or fragment.
\<close>

theorem gemini_request_confined:
  assumes "win_postJson w (gemini_url model) key payload timeout = (r, Some req)"
  shows "wr_secure req \<and> wr_port req = 443 \<and> wr_host req = wide_c_str (widen w gemini_host) \<and>
    (\<exists>s. wr_path req = wide_c_str (widen w (''/v1beta/models/'' @ s @ '':generateContent'')) \<and>
       length s = length model \<and> list_all url_char s)"
  using assms urlComponent_chars [of model]
  by (auto simp: win_postJson_def parse_gemini_url win_request_def urlComponent_def split: option.splits
      intro!: exI [of _ "urlComponent model"])

section \<open>Witnesses\<close>

definition tiny_client :: GeminiClient where
  "tiny_client = \<lparr>gc_api_key = ''k'', gc_model = ''m'',
     gc_schema = JObject [(''a'', JObject [(''$required'', JBool True), (''$type'', JString ''string'')])],
     gc_prompt = ''p'', gc_timeout = 60\<rparr>"

text \<open>A success answer whose text is a fenced document.\<close>

definition fenced_text :: string where
  "fenced_text = fence @ ''json'' @ LF @ ''{\"a\":\"x\"}'' @ LF @ fence"

definition tiny_answer :: json where
  "tiny_answer = JObject [(''candidates'', JArray [JObject [(''content'', JObject
      [(''parts'', JArray [JObject [(''text'', JString fenced_text)]])])]])]"

theorem gemini_document_conforms_witness:
  "\<exists>answer. dump dyadic_text tiny_answer = Inr answer \<and>
     geminiExtract dyadic_text tiny_client
       (\<lambda>url token payload t. \<lparr>hr_status = 200, hr_body = answer, hr_error = []\<rparr>) ''JVBERi0='' ''application/pdf''
       = Inr (JObject [(''a'', JString ''x'')]) \<and>
     conforms_root (JObject [(''a'', JString ''x'')]) (gc_schema tiny_client)"
proof -
  have "json_utf8 tiny_answer"
    by (simp add: tiny_answer_def fenced_text_def fence_def LF_def well_formed_utf8_run utf8_next_0 byte_of_def)
  then obtain answer where t: "dump dyadic_text tiny_answer = Inr answer" using dump_succeeds by blast
  have "wf_json tiny_answer" "floats_ok tiny_answer" by (simp_all add: tiny_answer_def omap_inv_def)
  from dyadic.parse_dump_norm [OF this t] have p: "parse answer = Inr tiny_answer" by (simp add: tiny_answer_def)
  let ?post = "\<lambda>url token payload t. \<lparr>hr_status = 200, hr_body = answer, hr_error = []\<rparr>"
  have s: "stripCodeFence fenced_text = ''{\"a\":\"x\"}''" by code_simp
  have d: "parse ''{\"a\":\"x\"}'' = Inr (JObject [(''a'', JString ''x'')])" by code_simp
  have a: "parseSuccessResponse answer = Inr (JObject [(''a'', JString ''x'')])"
    by (simp add: parseSuccessResponse_def p tiny_answer_def on_parse_error_def omap_get_def jindex_mut_def s d)
  have v: "validateAgainstSchema (JObject [(''a'', JString ''x'')]) (gc_schema tiny_client) = Inr []"
    by code_simp
  have "json_utf8 (buildRequest tiny_client ''JVBERi0='' ''application/pdf'')"
    by (simp add: buildRequest_def tiny_client_def mk_object_def well_formed_utf8_run utf8_next_0 byte_of_def)
  then obtain payload where "dump dyadic_text (buildRequest tiny_client ''JVBERi0='' ''application/pdf'') = Inr payload"
    using dump_succeeds by blast
  then have e: "geminiExtract dyadic_text tiny_client ?post ''JVBERi0='' ''application/pdf'' = Inr (JObject [(''a'', JString ''x'')])"
    by (simp add: geminiExtract_def Let_def a v)
  have "schema_ok (gc_schema tiny_client)" by code_simp
  from gemini_document_conforms [OF e this] e t show ?thesis by blast
qed

theorem gemini_request_confined_witness:
  "\<exists>req. snd (win_postJson winhttp_ok (gemini_url ''x/../y?key=1#@evil.example:80'') ''secret'' ''{}'' 60) = Some req \<and>
     wr_secure req \<and> wr_port req = 443 \<and> wr_host req = wide_ascii ''generativelanguage.googleapis.com''"
proof -
  define req where "req = win_request winhttp_ok \<lparr>scheme = ''https'', host = gemini_host, port = 443,
     path = ''/v1beta/models/'' @ urlComponent ''x/../y?key=1#@evil.example:80'' @ '':generateContent''\<rparr> ''secret'' ''{}'' 60"
  have "win_postJson winhttp_ok (gemini_url ''x/../y?key=1#@evil.example:80'') ''secret'' ''{}'' 60 = (win_receive winhttp_ok, Some req)"
    by (simp add: win_postJson_def parse_gemini_url winhttp_ok_def req_def)
  moreover have "wide_c_str (widen winhttp_ok gemini_host) = wide_ascii ''generativelanguage.googleapis.com''"
    by (simp add: wide_c_str_def widen_def winhttp_ok_def gemini_host_def wide_ascii_def)
  ultimately show ?thesis using gemini_request_confined [of winhttp_ok "''x/../y?key=1#@evil.example:80''"] by fastforce
qed

end
