(* ===== verification/Pipeline.thy ===== *)
theory Pipeline
  imports Ledger GeminiClient Rules_2026 GSTRGenerator "HOL-Library.Word"
begin

text \<open>
  backend/src/Pipeline.cpp: the protocol handlers. A pipeline is the rule engine, the in-memory
  sessions and the database; a handler is an operation on it, its exceptions included, and what
  an exception leaves behind stays (the in-memory ledger is extended before the database is).
  Every public method holds one mutex for its whole body, so a run of the program is a sequence
  of handler calls. The extractor may answer differently on every call and is an argument of the
  upload; the outcome of the SQLite calls is the argument \<open>q\<close>; the outputs of the random
  generator are the argument of \<open>openSession\<close>.
\<close>

unbundle bit_operations_syntax

section \<open>Session ids\<close>

fun hex_text :: "nat \<Rightarrow> nat \<Rightarrow> string" where
  "hex_text 0 n = []"
| "hex_text (Suc k) n = hex_text k (n div 16) @ [hex_lower (n mod 16)]"

text \<open>
  \<open>%0<w>x\<close> of values that have at most \<open>w\<close> digits: the masks bound every argument. \<open>gen i\<close> is the
  output of the generator that becomes argument \<open>i\<close>; \<open>buf\<close> holds 36 characters.
\<close>

definition uuid4 :: "(nat \<Rightarrow> 64 word) \<Rightarrow> string" where
  "uuid4 gen = take 36
     (hex_text 8 (unat (gen 0 AND 0xffffffff)) @ ''-'' @
      hex_text 4 (unat (gen 1 AND 0xffff)) @ ''-4'' @
      hex_text 3 (unat (gen 2 AND 0x0fff)) @ ''-'' @
      hex_text 4 (unat ((gen 3 AND 0x3fff) OR 0x8000)) @ ''-'' @
      hex_text 12 (unat (gen 4 AND 0xffffffffffff)))"

section \<open>State\<close>

datatype SessionStatus = ACTIVE | INTERROGATING | FILED | ABANDONED

fun sessionStatusToString :: "SessionStatus \<Rightarrow> string" where
  "sessionStatusToString ACTIVE = ''ACTIVE''"
| "sessionStatusToString INTERROGATING = ''INTERROGATING''"
| "sessionStatusToString FILED = ''FILED''"
| "sessionStatusToString ABANDONED = ''ABANDONED''"

record PipelineResult =
  pr_frames :: "json list"
  pr_session_status :: string

record SessionState =
  ss_status :: SessionStatus
  ss_invoices :: "StateMatrix list"

definition SessionState0 :: SessionState where
  "SessionState0 = \<lparr>ss_status = ACTIVE, ss_invoices = []\<rparr>"

record Pipeline =
  rules :: RuleEngine
  sessions :: "string \<rightharpoonup> SessionState"
  repo :: db

type_synonym 'a pipe = "(Pipeline, 'a) op"

text \<open>A call of the repository.\<close>

definition on_repo :: "'a db_op \<Rightarrow> 'a pipe" where
  "on_repo m p = (case m (repo p) of (r, d) \<Rightarrow> (r, p\<lparr>repo := d\<rparr>))"

definition put_session :: "string \<Rightarrow> SessionState \<Rightarrow> Pipeline \<Rightarrow> Pipeline" where
  "put_session sid st p = p\<lparr>sessions := (sessions p)(sid \<mapsto> st)\<rparr>"

section \<open>Construction\<close>

text \<open>\<open>file\<close> is the content of the rules file, if it can be opened.\<close>

definition loadRulesConfig :: "string \<Rightarrow> string option \<Rightarrow> json result" where
  "loadRulesConfig file_path file =
     (case file of
        None \<Rightarrow> Inl (Runtime_error (''pipeline: cannot open rules config '' @ [CHR 0x27] @ file_path @ [CHR 0x27]))
      | Some content \<Rightarrow> on_parse_error (parse content) (\<lambda>w.
          Inl (Runtime_error (''pipeline: rules config '' @ [CHR 0x27] @ file_path @ [CHR 0x27] @
            '' is not valid JSON: '' @ c_str w))))"

definition makePipeline ::
  "string \<Rightarrow> string option \<Rightarrow> string option \<Rightarrow> string option \<Rightarrow> string \<Rightarrow> db option \<Rightarrow> Pipeline result" where
  "makePipeline rules_config_path file open_fault schema_fault db_path stored =
     bindE (loadRulesConfig rules_config_path file) (\<lambda>cfg.
     bindE (loadEngine cfg) (\<lambda>eng.
     bindE (open_repository open_fault schema_fault db_path stored) (\<lambda>d.
     Inr \<lparr>rules = eng, sessions = Map.empty, repo = d\<rparr>)))"

definition chatFrame :: "string \<Rightarrow> string \<Rightarrow> string \<Rightarrow> json" where
  "chatFrame role content needed_action =
     (let f = mk_object [(''type'', JString ''CHAT_MESSAGE''), (''role'', JString role), (''content'', JString content)]
      in if needed_action \<noteq> [] then jset f ''action_required'' (JString needed_action) else f)"

section \<open>Session lifecycle\<close>

definition openSession :: "sqlite \<Rightarrow> (nat \<Rightarrow> 64 word) \<Rightarrow> string pipe" where
  "openSession q gen =
     (let sid = uuid4 gen in
      bindD (on_repo (createSession q sid)) (\<lambda>_.
      bindD (modifyD (put_session sid SessionState0)) (\<lambda>_.
      liftD (Inr sid))))"

definition closeSession :: "sqlite \<Rightarrow> string \<Rightarrow> unit pipe" where
  "closeSession q session_id p =
     (case sessions p session_id of
        None \<Rightarrow> (Inr (), p)
      | Some st \<Rightarrow>
          if ss_status st \<noteq> FILED then
            bindD (modifyD (put_session session_id (st\<lparr>ss_status := ABANDONED\<rparr>))) (\<lambda>_.
            on_repo (setSessionStatus q session_id (sessionStatusToString ABANDONED))) p
          else (Inr (), p))"

definition statusOf :: "Pipeline \<Rightarrow> string \<Rightarrow> SessionStatus" where
  "statusOf p session_id = (case sessions p session_id of None \<Rightarrow> ABANDONED | Some st \<Rightarrow> ss_status st)"

section \<open>UPLOAD_INVOICE\<close>

definition unknown_session :: PipelineResult where
  "unknown_session = \<lparr>pr_frames = [chatFrame ''assistant''
     ''Unknown session. Reconnect to /ws to start a new session.'' []], pr_session_status = []\<rparr>"

definition one_frame :: "string \<Rightarrow> PipelineResult" where
  "one_frame content = \<lparr>pr_frames = [chatFrame ''assistant'' content []], pr_session_status = []\<rparr>"

definition upload_warnings :: "json \<Rightarrow> string list" where
  "upload_warnings doc =
     (case jfind doc ''extraction_confidence'' of
        Some c \<Rightarrow> (if is_object c then (case jfind c ''warnings'' of
            Some (JArray ws) \<Rightarrow> List.map_filter (\<lambda>w. case w of JString s \<Rightarrow> Some s | _ \<Rightarrow> None) ws
          | _ \<Rightarrow> []) else [])
      | None \<Rightarrow> [])"

definition gap_frames :: "RuleResult list \<Rightarrow> json list" where
  "gap_frames results = map (\<lambda>r. chatFrame ''assistant'' (message r) (res_action_required r)) (filter violated results)"

definition upload_frames :: "RuleResult list \<Rightarrow> json list" where
  "upload_frames results =
     (let gaps = gap_frames results; open_gaps = length gaps in
      gaps @ [chatFrame ''assistant''
        (if gaps \<noteq> [] then
           int_str (int open_gaps) @ '' open compliance gap'' @ (if open_gaps = 1 then [] else ''s'') @
           '' flagged on this invoice. Each needs your input before this '' @
           ''document can be filed.''
         else
           ''Verification complete: this invoice passed every configured 2026 '' @
           ''GST rule. No input required for this document.'') []])"

definition archive_frame :: "sqlite \<Rightarrow> string \<Rightarrow> json \<Rightarrow> unit pipe" where
  "archive_frame q session_id f =
     bindD (liftD (value_str f ''type'' [])) (\<lambda>ty.
     if ty = ''CHAT_MESSAGE'' then
       bindD (liftD (value_str f ''role'' ''assistant'')) (\<lambda>role.
       bindD (liftD (value_str f ''content'' [])) (\<lambda>content.
       bindD (liftD (value_str f ''action_required'' [])) (\<lambda>action.
       on_repo (addChatMessage q session_id role content action))))
     else liftD (Inr ()))"

text \<open>The deterministic layer: validate, then evaluate.\<close>

definition assess :: "(dbl \<Rightarrow> string) \<Rightarrow> RuleEngine \<Rightarrow> json \<Rightarrow> (StateMatrix \<times> RuleResult list) result" where
  "assess ft eng doc =
     bindE (validateAndSanitize doc) (\<lambda>m. bindE (evaluate ft eng m doc) (\<lambda>rs. Inr (m, rs)))"

text \<open>What follows a verdict: the in-memory ledger, the database, the transcript, the status.\<close>

definition record_upload ::
  "(dbl \<Rightarrow> string) \<Rightarrow> sqlite \<Rightarrow> string \<Rightarrow> SessionState \<Rightarrow> string \<Rightarrow> json \<Rightarrow> StateMatrix \<Rightarrow> RuleResult list \<Rightarrow> PipelineResult pipe" where
  "record_upload ft q session_id st mime_type doc matrix results =
     (let frames = upload_frames results;
          next_status = (if gap_frames results \<noteq> [] then INTERROGATING else ACTIVE);
          st1 = st\<lparr>ss_invoices := ss_invoices st @ [matrix]\<rparr> in
      bindD (modifyD (put_session session_id st1)) (\<lambda>_.
      bindD (on_repo (saveExtraction ft q session_id [] mime_type matrix doc (upload_warnings doc))) (\<lambda>_.
      bindD (foreachD (archive_frame q session_id) frames) (\<lambda>_.
      bindD (on_repo (setSessionStatus q session_id (sessionStatusToString next_status))) (\<lambda>_.
      bindD (modifyD (put_session session_id (st1\<lparr>ss_status := next_status\<rparr>))) (\<lambda>_.
      liftD (Inr \<lparr>pr_frames = frames, pr_session_status = sessionStatusToString next_status\<rparr>)))))))"

definition processUpload ::
  "(dbl \<Rightarrow> string) \<Rightarrow> sqlite \<Rightarrow> extractor \<Rightarrow> string \<Rightarrow> string \<Rightarrow> string \<Rightarrow> PipelineResult pipe" where
  "processUpload ft q extractFromBuffer session_id base64_data mime_type p =
     (case sessions p session_id of
        None \<Rightarrow> (Inr unknown_session, p)
      | Some st \<Rightarrow> (case extractFromBuffer base64_data mime_type of
          Inl e \<Rightarrow> (Inr (one_frame (''Invoice extraction failed: '' @ c_str (what e))), p)
        | Inr doc \<Rightarrow> (case assess ft (rules p) doc of
            Inl (Invalid_argument w) \<Rightarrow> (Inr (one_frame
              (''The extraction did not pass the schema contract and was '' @
               ''rejected before any assessment: '' @ c_str w)), p)
          | Inl e \<Rightarrow> (Inl e, p)
          | Inr (matrix, results) \<Rightarrow> record_upload ft q session_id st mime_type doc matrix results p)))"

section \<open>USER_REPLY\<close>

definition ellipsis :: string where
  "ellipsis = [CHR 0xE2, CHR 0x80, CHR 0xA6]"

definition open_quote :: string where
  "open_quote = [CHR 0xE2, CHR 0x80, CHR 0x9C]"

definition close_quote :: string where
  "close_quote = [CHR 0xE2, CHR 0x80, CHR 0x9D]"

definition reply_preview :: "string \<Rightarrow> string" where
  "reply_preview t = (if length t > 240 then take 240 t @ ellipsis else t)"

definition reply_ack :: "string \<Rightarrow> string" where
  "reply_ack t =
     ''Your note was recorded. In the current extractor-seam phase your reply '' @
     ''is archived for the conversation'' @ [CHR 0x27] @ ''s rolling abstract; the live Gemini chat '' @
     ''loop (Step G) will apply such corrections to the stored invoice. Reply '' @
     ''again, or request the filing once the details are settled.'' @ LF @ LF @ open_quote @
     reply_preview t @ close_quote"

definition processUserReply :: "sqlite \<Rightarrow> string \<Rightarrow> string \<Rightarrow> PipelineResult pipe" where
  "processUserReply q session_id t p =
     (case sessions p session_id of
        None \<Rightarrow> (Inr unknown_session, p)
      | Some st \<Rightarrow>
          bindD (on_repo (addChatMessage q session_id ''user'' t [])) (\<lambda>_.
          bindD (on_repo (addChatMessage q session_id ''assistant'' (reply_ack t) [])) (\<lambda>_.
          liftD (Inr \<lparr>pr_frames = [chatFrame ''assistant'' (reply_ack t) []],
                      pr_session_status = sessionStatusToString (ss_status st)\<rparr>))) p)"

section \<open>REQUEST_FILING\<close>

text \<open>The session of a filing: in memory, or adopted from the database.\<close>

definition adopt_session :: "sqlite \<Rightarrow> string \<Rightarrow> SessionState option pipe" where
  "adopt_session q session_id p =
     (case sessions p session_id of
        Some st \<Rightarrow> (Inr (Some st), p)
      | None \<Rightarrow>
          bindD (on_repo (sessionExists q session_id)) (\<lambda>known.
          if \<not> known then liftD (Inr None)
          else bindD (modifyD (put_session session_id SessionState0)) (\<lambda>_. liftD (Inr (Some SessionState0)))) p)"

definition gather_invoices :: "sqlite \<Rightarrow> string \<Rightarrow> SessionState \<Rightarrow> StateMatrix list pipe" where
  "gather_invoices q session_id st =
     (if ss_invoices st = [] then on_repo (invoicesForSession q session_id) else liftD (Inr (ss_invoices st)))"

definition no_invoices :: PipelineResult where
  "no_invoices = one_frame
     (''No verified invoices are available in this session. Upload at least '' @
      ''one invoice before requesting a filing.'')"

definition filing_ready :: "StateMatrix list \<Rightarrow> json result" where
  "filing_ready matrices =
     bindE (gstr1B2B matrices) (\<lambda>b2b.
     bindE (gstr1HsnSummary matrices) (\<lambda>hsn_summary.
     bindE (gstr3B matrices) (\<lambda>b3.
     Inr (mk_object
       [(''type'', JString ''FILING_READY''),
        (''files'', mk_object
          [(''gstr1_b2b.csv'', JString b2b), (''gstr1_hsn_summary.csv'', JString hsn_summary),
           (''gstr3b_summary.csv'', JString b3)])]))))"

definition filing_note :: "StateMatrix list \<Rightarrow> string" where
  "filing_note matrices =
     ''GSTR filing generated from '' @ int_str (int (length matrices)) @ '' verified invoice(s).''"

definition file_invoices :: "sqlite \<Rightarrow> string \<Rightarrow> SessionState \<Rightarrow> StateMatrix list \<Rightarrow> PipelineResult pipe" where
  "file_invoices q session_id st matrices =
     (let st1 = st\<lparr>ss_invoices := matrices\<rparr> in
      bindD (modifyD (put_session session_id st1)) (\<lambda>_.
      bindD (liftD (filing_ready matrices)) (\<lambda>ready.
      bindD (on_repo (addChatMessage q session_id ''system'' (filing_note matrices) [])) (\<lambda>_.
      bindD (on_repo (setSessionStatus q session_id ''FILED'')) (\<lambda>_.
      bindD (modifyD (put_session session_id (st1\<lparr>ss_status := FILED\<rparr>))) (\<lambda>_.
      liftD (Inr \<lparr>pr_frames = [ready], pr_session_status = ''FILED''\<rparr>)))))))"

definition requestFiling :: "sqlite \<Rightarrow> string \<Rightarrow> PipelineResult pipe" where
  "requestFiling q session_id =
     bindD (adopt_session q session_id) (\<lambda>adopted. case adopted of
        None \<Rightarrow> liftD (Inr unknown_session)
      | Some st \<Rightarrow>
          bindD (gather_invoices q session_id st) (\<lambda>matrices.
          if matrices = [] then liftD (Inr no_invoices) else file_invoices q session_id st matrices))"

end
