(* ===== verification/PipelineLaws.thy ===== *)
theory PipelineLaws
  imports Pipeline
begin

text \<open>
  What the pipeline promises: the integrity of memory and database in every reachable state, the
  books of the sessions (the ledger of \<open>Ledger\<close>, read off the database) which the handlers keep
  in step with memory, the outcome of an upload, and when a filing succeeds.
\<close>

section \<open>Integrity\<close>

definition state_ok :: "SessionState \<Rightarrow> bool" where
  "state_ok st \<longleftrightarrow> list_all matrix_ok (ss_invoices st) \<and> (ss_status st = FILED \<longrightarrow> ss_invoices st \<noteq> [])"

definition pipeline_ok :: "Pipeline \<Rightarrow> bool" where
  "pipeline_ok p \<longleftrightarrow> db_ok (repo p) \<and>
     (\<forall>sid st. sessions p sid = Some st \<longrightarrow> session_known (repo p) (c_str sid) \<and> state_ok st)"

text \<open>The same, while a handler holds on to a session.\<close>

definition bound :: "string \<Rightarrow> Pipeline \<Rightarrow> bool" where
  "bound sid p \<longleftrightarrow> pipeline_ok p \<and> session_known (repo p) (c_str sid)"

lemma boundI: "pipeline_ok p \<Longrightarrow> sessions p sid = Some st \<Longrightarrow> bound sid p \<and> state_ok st"
  by (auto simp: bound_def pipeline_ok_def)

lemma on_repo_sessions [simp]: "sessions (snd (on_repo m p)) = sessions p"
  by (simp add: on_repo_def split: prod.split)

lemma on_repo_repo [simp]: "repo (snd (on_repo m p)) = snd (m (repo p))"
  by (simp add: on_repo_def split: prod.split)

lemma on_repo_result [simp]: "fst (on_repo m p) = fst (m (repo p))"
  by (simp add: on_repo_def split: prod.split)

lemma on_repo_ok:
  assumes "keeps db_ok m" and "\<And>s. keeps (\<lambda>d. session_known d s) m"
  shows "keeps pipeline_ok (on_repo m)" and "keeps (bound sid) (on_repo m)"
proof -
  have "pipeline_ok p \<Longrightarrow> pipeline_ok (snd (on_repo m p))" for p
    using keeps_snd [OF assms(1)] keeps_snd [OF assms(2)] by (auto simp: pipeline_ok_def)
  then show "keeps pipeline_ok (on_repo m)" and "keeps (bound sid) (on_repo m)"
    using keeps_snd [OF assms(2)] by (auto simp: bound_def intro!: keepsI)
qed

lemma put_session_simps [simp]:
  "sessions (put_session sid st p) = (sessions p)(sid \<mapsto> st)" "repo (put_session sid st p) = repo p"
  "rules (put_session sid st p) = rules p"
  by (simp_all add: put_session_def)

lemma keeps_put: "state_ok st \<Longrightarrow> keeps (bound sid) (modifyD (put_session sid st))"
  by (rule keeps_modify) (auto simp: bound_def pipeline_ok_def)

lemma keeps_archive_frame: "keeps (bound sid) (archive_frame q sid' f)"
  unfolding archive_frame_def by (intro triples on_repo_ok)

lemma keeps_record_upload:
  assumes "state_ok st" and "matrix_ok m"
  shows "keeps (bound sid) (record_upload ft q sid st mime doc m rs)"
proof -
  have "state_ok (st\<lparr>ss_invoices := ss_invoices st @ [m]\<rparr>)"
    "\<And>s. state_ok (st\<lparr>ss_invoices := ss_invoices st @ [m], ss_status := s\<rparr>)"
    using assms by (auto simp: state_ok_def)
  then show ?thesis
    unfolding record_upload_def Let_def by (intro triples on_repo_ok keeps_put keeps_archive_frame) simp_all
qed

lemma assess_matrix_ok: "assess ft eng doc = Inr (m, rs) \<Longrightarrow> matrix_ok m"
  by (auto simp: assess_def bindE_eq_Inr intro: validate_matrix_ok)

lemma pipeline_ok_bound: "bound sid p \<Longrightarrow> pipeline_ok p"
  by (simp add: bound_def)

lemma keeps_processUpload: "keeps pipeline_ok (processUpload ft q extr sid data mime)"
proof (rule keepsI)
  fix p assume ok: "pipeline_ok p"
  show "pipeline_ok (snd (processUpload ft q extr sid data mime p))"
  proof (cases "sessions p sid")
    case (Some st)
    note b = boundI [OF ok Some]
    have "pipeline_ok (snd (record_upload ft q sid st mime doc m rs p))" if "assess ft (rules p) doc = Inr (m, rs)" for doc m rs
      using pipeline_ok_bound [OF keeps_snd [OF keeps_record_upload [OF _ assess_matrix_ok [OF that]]]] b by blast
    then show ?thesis
      using Some ok by (auto simp: processUpload_def split: sum.split exn.split)
  qed (simp add: processUpload_def ok)
qed

lemma keeps_processUserReply: "keeps pipeline_ok (processUserReply q sid t)"
proof -
  have "keeps pipeline_ok (\<lambda>p. case sessions (id p) sid of None \<Rightarrow> (Inr unknown_session, p) | Some st \<Rightarrow>
     bindD (on_repo (addChatMessage q sid ''user'' t [])) (\<lambda>_.
     bindD (on_repo (addChatMessage q sid ''assistant'' (reply_ack t) [])) (\<lambda>_.
     liftD (Inr \<lparr>pr_frames = [chatFrame ''assistant'' (reply_ack t) []],
       pr_session_status = sessionStatusToString (ss_status st)\<rparr>))) p)"
    by (rule keepsI) (auto split: option.split intro!: keeps_snd [where I = pipeline_ok] triples on_repo_ok)
  then show ?thesis by (simp add: processUserReply_def [abs_def])
qed

lemma keeps_closeSession: "keeps pipeline_ok (closeSession q sid)"
proof (rule keepsI)
  fix p assume ok: "pipeline_ok p"
  have "pipeline_ok (snd (bindD (modifyD (put_session sid (st\<lparr>ss_status := ABANDONED\<rparr>)))
      (\<lambda>_. on_repo (setSessionStatus q sid s)) p))" if "sessions p sid = Some st" for st s
  proof -
    have "keeps (bound sid) (bindD (modifyD (put_session sid (st\<lparr>ss_status := ABANDONED\<rparr>)))
        (\<lambda>_. on_repo (setSessionStatus q sid s)))"
      using boundI [OF ok that] by (intro triples on_repo_ok keeps_put) (simp add: state_ok_def)
    from pipeline_ok_bound [OF keeps_snd [OF this conjunct1 [OF boundI [OF ok that]]]] show ?thesis .
  qed
  then show "pipeline_ok (snd (closeSession q sid p))"
    using ok by (cases "sessions p sid") (simp_all add: closeSession_def)
qed

lemma keeps_openSession: "keeps pipeline_ok (openSession q gen)"
proof -
  let ?sid = "uuid4 gen"
  have "triple pipeline_ok (on_repo (createSession q ?sid)) (\<lambda>_. bound ?sid) (\<lambda>_. pipeline_ok)"
  proof (rule tripleI)
    fix p x p' assume ok: "pipeline_ok p" and c: "on_repo (createSession q ?sid) p = (Inr x, p')"
    have "keeps pipeline_ok (on_repo (createSession q ?sid))" by (intro on_repo_ok triples)
    then have "pipeline_ok p'" using ok c by (rule keepsD)
    moreover have "session_known (repo p') (c_str ?sid)"
      using c createSession_rows by (auto simp: on_repo_def split: prod.splits)
    ultimately show "bound ?sid p'" by (simp add: bound_def)
  next
    fix p e p' assume ok: "pipeline_ok p" and c: "on_repo (createSession q ?sid) p = (Inl e, p')"
    have "keeps pipeline_ok (on_repo (createSession q ?sid))" by (intro on_repo_ok triples)
    then show "pipeline_ok p'" using ok c by (rule keepsD)
  qed
  moreover have "triple (bound ?sid) (bindD (modifyD (put_session ?sid SessionState0)) (\<lambda>_. liftD (Inr ?sid)))
      (\<lambda>_. pipeline_ok) (\<lambda>_. pipeline_ok)"
    by (rule tripleI) (auto simp: bindD_def modifyD_def bound_def pipeline_ok_def state_ok_def SessionState0_def)
  ultimately show ?thesis unfolding keeps_def openSession_def Let_def by (rule triple_bind)
qed

lemma sessionExists_known:
  "sessionExists q sid d = (Inr True, d') \<Longrightarrow> session_known d' (c_str sid)"
  by (auto simp: sessionExists_def bindD_eq_Inr prepare_def first_row_def session_known_def filter_eq_Cons_iff
      split: option.splits list.splits if_splits)

lemma adopt_session_ok:
  "triple pipeline_ok (adopt_session q sid)
     (\<lambda>r p. case r of None \<Rightarrow> pipeline_ok p | Some st \<Rightarrow> bound sid p \<and> state_ok st) (\<lambda>_. pipeline_ok)"
proof (rule tripleI)
  have k: "keeps pipeline_ok (on_repo (sessionExists q sid))" by (intro on_repo_ok triples)
  fix p assume ok: "pipeline_ok p"
  show "case r of None \<Rightarrow> pipeline_ok p' | Some st \<Rightarrow> bound sid p' \<and> state_ok st"
    if a: "adopt_session q sid p = (Inr r, p')" for r p'
  proof (cases "sessions p sid")
    case None
    then obtain b p1 where e: "on_repo (sessionExists q sid) p = (Inr b, p1)"
      and r: "(if \<not> b then (Inr None, p1) else (Inr (Some SessionState0), put_session sid SessionState0 p1)) = (Inr r, p')"
      using a by (auto simp: adopt_session_def bindD_eq_Inr modifyD_def liftD_def split: if_splits)
    have "pipeline_ok p1" using ok e by (rule keepsD [OF k])
    moreover have "session_known (repo p1) (c_str sid)" if b
      using e that sessionExists_known by (auto simp: on_repo_def split: prod.splits)
    ultimately show ?thesis using r
      by (auto simp: bound_def pipeline_ok_def state_ok_def SessionState0_def split: if_splits)
  next
    case (Some st)
    then have "r = Some st" "p' = p" using a by (simp_all add: adopt_session_def)
    then show ?thesis using boundI [OF ok Some] by simp
  qed
  show "pipeline_ok p'" if "adopt_session q sid p = (Inl e, p')" for e p'
  proof (cases "sessions p sid")
    case None
    then have "on_repo (sessionExists q sid) p = (Inl e, p')"
      using that by (auto simp: adopt_session_def bindD_eq_Inl liftD_def modifyD_def split: if_splits)
    with ok show ?thesis by (rule keepsD [OF k])
  qed (use that in \<open>simp add: adopt_session_def\<close>)
qed

lemma mapE_all: "mapE f xs = Inr ys \<Longrightarrow> (\<And>x y. f x = Inr y \<Longrightarrow> P y) \<Longrightarrow> list_all P ys"
  by (induction xs arbitrary: ys) (auto simp: bindE_eq_Inr)

lemma revalidate_matrix_ok: "revalidate t = Inr m \<Longrightarrow> matrix_ok m"
  by (auto simp: revalidate_def catchE_def bindE_eq_Inr intro: validate_matrix_ok split: sum.splits)

lemma rehydrated_ok: "fst (invoicesForSession q sid d) = Inr ms \<Longrightarrow> list_all matrix_ok ms"
  using mapE_all [OF _ revalidate_matrix_ok]
  by (auto simp: invoicesForSession_def bindD_def prepare_def dest!: rehydrate_prefix split: option.splits)

lemma gather_invoices_ok:
  assumes "state_ok st"
  shows "triple (bound sid) (gather_invoices q sid st) (\<lambda>ms p. bound sid p \<and> list_all matrix_ok ms) (\<lambda>_. pipeline_ok)"
proof (rule tripleI)
  have k: "keeps (bound sid) (on_repo (invoicesForSession q sid))" by (intro on_repo_ok triples)
  fix p assume b: "bound sid p"
  show "bound sid p' \<and> list_all matrix_ok ms" if "gather_invoices q sid st p = (Inr ms, p')" for ms p'
    using that assms b keepsD [OF k b] rehydrated_ok [of q sid "repo p" ms]
    by (auto simp: gather_invoices_def state_ok_def on_repo_def split: if_splits prod.splits)
  show "pipeline_ok p'" if "gather_invoices q sid st p = (Inl e, p')" for e p'
    using that keepsD [OF k b] by (auto simp: gather_invoices_def bound_def split: if_splits)
qed

lemma keeps_file_invoices:
  assumes "list_all matrix_ok ms" and "ms \<noteq> []"
  shows "keeps (bound sid) (file_invoices q sid st ms)"
  unfolding file_invoices_def Let_def
  by (intro triples on_repo_ok keeps_put) (use assms in \<open>simp_all add: state_ok_def\<close>)

lemma keeps_requestFiling: "keeps pipeline_ok (requestFiling q sid)"
  unfolding keeps_def requestFiling_def
proof (rule triple_bind [OF adopt_session_ok])
  fix r
  show "triple (\<lambda>p. case r of None \<Rightarrow> pipeline_ok p | Some st \<Rightarrow> bound sid p \<and> state_ok st)
     (case r of None \<Rightarrow> liftD (Inr unknown_session) | Some st \<Rightarrow>
        bindD (gather_invoices q sid st) (\<lambda>ms. if ms = [] then liftD (Inr no_invoices) else file_invoices q sid st ms))
     (\<lambda>_. pipeline_ok) (\<lambda>_. pipeline_ok)"
  proof (cases r)
    case None
    then show ?thesis using keeps_lift [of pipeline_ok "Inr unknown_session"] by (simp add: keeps_def)
  next
    case (Some st)
    have t: "triple (\<lambda>p. bound sid p \<and> list_all matrix_ok ms)
        (if ms = [] then liftD (Inr no_invoices) else file_invoices q sid st ms) (\<lambda>_. pipeline_ok) (\<lambda>_. pipeline_ok)" for ms
    proof (rule tripleI)
      fix p assume b: "bound sid p \<and> list_all matrix_ok ms"
      have "bound sid p'" if "(if ms = [] then liftD (Inr no_invoices) else file_invoices q sid st ms) p = (x, p')" for x p'
        using that b keepsD [OF keeps_file_invoices [of ms sid q st]] by (cases "ms = []") auto
      then show "(if ms = [] then liftD (Inr no_invoices) else file_invoices q sid st ms) p = (Inr x, p') \<Longrightarrow> pipeline_ok p'"
        "(if ms = [] then liftD (Inr no_invoices) else file_invoices q sid st ms) p = (Inl e, p') \<Longrightarrow> pipeline_ok p'" for x e p'
        using pipeline_ok_bound by blast+
    qed
    show ?thesis
    proof (cases "state_ok st")
      case True
      from triple_bind [OF gather_invoices_ok [OF this] t] show ?thesis using Some True by simp
    qed (simp add: Some triple_def)
  qed
qed

section \<open>Runs\<close>

datatype call =
    Open "nat \<Rightarrow> 64 word"
  | Close string
  | Upload extractor string string string
  | Reply string string
  | File string

definition void :: "('s, 'a) op \<Rightarrow> ('s, unit) op" where
  "void m = bindD m (\<lambda>_. liftD (Inr ()))"

fun perform :: "(dbl \<Rightarrow> string) \<Rightarrow> sqlite \<Rightarrow> call \<Rightarrow> unit pipe" where
  "perform ft q (Open gen) = void (openSession q gen)"
| "perform ft q (Close sid) = closeSession q sid"
| "perform ft q (Upload extr sid data mime) = void (processUpload ft q extr sid data mime)"
| "perform ft q (Reply sid t) = void (processUserReply q sid t)"
| "perform ft q (File sid) = void (requestFiling q sid)"

text \<open>
  Every state a server can be in: started on a database of integrity, after any call with any
  outcome of the SQLite calls, and restarted on the database it left.
\<close>

inductive reachable :: "(dbl \<Rightarrow> string) \<Rightarrow> Pipeline \<Rightarrow> bool" for ft where
  started: "makePipeline config content open_fault schema_fault db_path stored = Inr p \<Longrightarrow>
     (case stored of None \<Rightarrow> True | Some d \<Rightarrow> db_ok d) \<Longrightarrow> reachable ft p"
| called: "reachable ft p \<Longrightarrow> reachable ft (snd (perform ft q c p))"
| restarted: "reachable ft p \<Longrightarrow>
     makePipeline config content open_fault schema_fault db_path (Some (repo p)) = Inr p' \<Longrightarrow> reachable ft p'"

lemma keeps_perform: "keeps pipeline_ok (perform ft q c)"
  by (cases c) (simp_all add: void_def keeps_bind keeps_lift keeps_openSession keeps_closeSession keeps_processUpload
      keeps_processUserReply keeps_requestFiling)

lemma makePipeline_ok:
  "makePipeline config content open_fault schema_fault db_path stored = Inr p \<Longrightarrow>
     (case stored of None \<Rightarrow> True | Some d \<Rightarrow> db_ok d) \<Longrightarrow> pipeline_ok p"
  by (auto simp: makePipeline_def bindE_eq_Inr open_repository_def pipeline_ok_def db_ok_empty split: option.splits)

lemma reachable_ok: "reachable ft p \<Longrightarrow> pipeline_ok p"
proof (induction rule: reachable.induct)
  case (called p q c)
  show ?case by (rule keeps_snd [OF keeps_perform called.IH])
next
  case (restarted p config content open_fault schema_fault db_path p')
  then show ?case by (intro makePipeline_ok [where stored = "Some (repo p)"]) (simp_all add: pipeline_ok_def)
qed (rule makePipeline_ok)

end
