(* ===== verification/PipelineBooks.thy ===== *)
theory PipelineBooks
  imports PipelineLaws
begin

text \<open>
  The books of the sessions: the ledger the database holds for each of them. While no call
  fails, memory and database stay in step, an accepted upload posts exactly one matrix to the
  books of its session and nothing else changes them, and a filing is a function of the books,
  so a restart does not change what is filed.
\<close>

section \<open>The handlers on a database that does not fail\<close>

lemma unchanged:
  assumes "\<And>ivs ls i j. keeps (\<lambda>d. invoices d = ivs \<and> line_rows d = ls \<and> invoice_seq d = i \<and> line_seq d = j) m"
  shows "invoices (snd (m d)) = invoices d" "line_seq (snd (m d)) = line_seq d" "invoice_seq (snd (m d)) = invoice_seq d"
  using keeps_snd [OF assms, of d "invoices d" "line_rows d" "invoice_seq d" "line_seq d"] by simp_all

lemma reading:
  assumes "\<And>e. keeps (\<lambda>d. d\<lparr>calls := 0\<rparr> = e) m"
  shows "invoices (snd (m d)) = invoices d" "message_seq (snd (m d)) = message_seq d" "tax_sessions (snd (m d)) = tax_sessions d"
proof -
  have "(snd (m d))\<lparr>calls := 0\<rparr> = d\<lparr>calls := 0\<rparr>" using keeps_snd [OF assms, of d "d\<lparr>calls := 0\<rparr>"] by simp
  then show "invoices (snd (m d)) = invoices d" "message_seq (snd (m d)) = message_seq d" "tax_sessions (snd (m d)) = tax_sessions d"
    by (metis db.select_convs db.surjective db.update_convs(8))+
qed

lemmas repo_unchanged =
  unchanged [OF unwritten.keeps_createSession] unchanged [OF unwritten.keeps_setSessionStatus]
  unchanged [OF unwritten.keeps_addChatMessage]

lemmas repo_reading =
  reading [OF reads.keeps_sessionExists] reading [OF reads.keeps_invoicesForSession]

lemma ledger_invoices: "invoices d' = invoices d \<Longrightarrow> ledger d' = ledger d"
  by (simp add: ledger_def session_documents_def fun_eq_iff)

lemma session_known_filter: "session_known d s \<longleftrightarrow> filter (\<lambda>r. sr_session_id r = s) (tax_sessions d) \<noteq> []"
  by (auto simp: session_known_def filter_empty_conv)

lemma sessionExists_healthy: "healthy q \<Longrightarrow> fst (sessionExists q sid d) = Inr (session_known d (c_str sid))"
  by (auto simp: sessionExists_def bindD_def healthy_simps first_row_def healthy_def session_known_filter liftD_def
      split: list.split)

lemma sessionStatus_healthy:
  "healthy q \<Longrightarrow> fst (sessionStatus q sid d) =
     Inr (case filter (\<lambda>r. sr_session_id r = c_str sid) (tax_sessions d) of [] \<Rightarrow> [] | r # _ \<Rightarrow> sr_status r)"
  by (auto simp: sessionStatus_def bindD_def healthy_simps first_row_def healthy_def liftD_def split: list.split)

lemma addChatMessage_healthy:
  assumes "healthy q" and "role \<in> set roles"
  shows "\<exists>d'. addChatMessage q sid role content action d =
     (if message_seq d < i64_max then Inr () else Inl (Runtime_error (''addChatMessage: '' @ seq_full)), d') \<and>
     (message_seq d < i64_max \<longrightarrow> message_seq d' = message_seq d + 1)"
proof -
  obtain d1 where 1: "createSession q sid d = (Inr (), d1)" "session_known d1 (c_str sid)" "message_seq d1 = message_seq d"
    using createSession_healthy [OF assms(1)] by metis
  have "c_str role = role" using assms(2) by (auto simp: roles_def c_str_def)
  then show ?thesis using assms 1
    by (auto simp: addChatMessage_def bindD_def [where m = "createSession q sid"] bindD_def [where m = "prepare q x" for x]
        bindD_def [where m = "step q x y" for x y] healthy_simps insert_message_def Let_def liftD_def)
qed

lemma setSessionStatus_healthy:
  assumes "healthy q" and "status \<in> set statuses"
  shows "\<exists>d'. setSessionStatus q sid status d = (Inr (), d') \<and> message_seq d' = message_seq d \<and>
     (\<forall>q'. healthy q' \<longrightarrow> session_known d (c_str sid) \<longrightarrow> fst (sessionStatus q' sid d') = Inr status)"
proof -
  have c: "c_str status = status" using assms(2) by (auto simp: statuses_def c_str_def)
  have f: "filter (\<lambda>r. sr_session_id r = s) (map (\<lambda>r. if sr_session_id r = s
             then r\<lparr>sr_status := status, sr_updated_at := now\<rparr> else r) rs) =
       map (\<lambda>r. r\<lparr>sr_status := status, sr_updated_at := now\<rparr>) (filter (\<lambda>r. sr_session_id r = s) rs)" for s now rs
    by (induction rs) auto
  show ?thesis using assms c
    by (auto simp: setSessionStatus_def bindD_def healthy_simps update_status_def liftD_def sessionStatus_healthy f
        session_known_filter split: list.split)
qed

section \<open>Memory and database in step\<close>

text \<open>The books: the ledger of every session, as the database holds it.\<close>

definition books :: "Pipeline \<Rightarrow> string \<Rightarrow> StateMatrix list result" where
  "books p = ledger (repo p)"

definition in_step :: "Pipeline \<Rightarrow> bool" where
  "in_step p \<longleftrightarrow> pipeline_ok p \<and>
     (\<forall>sid st. sessions p sid = Some st \<longrightarrow> no_nul sid \<and> books p sid = Inr (ss_invoices st))"

text \<open>The abstract effect of a call: an accepted upload posts one matrix, nothing else posts any.\<close>

fun posting :: "(dbl \<Rightarrow> string) \<Rightarrow> call \<Rightarrow> Pipeline \<Rightarrow> (string \<times> StateMatrix) option" where
  "posting ft (Upload extr sid data mime) p =
     (case (sessions p sid, bindE (extr data mime) (assess ft (rules p))) of
        (Some st, Inr (m, rs)) \<Rightarrow> Some (sid, m) | _ \<Rightarrow> None)"
| "posting ft c p = None"

definition post_books ::
  "(string \<times> StateMatrix) option \<Rightarrow> (string \<Rightarrow> StateMatrix list result) \<Rightarrow> string \<Rightarrow> StateMatrix list result" where
  "post_books v B s =
     (case v of
        None \<Rightarrow> B s
      | Some (sid, m) \<Rightarrow> if c_str s = c_str sid then bindE (B s) (\<lambda>ms. Inr (ms @ [m])) else B s)"

text \<open>What a call may be: a fresh id, an extractor that keeps its contract, an id without NUL.\<close>

fun call_ok :: "Pipeline \<Rightarrow> call \<Rightarrow> bool" where
  "call_ok p (Open gen) \<longleftrightarrow> \<not> session_known (repo p) (uuid4 gen)"
| "call_ok p (Upload extr sid data mime) \<longleftrightarrow> schema_extractor extr"
| "call_ok p (File sid) \<longleftrightarrow> no_nul sid"
| "call_ok p c \<longleftrightarrow> True"

lemma in_step_books: "in_step p \<Longrightarrow> sessions p sid = Some st \<Longrightarrow> books p sid = Inr (ss_invoices st)"
  by (simp add: in_step_def)

lemma in_stepI:
  assumes "pipeline_ok p" and "\<And>s st. sessions p s = Some st \<Longrightarrow> no_nul s \<and> books p s = Inr (ss_invoices st)"
  shows "in_step p"
  using assms by (simp add: in_step_def)

lemma on_repo_eq: "on_repo m p = (r, p') \<longleftrightarrow> (\<exists>d. m (repo p) = (r, d) \<and> p' = p\<lparr>repo := d\<rparr>)"
  by (auto simp: on_repo_def split: prod.splits)

text \<open>Calls that keep the sessions and the invoices.\<close>

definition quiet :: "Pipeline \<Rightarrow> Pipeline \<Rightarrow> bool" where
  "quiet p p' \<longleftrightarrow> sessions p' = sessions p \<and> invoices (repo p') = invoices (repo p)"

lemma quiet_books: "quiet p p' \<Longrightarrow> books p' = books p"
  unfolding quiet_def books_def by (rule ledger_invoices) simp

lemma quiet_trans: "quiet p p1 \<Longrightarrow> quiet p1 p2 \<Longrightarrow> quiet p p2"
  by (simp add: quiet_def)

lemma quiet_on_repo:
  assumes "\<And>d. invoices (snd (m d)) = invoices d" and "on_repo m p = (r, p')"
  shows "quiet p p'"
  using assms(1) [of "repo p"] assms(2) by (auto simp: on_repo_eq quiet_def)

lemmas quiet_calls =
  quiet_on_repo [OF repo_unchanged(1)] quiet_on_repo [OF repo_unchanged(4)] quiet_on_repo [OF repo_unchanged(7)]

lemma quiet_archive_frame: "archive_frame q sid f p = (r, p') \<Longrightarrow> quiet p p'"
  by (cases r)
    (auto simp: archive_frame_def bindD_eq_Inr bindD_eq_Inl quiet_def split: if_splits dest!: quiet_calls(3))

lemma quiet_archive: "foreachD (archive_frame q sid) fs p = (r, p') \<Longrightarrow> quiet p p'"
proof (induction fs arbitrary: p)
  case (Cons f fs)
  then show ?case
    by (cases r) (auto simp: bindD_eq_Inr bindD_eq_Inl intro: quiet_archive_frame quiet_trans)
qed (simp add: quiet_def)

lemma record_upload_books:
  assumes ft: "float_printer ft" and doc: "wf_json doc" "floats_ok doc" "validateAndSanitize doc = Inr m"
    and u: "record_upload ft q sid st mime doc m rs p = (Inr res, p')"
  shows "books p' = post_books (Some (sid, m)) (books p)"
    and "\<exists>status. sessions p' = (sessions p)(sid \<mapsto> \<lparr>ss_status = status, ss_invoices = ss_invoices st @ [m]\<rparr>)"
proof -
  let ?st = "st\<lparr>ss_invoices := ss_invoices st @ [m]\<rparr>"
  obtain status i p1 p2 p3 where
    s: "on_repo (saveExtraction ft q sid [] mime m doc (upload_warnings doc)) (put_session sid ?st p) = (Inr i, p1)"
    and a: "foreachD (archive_frame q sid) (upload_frames rs) p1 = (Inr (), p2)"
    and t: "on_repo (setSessionStatus q sid (sessionStatusToString status)) p2 = (Inr (), p3)"
    and p': "p' = put_session sid (?st\<lparr>ss_status := status\<rparr>) p3"
    using u by (auto simp: record_upload_def Let_def bindD_eq_Inr modifyD_def)
  obtain d where d: "saveExtraction ft q sid [] mime m doc (upload_warnings doc) (repo p) = (Inr i, d)"
    and p1: "p1 = (put_session sid ?st p)\<lparr>repo := d\<rparr>"
    using s by (auto simp: on_repo_eq)
  have q: "quiet p1 p3" using quiet_trans [OF quiet_archive [OF a] quiet_calls(2) [OF t]] .
  have "ledger d s = post_books (Some (sid, m)) (ledger (repo p)) s" for s
    using float_printer.saveExtraction_ledger [OF ft doc d] by (auto simp: post_books_def)
  then show "books p' = post_books (Some (sid, m)) (books p)"
    using quiet_books [OF q] by (simp add: p' p1 books_def fun_eq_iff)
  have "sessions p' = (sessions p)(sid \<mapsto> \<lparr>ss_status = status, ss_invoices = ss_invoices st @ [m]\<rparr>)"
    using q by (cases st) (simp add: p' p1 quiet_def)
  then show "\<exists>status. sessions p' = (sessions p)(sid \<mapsto> \<lparr>ss_status = status, ss_invoices = ss_invoices st @ [m]\<rparr>)"
    by blast
qed

lemma uuid4_no_nul: "no_nul (uuid4 gen)"
proof -
  have h: "no_nul (hex_text k n)" for k n
    by (induction k arbitrary: n) (simp_all add: hex_lower_no_nul)
  show ?thesis
    unfolding uuid4_def no_nul_def by (rule contra_subsetD [OF set_take_subset]) (use h in \<open>simp add: no_nul_def\<close>)
qed

lemma unknown_ledger: "pipeline_ok p \<Longrightarrow> \<not> session_known (repo p) (c_str sid) \<Longrightarrow> books p sid = Inr []"
proof -
  assume "pipeline_ok p" and "\<not> session_known (repo p) (c_str sid)"
  then have "filter (\<lambda>r. ir_session_id r = c_str sid) (invoices (repo p)) = []"
    by (auto simp: pipeline_ok_def db_ok_def invoices_ok_def invoice_row_ok_def filter_empty_conv)
  then show ?thesis by (simp add: books_def ledger_def session_documents_def map_filter_simps)
qed

lemma quiet_in_step: "in_step p \<Longrightarrow> quiet p p' \<Longrightarrow> pipeline_ok p' \<Longrightarrow> in_step p' \<and> books p' = books p"
  using quiet_books [of p p'] by (simp add: in_step_def quiet_def)

lemma processUserReply_quiet: "processUserReply q sid t p = (r, p') \<Longrightarrow> quiet p p'"
proof (cases "sessions p sid")
  case None
  then show "processUserReply q sid t p = (r, p') \<Longrightarrow> quiet p p'" by (simp add: processUserReply_def quiet_def)
next
  case (Some st)
  then show "processUserReply q sid t p = (r, p') \<Longrightarrow> quiet p p'"
    by (cases r) (auto simp: processUserReply_def bindD_eq_Inr bindD_eq_Inl dest: quiet_calls(3) intro: quiet_trans)
qed

lemma closeSession_books:
  assumes "in_step p" and "closeSession q sid p = (r, p')"
  shows "books p' = books p \<and> (\<forall>s st'. sessions p' s = Some st' \<longrightarrow> no_nul s \<and> books p s = Inr (ss_invoices st'))"
proof (cases "sessions p sid")
  case (Some st)
  consider "p' = p" | "on_repo (setSessionStatus q sid ''ABANDONED'') (put_session sid (st\<lparr>ss_status := ABANDONED\<rparr>) p) = (r, p')"
    using assms(2) Some
    by (auto simp: closeSession_def bindD_eq_Inr bindD_eq_Inl modifyD_def bindD_def split: if_splits)
  then show ?thesis
  proof cases
    case 2
    then have q: "quiet (put_session sid (st\<lparr>ss_status := ABANDONED\<rparr>) p) p'" by (rule quiet_calls(2))
    have "books (put_session sid (st\<lparr>ss_status := ABANDONED\<rparr>) p) = books p" by (simp add: books_def)
    then show ?thesis using quiet_books [OF q] q assms(1) Some by (auto simp: quiet_def in_step_def)
  qed (use assms(1) in \<open>auto simp: in_step_def\<close>)
qed (use assms in \<open>auto simp: closeSession_def in_step_def\<close>)

lemma openSession_books:
  assumes "in_step p" and "\<not> session_known (repo p) (uuid4 gen)" and "openSession q gen p = (Inr sid, p')"
  shows "books p' = books p \<and> (\<forall>s st'. sessions p' s = Some st' \<longrightarrow> no_nul s \<and> books p s = Inr (ss_invoices st'))"
proof -
  obtain p1 where c: "on_repo (createSession q (uuid4 gen)) p = (Inr (), p1)"
    and p': "p' = put_session (uuid4 gen) SessionState0 p1"
    using assms(3) by (auto simp: openSession_def Let_def bindD_eq_Inr modifyD_def)
  have q: "quiet p p1" using c by (rule quiet_calls(1))
  have "books p (uuid4 gen) = Inr []"
    using unknown_ledger assms(1,2) by (simp add: in_step_def uuid4_no_nul)
  moreover have "books p' = books p1" by (simp add: p' books_def)
  ultimately show ?thesis using quiet_books [OF q] q assms(1)
    by (auto simp: p' quiet_def in_step_def uuid4_no_nul SessionState0_def)
qed

lemma processUpload_books:
  assumes ft: "float_printer ft" and s: "in_step p" and e: "schema_extractor extr"
    and u: "processUpload ft q extr sid data mime p = (Inr res, p')"
  shows "books p' = post_books (posting ft (Upload extr sid data mime) p) (books p) \<and>
    (\<forall>s st'. sessions p' s = Some st' \<longrightarrow> no_nul s \<and> books p' s = Inr (ss_invoices st'))"
proof (cases "\<exists>st doc m rs. sessions p sid = Some st \<and> extr data mime = Inr doc \<and> assess ft (rules p) doc = Inr (m, rs)")
  case True
  then obtain st doc m rs where st: "sessions p sid = Some st" and x: "extr data mime = Inr doc"
    and a: "assess ft (rules p) doc = Inr (m, rs)" by blast
  have r: "record_upload ft q sid st mime doc m rs p = (Inr res, p')"
    using u st x a by (simp add: processUpload_def)
  have doc: "wf_json doc" "floats_ok doc" "validateAndSanitize doc = Inr m"
    using schema_extractor.storable [OF e x] a by (auto simp: assess_def bindE_eq_Inr)
  have b: "books p' = post_books (Some (sid, m)) (books p)" by (rule record_upload_books(1) [OF ft doc r])
  obtain status where p': "sessions p' = (sessions p)(sid \<mapsto> \<lparr>ss_status = status, ss_invoices = ss_invoices st @ [m]\<rparr>)"
    using record_upload_books(2) [OF ft doc r] by blast
  have n: "no_nul s \<and> books p s = Inr (ss_invoices st')" if "sessions p s = Some st'" for s st'
    using s that by (simp add: in_step_def)
  have "no_nul s \<and> books p' s = Inr (ss_invoices st')" if "sessions p' s = Some st'" for s st'
    using that n [OF st] n [of s st'] unfolding b p' by (cases "s = sid") (auto simp: post_books_def)
  then show ?thesis using b st x a by simp
next
  case False
  then have "p' = p" and "posting ft (Upload extr sid data mime) p = None"
    using u by (auto simp: processUpload_def split: option.splits sum.splits exn.splits)
  then show ?thesis using s by (simp add: post_books_def in_step_def fun_eq_iff)
qed

section \<open>Filing from the books\<close>

text \<open>
  What a filing answers, as a function of the books, of whether the session is known and of the
  number of messages: memory does not matter.
\<close>

definition filing_outcome :: "bool \<Rightarrow> StateMatrix list result \<Rightarrow> bool \<Rightarrow> PipelineResult result" where
  "filing_outcome known book message_room =
     (if \<not> known then Inr unknown_session
      else bindE book (\<lambda>ms.
        if ms = [] then Inr no_invoices
        else bindE (filing_ready ms) (\<lambda>ready.
          if message_room then Inr \<lparr>pr_frames = [ready], pr_session_status = ''FILED''\<rparr>
          else Inl (Runtime_error (''addChatMessage: '' @ seq_full)))))"

lemma file_invoices_outcome:
  assumes "healthy q"
  shows "fst (file_invoices q sid st ms p) =
    bindE (filing_ready ms) (\<lambda>ready. if message_seq (repo p) < i64_max
      then Inr \<lparr>pr_frames = [ready], pr_session_status = ''FILED''\<rparr>
      else Inl (Runtime_error (''addChatMessage: '' @ seq_full)))"
proof -
  obtain d where d: "addChatMessage q sid ''system'' (filing_note ms) [] (repo p) =
      (if message_seq (repo p) < i64_max then Inr () else Inl (Runtime_error (''addChatMessage: '' @ seq_full)), d)"
    using addChatMessage_healthy [OF assms, of "''system''" sid "filing_note ms" "[]" "repo p"] by (auto simp: roles_def)
  obtain d' where d': "setSessionStatus q sid ''FILED'' d = (Inr (), d')"
    using setSessionStatus_healthy [OF assms, of "''FILED''" sid d] by (auto simp: statuses_def)
  show ?thesis using d d'
    by (cases "filing_ready ms") (simp_all add: file_invoices_def Let_def bindD_def modifyD_def liftD_def on_repo_def)
qed

lemma file_invoices_quiet:
  "file_invoices q sid st ms p = (Inr res, p') \<Longrightarrow> books p' = books p \<and>
     (\<exists>status. sessions p' = (sessions p)(sid \<mapsto> \<lparr>ss_status = status, ss_invoices = ms\<rparr>))"
proof -
  assume "file_invoices q sid st ms p = (Inr res, p')"
  then obtain p1 p2 where 1: "on_repo (addChatMessage q sid ''system'' (filing_note ms) [])
        (put_session sid (st\<lparr>ss_invoices := ms\<rparr>) p) = (Inr (), p1)"
    and 2: "on_repo (setSessionStatus q sid ''FILED'') p1 = (Inr (), p2)"
    and p': "p' = put_session sid (st\<lparr>ss_invoices := ms, ss_status := FILED\<rparr>) p2"
    by (auto simp: file_invoices_def Let_def bindD_eq_Inr modifyD_def)
  have q: "quiet (put_session sid (st\<lparr>ss_invoices := ms\<rparr>) p) p2"
    by (rule quiet_trans [OF quiet_calls(3) [OF 1] quiet_calls(2) [OF 2]])
  have "books p' = books p2" by (simp add: p' books_def)
  moreover have "books p2 = books p" using quiet_books [OF q] by (simp add: books_def)
  moreover have "sessions p' = (sessions p)(sid \<mapsto> \<lparr>ss_status = FILED, ss_invoices = ms\<rparr>)"
    using q by (cases st) (simp add: p' quiet_def)
  ultimately show ?thesis by auto
qed


lemma sessionExists_quiet: "on_repo (sessionExists q sid) p = (r, p') \<Longrightarrow> quiet p p' \<and> message_seq (repo p') = message_seq (repo p)"
  using repo_reading(1,2) [of q sid "repo p"] by (auto simp: on_repo_eq quiet_def)

lemma invoicesForSession_quiet:
  "on_repo (invoicesForSession q sid) p = (r, p') \<Longrightarrow> quiet p p' \<and> message_seq (repo p') = message_seq (repo p)"
  using repo_reading(4,5) [of q sid "repo p"] by (auto simp: on_repo_eq quiet_def)

text \<open>Where the invoices of a filing come from: memory or the database, the books either way.\<close>

lemma adopt_session_books:
  assumes "healthy q" and "in_step p" and "no_nul sid"
  shows "\<exists>p1. books p1 = books p \<and> message_seq (repo p1) = message_seq (repo p) \<and>
    (if session_known (repo p) sid
     then \<exists>st. adopt_session q sid p = (Inr (Some st), p1) \<and> sessions p1 = (sessions p)(sid \<mapsto> st) \<and>
       (ss_invoices st = [] \<or> books p sid = Inr (ss_invoices st))
     else adopt_session q sid p = (Inr None, p1) \<and> sessions p1 = sessions p)"
proof (cases "sessions p sid")
  case (Some st)
  then have "session_known (repo p) sid" "books p sid = Inr (ss_invoices st)"
    using assms(2,3) boundI [of p sid st] by (auto simp: in_step_def bound_def)
  then show ?thesis using Some by (intro exI [of _ p]) (auto simp: adopt_session_def fun_upd_idem)
next
  case None
  obtain p1 where e: "on_repo (sessionExists q sid) p = (Inr (session_known (repo p) sid), p1)"
    using sessionExists_healthy [OF assms(1), of sid "repo p"] assms(3)
    by (metis c_str_no_nul on_repo_result prod.collapse)
  note q = sessionExists_quiet [OF e]
  show ?thesis
  proof (cases "session_known (repo p) sid")
    case True
    then have "adopt_session q sid p = (Inr (Some SessionState0), put_session sid SessionState0 p1)"
      using None e by (simp add: adopt_session_def bindD_def modifyD_def liftD_def)
    moreover have "books (put_session sid SessionState0 p1) = books p"
      using quiet_books [of p p1] q by (simp add: books_def)
    ultimately show ?thesis using q True
      by (intro exI [of _ "put_session sid SessionState0 p1"]) (simp add: SessionState0_def quiet_def)
  next
    case False
    then have "adopt_session q sid p = (Inr None, p1)"
      using None e by (simp add: adopt_session_def bindD_def liftD_def)
    then show ?thesis using q False quiet_books [of p p1] by (intro exI [of _ p1]) (simp add: quiet_def)
  qed
qed

lemma gather_invoices_books:
  assumes "healthy q" and "ss_invoices st = [] \<or> books p sid = Inr (ss_invoices st)"
  shows "\<exists>p1. gather_invoices q sid st p = (books p sid, p1) \<and> quiet p p1 \<and> message_seq (repo p1) = message_seq (repo p)"
proof (cases "ss_invoices st = []")
  case True
  obtain p1 where g: "on_repo (invoicesForSession q sid) p = (books p sid, p1)"
    using invoicesForSession_healthy [OF assms(1), of sid "repo p"]
    by (metis books_def on_repo_result prod.collapse)
  then show ?thesis using True invoicesForSession_quiet [OF g] by (simp add: gather_invoices_def)
next
  case False
  then show ?thesis using assms(2) by (simp add: gather_invoices_def quiet_def)
qed

lemma requestFiling_outcome:
  assumes "healthy q" and "in_step p" and "no_nul sid"
  shows "fst (requestFiling q sid p) =
    filing_outcome (session_known (repo p) sid) (books p sid) (message_seq (repo p) < i64_max)"
proof -
  obtain p1 where b: "books p1 = books p" "message_seq (repo p1) = message_seq (repo p)"
    and a: "if session_known (repo p) sid
     then \<exists>st. adopt_session q sid p = (Inr (Some st), p1) \<and> sessions p1 = (sessions p)(sid \<mapsto> st) \<and>
       (ss_invoices st = [] \<or> books p sid = Inr (ss_invoices st))
     else adopt_session q sid p = (Inr None, p1) \<and> sessions p1 = sessions p"
    using adopt_session_books [OF assms] by blast
  show ?thesis
  proof (cases "session_known (repo p) sid")
    case True
    then obtain st where st: "adopt_session q sid p = (Inr (Some st), p1)"
      and i: "ss_invoices st = [] \<or> books p sid = Inr (ss_invoices st)" using a by auto
    obtain p2 where g: "gather_invoices q sid st p1 = (books p sid, p2)" and q: "message_seq (repo p2) = message_seq (repo p)"
      using gather_invoices_books [OF assms(1), of st p1 sid] i b by auto
    have "fst (requestFiling q sid p) = fst (bindD (gather_invoices q sid st)
        (\<lambda>ms. if ms = [] then liftD (Inr no_invoices) else file_invoices q sid st ms) p1)"
      using st by (simp add: requestFiling_def bindD_def [where m = "adopt_session q sid"])
    also have "\<dots> = bindE (books p sid) (\<lambda>ms. if ms = [] then Inr no_invoices
        else fst (file_invoices q sid st ms p2))"
      using g by (cases "books p sid") (auto simp: bindD_def liftD_def)
    finally show ?thesis
      using True by (simp add: file_invoices_outcome [OF assms(1)] q filing_outcome_def cong: if_cong)
  next
    case False
    then show ?thesis using a by (simp add: requestFiling_def bindD_def liftD_def filing_outcome_def)
  qed
qed

lemma requestFiling_books:
  assumes "healthy q" and "in_step p" and "no_nul sid" and f: "requestFiling q sid p = (Inr res, p')"
  shows "books p' = books p \<and> (\<forall>s st'. sessions p' s = Some st' \<longrightarrow> no_nul s \<and> books p s = Inr (ss_invoices st'))"
proof -
  obtain p1 where b: "books p1 = books p" "message_seq (repo p1) = message_seq (repo p)"
    and a: "if session_known (repo p) sid
     then \<exists>st. adopt_session q sid p = (Inr (Some st), p1) \<and> sessions p1 = (sessions p)(sid \<mapsto> st) \<and>
       (ss_invoices st = [] \<or> books p sid = Inr (ss_invoices st))
     else adopt_session q sid p = (Inr None, p1) \<and> sessions p1 = sessions p"
    using adopt_session_books [OF assms(1,2,3)] by blast
  have s: "no_nul s \<and> books p s = Inr (ss_invoices st')" if "sessions p s = Some st'" for s st'
    using assms(2) that by (simp add: in_step_def)
  show ?thesis
  proof (cases "session_known (repo p) sid")
    case True
    then obtain st where st: "adopt_session q sid p = (Inr (Some st), p1)" "sessions p1 = (sessions p)(sid \<mapsto> st)"
      and i: "ss_invoices st = [] \<or> books p sid = Inr (ss_invoices st)" using a by auto
    obtain p2 where g: "gather_invoices q sid st p1 = (books p sid, p2)" and q: "quiet p1 p2"
      using gather_invoices_books [OF assms(1), of st p1 sid] i b by auto
    have "bindD (gather_invoices q sid st)
        (\<lambda>ms. if ms = [] then liftD (Inr no_invoices) else file_invoices q sid st ms) p1 = (Inr res, p')"
      using f st by (simp add: requestFiling_def bindD_def [where m = "adopt_session q sid"])
    then obtain ms where ms: "books p sid = Inr ms"
      and m: "(if ms = [] then liftD (Inr no_invoices) else file_invoices q sid st ms) p2 = (Inr res, p')"
      using g by (auto simp: bindD_eq_Inr)
    consider "ms = []" "p' = p2" | "file_invoices q sid st ms p2 = (Inr res, p')" using m by (cases "ms = []") auto
    then obtain st' where "books p' = books p2" "sessions p' = (sessions p2)(sid \<mapsto> st')" "ss_invoices st' = ms"
    proof cases
      case 1
      have "ss_invoices st = []" using i ms 1 by auto
      moreover have "sessions p2 = (sessions p2)(sid \<mapsto> st)" using q st(2) by (simp add: quiet_def)
      ultimately show ?thesis using that [of st] 1 by simp
    next
      case 2
      then show ?thesis using file_invoices_quiet that by fastforce
    qed
    then show ?thesis
      using quiet_books [OF q] q b st(2) ms s assms(3) by (auto simp: quiet_def split: if_splits)
  next
    case False
    then have "p' = p1" "sessions p1 = sessions p" using a f by (auto simp: requestFiling_def bindD_def liftD_def)
    then show ?thesis using b s by simp
  qed
qed

section \<open>Runs without failures\<close>

lemma void_eq_Inr: "void m p = (Inr (), p') \<longleftrightarrow> (\<exists>x. m p = (Inr x, p'))"
  by (auto simp: void_def bindD_eq_Inr)

lemma perform_in_step:
  assumes "float_printer ft" and "healthy q" and s: "in_step p" and "call_ok p c"
    and c: "perform ft q c p = (Inr (), p')"
  shows "in_step p' \<and> books p' = post_books (posting ft c p) (books p)"
proof -
  have ok: "pipeline_ok p'" using s c keepsD [OF keeps_perform, of p ft q c] by (simp add: in_step_def)
  have none: "post_books None B = B" for B by (simp add: post_books_def fun_eq_iff)
  have "books p' = post_books (posting ft c p) (books p) \<and>
    (\<forall>s st. sessions p' s = Some st \<longrightarrow> no_nul s \<and> books p' s = Inr (ss_invoices st))"
  proof (cases c)
    case (Open gen)
    then obtain sid where "openSession q gen p = (Inr sid, p')" using c by (auto simp: void_eq_Inr)
    then show ?thesis using openSession_books [OF s] Open assms(4) by (simp add: none)
  next
    case (Close sid)
    then show ?thesis using closeSession_books [OF s] c by (simp add: none)
  next
    case (Upload extr sid data mime)
    then obtain res where "processUpload ft q extr sid data mime p = (Inr res, p')" using c by (auto simp: void_eq_Inr)
    moreover have "schema_extractor extr" using Upload assms(4) by simp
    ultimately show ?thesis unfolding Upload by (intro processUpload_books [OF assms(1) s])
  next
    case (Reply sid t)
    then obtain res where "processUserReply q sid t p = (Inr res, p')" using c by (auto simp: void_eq_Inr)
    then have "in_step p' \<and> books p' = books p" by (intro quiet_in_step [OF s _ ok] processUserReply_quiet)
    then show ?thesis using Reply by (auto simp: none in_step_def)
  next
    case (File sid)
    then obtain res where "requestFiling q sid p = (Inr res, p')" using c by (auto simp: void_eq_Inr)
    then show ?thesis using requestFiling_books [OF assms(2) s] File assms(4) by (simp add: none)
  qed
  then show ?thesis using ok by (auto simp: in_step_def)
qed

text \<open>
  The states of a server whose database never fails and none of whose calls throws, restarts
  included.
\<close>

inductive served :: "(dbl \<Rightarrow> string) \<Rightarrow> Pipeline \<Rightarrow> bool" for ft where
  begun: "makePipeline config content open_fault schema_fault db_path stored = Inr p \<Longrightarrow>
     (case stored of None \<Rightarrow> True | Some d \<Rightarrow> db_ok d) \<Longrightarrow> served ft p"
| answered: "served ft p \<Longrightarrow> healthy q \<Longrightarrow> call_ok p c \<Longrightarrow> perform ft q c p = (Inr (), p') \<Longrightarrow> served ft p'"
| resumed: "served ft p \<Longrightarrow>
     makePipeline config content open_fault schema_fault db_path (Some (repo p)) = Inr p' \<Longrightarrow> served ft p'"

lemma makePipeline_fields:
  "makePipeline config content open_fault schema_fault db_path stored = Inr p \<Longrightarrow>
     sessions p = Map.empty \<and> repo p = (case stored of None \<Rightarrow> empty_db | Some d \<Rightarrow> d)"
  by (auto simp: makePipeline_def bindE_eq_Inr open_repository_def split: option.splits)

lemma makePipeline_in_step:
  "makePipeline config content open_fault schema_fault db_path stored = Inr p \<Longrightarrow>
     (case stored of None \<Rightarrow> True | Some d \<Rightarrow> db_ok d) \<Longrightarrow> in_step p"
  using makePipeline_ok makePipeline_fields by (fastforce simp: in_step_def)

lemma served_in_step: "served ft p \<Longrightarrow> float_printer ft \<Longrightarrow> in_step p"
proof (induction rule: served.induct)
  case (answered p q c p')
  then show ?case using perform_in_step by blast
next
  case (resumed p config content open_fault schema_fault db_path p')
  then have "db_ok (repo p)" by (simp add: in_step_def pipeline_ok_def)
  then show ?case using resumed.hyps(2) by (intro makePipeline_in_step [where stored = "Some (repo p)"]) simp_all
qed (rule makePipeline_in_step)

section \<open>When a filing succeeds\<close>

lemma filing_ready_total:
  assumes "lines_fit ms" and "\<forall>p \<in> set (ms_lines ms). line_taxable p"
  shows "\<exists>b2b hsn b3. gstr1B2B ms = Inr b2b \<and> gstr1HsnSummary ms = Inr hsn \<and> gstr3B ms = Inr b3"
proof -
  have "\<forall>p \<in> set (ms_lines (b2b_invoices ms)). line_taxable p"
    using assms(2) by (auto simp: ms_lines_invoices b2b_invoices_def)
  then show ?thesis
    using assms mapE_b2b_invoice [OF assms(1)]
    by (simp add: gstr1HsnSummary_def gstr3B_def gstr1B2B_def lines_fit_def hsn_aggregate_eq b3_buckets_eq)
qed

lemma file_invoices_status:
  assumes "healthy q" and "file_invoices q sid st ms p = (Inr res, p')" and "session_known (repo p) (c_str sid)"
  shows "statusOf p' sid = FILED \<and> (\<forall>q'. healthy q' \<longrightarrow> fst (sessionStatus q' sid (repo p')) = Inr ''FILED'')"
proof -
  obtain p1 p2 where 1: "on_repo (addChatMessage q sid ''system'' (filing_note ms) [])
        (put_session sid (st\<lparr>ss_invoices := ms\<rparr>) p) = (Inr (), p1)"
    and 2: "on_repo (setSessionStatus q sid ''FILED'') p1 = (Inr (), p2)"
    and p': "p' = put_session sid (st\<lparr>ss_invoices := ms, ss_status := FILED\<rparr>) p2"
    using assms(2) by (auto simp: file_invoices_def Let_def bindD_eq_Inr modifyD_def)
  have "session_known (repo p1) (c_str sid)"
    using keepsD [OF known.keeps_addChatMessage] assms(3) 1 by (fastforce simp: on_repo_eq)
  moreover obtain d where "setSessionStatus q sid ''FILED'' (repo p1) = (Inr (), d)"
    "\<forall>q'. healthy q' \<longrightarrow> session_known (repo p1) (c_str sid) \<longrightarrow> fst (sessionStatus q' sid d) = Inr ''FILED''"
    using setSessionStatus_healthy [OF assms(1), of "''FILED''" sid "repo p1"] by (auto simp: statuses_def)
  ultimately show ?thesis using 2 by (auto simp: p' on_repo_eq statusOf_def)
qed

lemma requestFiling_FILED:
  assumes q: "healthy q" and s: "in_step p" and n: "no_nul sid" and k: "session_known (repo p) sid"
    and b: "books p sid = Inr ms" "ms \<noteq> []" and l: "length (ms_lines ms) \<le> max_lines" "\<forall>p \<in> set (ms_lines ms). line_taxable p"
    and r: "message_seq (repo p) < i64_max"
  shows "\<exists>ready p'. filing_ready ms = Inr ready \<and>
    requestFiling q sid p = (Inr \<lparr>pr_frames = [ready], pr_session_status = ''FILED''\<rparr>, p') \<and> statusOf p' sid = FILED \<and>
    (\<forall>q'. healthy q' \<longrightarrow> fst (sessionStatus q' sid (repo p')) = Inr ''FILED'')"
proof -
  have "list_all matrix_ok ms"
    using b(1) rehydrated_ok [of q sid "repo p" ms] invoicesForSession_healthy [OF q] by (simp add: books_def)
  then have "lines_fit ms" using l(1) by (simp add: lines_fit_def)
  then obtain ready where f: "filing_ready ms = Inr ready" using filing_ready_total l(2) by (fastforce simp: filing_ready_def)
  have o1: "fst (requestFiling q sid p) = Inr \<lparr>pr_frames = [ready], pr_session_status = ''FILED''\<rparr>"
    using requestFiling_outcome [OF q s n] k b r f by (simp add: filing_outcome_def)
  obtain p1 st where a: "adopt_session q sid p = (Inr (Some st), p1)" "books p1 = books p"
     and i: "ss_invoices st = [] \<or> books p sid = Inr (ss_invoices st)"
    using adopt_session_books [OF q s n] k by auto
  obtain p2 where g: "gather_invoices q sid st p1 = (Inr ms, p2)"
    using gather_invoices_books [OF q, of st p1 sid] i a(2) b(1) by auto
  have f': "requestFiling q sid p = file_invoices q sid st ms p2"
    using a(1) g b(2) by (simp add: requestFiling_def bindD_def [where m = "adopt_session q sid"]
        bindD_def [where m = "gather_invoices q sid st"])
  have k1: "session_known (repo p1) (c_str sid)"
    using triple_Inr [OF adopt_session_ok, of p q sid "Some st" p1] a(1) s by (simp add: in_step_def bound_def)
  have "state_ok st" "bound sid p1"
    using triple_Inr [OF adopt_session_ok, of p q sid "Some st" p1] a(1) s by (simp_all add: in_step_def)
  then have "session_known (repo p2) (c_str sid)"
    using triple_Inr [OF gather_invoices_ok, of st sid p1 q ms p2] g by (simp add: bound_def)
  then show ?thesis using f f' o1 file_invoices_status [OF q, of sid st ms p2] by (metis prod.collapse)
qed

end
