(* ===== verification/PipelineRuns.thy ===== *)
theory PipelineRuns
  imports PipelineBooks
begin

text \<open>
  The properties of the pipeline: what an accepted upload answers and records, the integrity of
  every reachable state, the refinement of the books, filing after a restart and when a filing
  goes through; then a concrete run with the built-in document.
\<close>

section \<open>An accepted upload\<close>

lemma chatFrame_values [simp]:
  "value_str (chatFrame role content action) ''type'' d = Inr ''CHAT_MESSAGE''"
  "value_str (chatFrame role content action) ''role'' d = Inr role"
  "value_str (chatFrame role content action) ''content'' d = Inr content"
  "value_str (chatFrame role content action) ''action_required'' [] = Inr action"
  by (simp_all add: value_or_def chatFrame_def Let_def jfind_jset mk_object_def omap_get_put omap_get_def)

lemma archive_frames_healthy:
  assumes "healthy q"
  shows "message_seq (repo p) + int (length fs) \<le> i64_max \<Longrightarrow>
    (\<And>f. f \<in> set fs \<Longrightarrow> \<exists>role content action. f = chatFrame role content action \<and> role \<in> set roles) \<Longrightarrow>
    \<exists>p'. foreachD (archive_frame q sid) fs p = (Inr (), p') \<and>
      message_seq (repo p') = message_seq (repo p) + int (length fs)"
proof (induction fs arbitrary: p)
  case (Cons f fs)
  obtain role content action where f: "f = chatFrame role content action" "role \<in> set roles"
    using Cons.prems(2) [of f] by auto
  have m: "message_seq (repo p) < i64_max" using Cons.prems(1) by simp
  obtain d where "addChatMessage q sid role content action (repo p) = (Inr (), d)" "message_seq d = message_seq (repo p) + 1"
    using addChatMessage_healthy [OF assms f(2), of sid content action "repo p"] m by auto
  then have a: "archive_frame q sid f p = (Inr (), p\<lparr>repo := d\<rparr>)" "message_seq (repo (p\<lparr>repo := d\<rparr>)) = message_seq (repo p) + 1"
    by (simp_all add: archive_frame_def f on_repo_def)
  show ?case using Cons.IH [of "p\<lparr>repo := d\<rparr>"] Cons.prems a by (fastforce simp: bindD_def)
qed (simp add: liftD_def)

lemma upload_frames_are_chat:
  "f \<in> set (upload_frames rs) \<Longrightarrow> \<exists>role content action. f = chatFrame role content action \<and> role \<in> set roles"
proof -
  have r: "''assistant'' \<in> set roles" by (simp add: roles_def)
  show "f \<in> set (upload_frames rs) \<Longrightarrow> ?thesis"
    unfolding upload_frames_def gap_frames_def Let_def using r by auto
qed

lemma upload_frames_length: "length (upload_frames rs) = length (filter violated rs) + 1"
  by (simp add: upload_frames_def gap_frames_def Let_def)

lemma upload_warnings_utf8: "json_utf8 doc \<Longrightarrow> list_all well_formed_utf8 (upload_warnings doc)"
proof -
  have "list_all well_formed_utf8 (List.map_filter (\<lambda>w. case w of JString s \<Rightarrow> Some s | _ \<Rightarrow> None) ws)"
    if "\<And>w. w \<in> set ws \<Longrightarrow> json_utf8 w" for ws
    using that
  proof (induction ws)
    case (Cons w ws)
    then show ?case using Cons.prems [of w] by (cases w) (simp_all add: map_filter_simps)
  qed (simp add: map_filter_simps)
  note ws = this
  assume doc: "json_utf8 doc"
  show ?thesis
  proof (cases "\<exists>c ws. jfind doc ''extraction_confidence'' = Some c \<and> is_object c \<and> jfind c ''warnings'' = Some (JArray ws)")
    case True
    then obtain c xs where c: "jfind doc ''extraction_confidence'' = Some c" "is_object c" "jfind c ''warnings'' = Some (JArray xs)"
      by blast
    then have "json_utf8 (JArray xs)" using doc json_utf8_jfind by blast
    then have "json_utf8 w" if "w \<in> set xs" for w using that json_utf8_elems [of "JArray xs" w] by simp
    then show ?thesis using ws [of xs] c by (simp add: upload_warnings_def)
  next
    case False
    then have "upload_warnings doc = []" by (auto simp: upload_warnings_def split: option.split json.split)
    then show ?thesis by simp
  qed
qed

lemma saveExtraction_message_seq: "message_seq (snd (saveExtraction ft q sid fn mt m doc ws d)) = message_seq d"
  using keeps_snd [OF untold.keeps_saveExtraction, of d "chat_messages d" "message_seq d"] by simp

lemma sessionStatusToString_known: "sessionStatusToString s \<in> set statuses"
  by (cases s) (simp_all add: statuses_def)

lemma saveExtraction_known:
  assumes "saveExtraction ft q sid fn mt m doc ws d = (Inr i, d')"
  shows "session_known d' (c_str sid)"
proof -
  let ?rest = "bindD (liftD (breakdown_json ft doc)) (\<lambda>breakdown.
     bindD (prepare q invoice_sql) (\<lambda>_.
     bindD (liftD (dump ft (extraction_meta doc ws))) (\<lambda>meta.
     bindD (liftD (dump ft doc)) (\<lambda>text.
     bindD (step q ''saveExtraction'' (insert_invoice (invoice_row_of sid fn mt m breakdown meta text))) (\<lambda>invoice_id.
     bindD (save_lines q invoice_id 0 (line_items m)) (\<lambda>_. liftD (Inr invoice_id)))))))"
  obtain x d1 where c: "createSession q sid d = (Inr x, d1)" and r: "?rest d1 = (Inr i, d')"
    using assms unfolding saveExtraction_def bindD_eq_Inr [where m = "createSession q sid"] by blast
  have k: "keeps (\<lambda>d. session_known d (c_str sid)) ?rest"
    by (intro triples known.keeps_step) (erule (1) known.invoice_inserted)
  have "session_known d1 (c_str sid)" using createSession_rows [OF c] by blast
  from keepsD [OF k this r] show ?thesis .
qed

lemma keeps_archive_known: "keeps (\<lambda>p. session_known (repo p) s) (foreachD (archive_frame q sid) fs)"
proof -
  have "keeps (\<lambda>p. session_known (repo p) s) (on_repo (addChatMessage q sid role content action))" for role content action
    using keeps_snd [OF known.keeps_addChatMessage] by (intro keepsI) simp
  then show ?thesis unfolding archive_frame_def by (intro triples)
qed

definition upload_status :: "RuleResult list \<Rightarrow> SessionStatus" where
  "upload_status rs = (if filter violated rs = [] then ACTIVE else INTERROGATING)"

lemma processUpload_succeeds:
  assumes q: "healthy q" and st: "sessions p sid = Some st" and x: "extr data mime = Inr doc"
    and a: "assess ft (rules p) doc = Inr (m, rs)" and u: "json_utf8 doc"
    and room: "room (repo p) (length (line_items m))"
    and msgs: "message_seq (repo p) + int (length (upload_frames rs)) \<le> i64_max"
  shows "\<exists>p'. processUpload ft q extr sid data mime p =
      (Inr \<lparr>pr_frames = upload_frames rs, pr_session_status = sessionStatusToString (upload_status rs)\<rparr>, p') \<and>
    statusOf p' sid = upload_status rs \<and>
    message_seq (repo p') = message_seq (repo p) + int (length (upload_frames rs)) \<and>
    (\<forall>q'. healthy q' \<longrightarrow> fst (sessionStatus q' sid (repo p')) = Inr (sessionStatusToString (upload_status rs)))"
proof -
  let ?st = "st\<lparr>ss_invoices := ss_invoices st @ [m]\<rparr>" and ?s = "sessionStatusToString (upload_status rs)"
  obtain d1 where s: "saveExtraction ft q sid [] mime m doc (upload_warnings doc) (repo p) = (Inr (invoice_seq (repo p) + 1), d1)"
    using saveExtraction_healthy [OF q u upload_warnings_utf8 [OF u] room] by blast
  define p1 where "p1 = (put_session sid ?st p)\<lparr>repo := d1\<rparr>"
  have m1: "message_seq (repo p1) = message_seq (repo p)"
    using saveExtraction_message_seq [of ft q sid "[]" mime m doc "upload_warnings doc" "repo p"] s by (simp add: p1_def)
  obtain p2 where a2: "foreachD (archive_frame q sid) (upload_frames rs) p1 = (Inr (), p2)"
    and m2: "message_seq (repo p2) = message_seq (repo p) + int (length (upload_frames rs))"
    using archive_frames_healthy [OF q, of p1 "upload_frames rs" sid] upload_frames_are_chat msgs m1 by auto
  obtain d3 where d3: "setSessionStatus q sid ?s (repo p2) = (Inr (), d3)" "message_seq d3 = message_seq (repo p2)"
    "\<forall>q'. healthy q' \<longrightarrow> session_known (repo p2) (c_str sid) \<longrightarrow> fst (sessionStatus q' sid d3) = Inr ?s"
    using setSessionStatus_healthy [where status = ?s and sid = sid and d = "repo p2", OF q sessionStatusToString_known] by auto
  have "session_known (repo p1) (c_str sid)"
    using saveExtraction_known [OF s] by (simp add: p1_def)
  then have k: "session_known (repo p2) (c_str sid)" using keepsD [OF keeps_archive_known _ a2] by simp
  define p3 where "p3 = p2\<lparr>repo := d3\<rparr>"
  have t: "on_repo (setSessionStatus q sid ?s) p2 = (Inr (), p3)" using d3(1) by (simp add: on_repo_def p3_def)
  let ?p' = "put_session sid (?st\<lparr>ss_status := upload_status rs\<rparr>) p3"
  have n: "(if gap_frames rs \<noteq> [] then INTERROGATING else ACTIVE) = upload_status rs"
    by (simp add: gap_frames_def upload_status_def)
  have "record_upload ft q sid st mime doc m rs p =
      (Inr \<lparr>pr_frames = upload_frames rs, pr_session_status = ?s\<rparr>, ?p')"
    unfolding record_upload_def Let_def n using s a2 t
    by (simp add: bindD_def modifyD_def liftD_def on_repo_def [of "saveExtraction ft q sid [] mime m doc ws" for ws]
        p1_def [symmetric])
  then have "processUpload ft q extr sid data mime p = (Inr \<lparr>pr_frames = upload_frames rs, pr_session_status = ?s\<rparr>, ?p')"
    using st x a by (simp add: processUpload_def)
  then show ?thesis using d3 k m2 by (simp add: statusOf_def p3_def)
qed

lemma assess_2026:
  assumes "validateAndSanitize doc = Inr m"
  shows "\<exists>rs. assess ft engine_2026 doc = Inr (m, rs) \<and> length (filter violated rs) =
    length (filter (\<lambda>rid. snd (rule_verdict m doc rid)) (map rule_id (engine_rules engine_2026)))"
proof -
  obtain rs where e: "evaluate ft engine_2026 m doc = Inr rs"
    and v: "map (\<lambda>r. (res_id r, \<not> skipped r, violated r)) rs =
     map (\<lambda>spec. (rule_id spec, rule_verdict m doc (rule_id spec))) (engine_rules engine_2026)"
    using evaluate_agrees [OF validated_agrees [OF assms], of ft] by blast
  have "length (filter violated rs) = length (filter (snd \<circ> snd) (map (\<lambda>r. (res_id r, \<not> skipped r, violated r)) rs))"
    by (simp add: filter_map comp_def)
  also have "\<dots> = length (filter (\<lambda>rid. snd (rule_verdict m doc rid)) (map rule_id (engine_rules engine_2026)))"
    unfolding v by (simp add: filter_map comp_def)
  finally show ?thesis using e assms by (simp add: assess_def)
qed

section \<open>Properties\<close>

text \<open>
  Property C4. The integrity of the server, in every state it can reach, through any calls with
  any extractor, any SQLite failures and restarts: the tables are intact (\<open>db_ok\<close>), every session
  in memory is a row of the database, every invoice in memory passed the validator, and no
  session is FILED without an invoice.
\<close>

theorem pipeline_integrity:
  assumes "reachable ft p"
  shows "db_ok (repo p) \<and> (\<forall>sid st. sessions p sid = Some st \<longrightarrow>
    session_known (repo p) (c_str sid) \<and> list_all matrix_ok (ss_invoices st) \<and>
    (ss_status st = FILED \<longrightarrow> ss_invoices st \<noteq> []))"
  using reachable_ok [OF assms] by (simp add: pipeline_ok_def state_ok_def)

text \<open>
  Property C1. The handlers refine a ledger per session: in a run without failures a call leaves
  memory and database in step, and changes the books exactly as its abstract effect says (an
  accepted upload appends one matrix to the books of its session, every other call, a rejected
  upload included, changes no book).
\<close>

theorem calls_refine_books:
  assumes "served ft p" and "float_printer ft" and "healthy q" and "call_ok p c"
    and "perform ft q c p = (Inr (), p')"
  shows "books p' = post_books (posting ft c p) (books p) \<and>
    (\<forall>sid st. sessions p' sid = Some st \<longrightarrow> books p' sid = Inr (ss_invoices st))"
  using perform_in_step [OF assms(2,3) served_in_step [OF assms(1,2)] assms(4,5)] unfolding in_step_def by blast

text \<open>
  Property C2. A restart does not change a filing: after any run without failures, requesting
  the filing of a session gives the same frames (or the same exception) whether the server kept
  running, with the invoices in memory, or was restarted on its database with any rules file.
\<close>

theorem filing_survives_restart:
  assumes "served ft p" and "float_printer ft" and "no_nul sid" and "healthy q" and "healthy q'"
    and "makePipeline config content open_fault schema_fault db_path (Some (repo p)) = Inr p'"
  shows "fst (requestFiling q' sid p') = fst (requestFiling q sid p)"
proof -
  have "repo p' = repo p" using makePipeline_fields [OF assms(6)] by simp
  moreover have "in_step p'" using served_in_step [OF served.resumed [OF assms(1,6)] assms(2)] .
  ultimately show ?thesis
    using requestFiling_outcome [OF assms(5) _ assms(3)] requestFiling_outcome [OF assms(4) served_in_step [OF assms(1,2)] assms(3)]
    by (simp add: books_def)
qed

text \<open>
  Property C12. A filing goes through: in a run without failures, a known session with at least
  one invoice whose lines (at most \<open>max_lines\<close>) pass the overflow guard gets its FILING_READY
  frame with the three returns generated from the books, and is FILED in memory and in the
  database. Nothing else is required: the gaps of the interrogation are not looked at, a session
  that is INTERROGATING is filed all the same.
\<close>

theorem filing_goes_through:
  assumes "served ft p" and "float_printer ft" and "healthy q" and "no_nul sid"
    and "session_known (repo p) sid" and "books p sid = Inr ms" and "ms \<noteq> []"
    and "length (ms_lines ms) \<le> max_lines" and "\<forall>l \<in> set (ms_lines ms). line_taxable l"
    and "message_seq (repo p) < i64_max"
  shows "\<exists>b2b hsn b3 ready p'. gstr1B2B ms = Inr b2b \<and> gstr1HsnSummary ms = Inr hsn \<and> gstr3B ms = Inr b3 \<and>
    requestFiling q sid p = (Inr \<lparr>pr_frames = [ready], pr_session_status = ''FILED''\<rparr>, p') \<and>
    jfind ready ''type'' = Some (JString ''FILING_READY'') \<and>
    jfind ready ''files'' = Some (JObject [(''gstr1_b2b.csv'', JString b2b),
      (''gstr1_hsn_summary.csv'', JString hsn), (''gstr3b_summary.csv'', JString b3)]) \<and>
    statusOf p' sid = FILED \<and> fst (sessionStatus q sid (repo p')) = Inr ''FILED''"
proof -
  obtain ready p' where f: "filing_ready ms = Inr ready"
    and r: "requestFiling q sid p = (Inr \<lparr>pr_frames = [ready], pr_session_status = ''FILED''\<rparr>, p')"
    and s: "statusOf p' sid = FILED" "\<forall>q'. healthy q' \<longrightarrow> fst (sessionStatus q' sid (repo p')) = Inr ''FILED''"
    using requestFiling_FILED [OF assms(3) served_in_step [OF assms(1,2)] assms(4-10)] by blast
  obtain b2b hsn b3 where g: "gstr1B2B ms = Inr b2b" "gstr1HsnSummary ms = Inr hsn" "gstr3B ms = Inr b3"
    using f by (auto simp: filing_ready_def bindE_eq_Inr)
  have "jfind ready ''type'' = Some (JString ''FILING_READY'') \<and>
    jfind ready ''files'' = Some (JObject [(''gstr1_b2b.csv'', JString b2b),
      (''gstr1_hsn_summary.csv'', JString hsn), (''gstr3b_summary.csv'', JString b3)])"
    using f by (auto simp: filing_ready_def g mk_object_def omap_get_def)
  then show ?thesis using g r s assms(3) by blast
qed


section \<open>A concrete run\<close>

text \<open>The offline extractor keeps the contract of the extraction seam.\<close>

interpretation mock: schema_extractor "mockExtract buildDefaultDocument"
  by unfold_locales (auto simp: mockExtract_def parsed_ok_def document_conforms default_document_ok)

text \<open>An invoice that lists two HSN codes: it conforms and validates, and raises a gap.\<close>

definition two_codes :: json where
  "two_codes = document_with ''hsn_string'' (JString ''8471,847130'')"

definition two_codes_matrix :: StateMatrix where
  "two_codes_matrix = default_matrix\<lparr>hsn_string := ''8471,847130''\<rparr>"

lemmas two_codes_defs = two_codes_def document_with_def invoice_with_def buildDefaultDocument_def
  default_supplier_def default_buyer_def default_invoice_def mk_object_def default_irn_def

lemma validate_two_codes: "validateAndSanitize two_codes = Inr two_codes_matrix"
  by (simp add: two_codes_def two_codes_matrix_def validate_with_hsn)

lemma two_codes_ok: "wf_json two_codes" "floats_ok two_codes" "json_utf8 two_codes"
proof -
  show "wf_json two_codes" by code_simp
  show "floats_ok two_codes" using representable_samples by (simp add: two_codes_defs)
  show "json_utf8 two_codes" by (simp add: two_codes_defs well_formed_utf8_run utf8_next_0 byte_of_def)
qed

lemma two_codes_conforms: "conforms_root two_codes gemini_schema"
proof -
  have "conforms (invoice_with ''hsn_string'' (JString ''8471,847130'')) schema_invoice"
    by (simp add: schema_eval jfind_invoice_with default_invoice_def schema_invoice_def
        schema_line_items_def schema_tax_breakdown_def)
  then show ?thesis using supplier_conforms buyer_conforms
    by (simp add: two_codes_def conforms_root_def schema_eval jfind_document_with buildDefaultDocument_def
        gemini_schema_def schema_irp_def schema_extraction_confidence_def)
qed

lemma two_codes_extractor: "schema_extractor (mockExtract two_codes)"
  by unfold_locales (auto simp: mockExtract_def parsed_ok_def two_codes_conforms two_codes_ok)

text \<open>The server on the shipped rules, which the rules file holds as \<open>dump\<close> prints them.\<close>

definition server0 :: Pipeline where
  "server0 = \<lparr>rules = engine_2026, sessions = Map.empty, repo = empty_db\<rparr>"

lemma rules_text: "\<exists>content. parse content = Inr rules_2026"
proof -
  have "json_utf8 rules_2026"
    by (simp add: rules_2026_def rules_2026_defs conds_2026_defs thresholds_2026_def well_formed_utf8_run utf8_next_0 byte_of_def)
  then obtain content where c: "dump dyadic_text rules_2026 = Inr content" using dump_succeeds by blast
  have "wf_json rules_2026" by code_simp
  moreover have "floats_ok rules_2026" by code_simp
  moreover have "norm_json rules_2026 = rules_2026" by code_simp
  ultimately show ?thesis using dyadic.parse_dump_norm [OF _ _ c] by auto
qed

lemma start_on:
  "\<exists>content. \<forall>stored. makePipeline ''rules_2026.json'' (Some content) None None ''tax.db'' stored =
    Inr (server0\<lparr>repo := case stored of None \<Rightarrow> empty_db | Some d \<Rightarrow> d\<rparr>)"
proof -
  obtain content where "parse content = Inr rules_2026" using rules_text by blast
  then show ?thesis
    by (intro exI [of _ content])
      (simp add: makePipeline_def loadRulesConfig_def on_parse_error_def open_repository_def server0_def load_2026)
qed

lemma start0: "\<exists>content. makePipeline ''rules_2026.json'' (Some content) None None ''tax.db'' None = Inr server0"
proof -
  have "server0\<lparr>repo := empty_db\<rparr> = server0" by (simp add: server0_def)
  then show ?thesis using start_on by (metis option.simps(4))
qed

lemma served0: "served ft server0"
proof -
  obtain content where "makePipeline ''rules_2026.json'' (Some content) None None ''tax.db'' None = Inr server0"
    using start0 by blast
  then show ?thesis by (rule served.begun) simp
qed

definition gen0 :: "nat \<Rightarrow> 64 word" where
  "gen0 i = 0"

definition sid0 :: string where
  "sid0 = uuid4 gen0"

definition upload0 :: call where
  "upload0 = Upload (mockExtract two_codes) sid0 ''JVBERi0='' ''application/pdf''"

lemma sid0_no_nul: "no_nul sid0"
  by (simp add: sid0_def uuid4_no_nul)

lemma opened0:
  "\<exists>p. perform ft fine_sqlite (Open gen0) server0 = (Inr (), p) \<and> call_ok server0 (Open gen0) \<and>
     sessions p = [sid0 \<mapsto> SessionState0] \<and> rules p = engine_2026 \<and> session_known (repo p) sid0 \<and>
     books p sid0 = Inr [] \<and> invoice_seq (repo p) = 0 \<and> line_seq (repo p) = 0 \<and> message_seq (repo p) = 0"
proof -
  have n: "c_str sid0 = sid0" using sid0_no_nul by simp
  obtain d where d: "createSession fine_sqlite sid0 empty_db = (Inr (), d)" "same_rows empty_db d" "session_known d sid0"
    "line_seq d = 0" "message_seq d = 0"
    using createSession_healthy [OF fine_sqlite_healthy, of sid0 empty_db] by (auto simp: n empty_db_def)
  have "openSession fine_sqlite gen0 server0 = (Inr sid0, put_session sid0 SessionState0 (server0\<lparr>repo := d\<rparr>))"
    using d(1) by (simp add: openSession_def sid0_def [symmetric] on_repo_def bindD_def modifyD_def liftD_def server0_def)
  moreover have "ledger d sid0 = Inr []"
    using d(2) by (simp add: same_rows_def ledger_def session_documents_def empty_db_def map_filter_simps)
  moreover have "invoice_seq d = 0" using d(2) by (simp add: same_rows_def empty_db_def)
  ultimately show ?thesis using d
    by (simp add: void_def bindD_def liftD_def books_def server0_def session_known_def empty_db_def put_session_def)
qed

definition gaps0 :: "string list" where
  "gaps0 = filter (\<lambda>rid. snd (rule_verdict two_codes_matrix two_codes rid)) (map rule_id (engine_rules engine_2026))"

lemma gaps0: "gaps0 \<noteq> []" "length gaps0 \<le> 7"
proof -
  have "''R-HSN-005'' \<in> set gaps0"
    by (simp add: gaps0_def rule_verdict_def engine_2026_def spec_conditions two_codes_matrix_def)
  then show "gaps0 \<noteq> []" by auto
  show "length gaps0 \<le> 7"
    unfolding gaps0_def by (rule order_trans [OF length_filter_le]) (simp add: engine_2026_def)
qed


lemma uploaded0:
  "\<exists>p p'. served dyadic_text p \<and> books p sid0 = Inr [] \<and> call_ok p upload0 \<and>
     perform dyadic_text fine_sqlite upload0 p = (Inr (), p') \<and> message_seq (repo p') \<le> 8 \<and>
     statusOf p' sid0 = INTERROGATING \<and> posting dyadic_text upload0 p = Some (sid0, two_codes_matrix)"
proof -
  obtain p where p: "perform dyadic_text fine_sqlite (Open gen0) server0 = (Inr (), p)" "call_ok server0 (Open gen0)"
    "sessions p = [sid0 \<mapsto> SessionState0]" "rules p = engine_2026" "books p sid0 = Inr []"
    "invoice_seq (repo p) = 0" "line_seq (repo p) = 0" "message_seq (repo p) = 0"
    using opened0 [of dyadic_text] by blast
  have s: "served dyadic_text p" by (rule served.answered [OF served0 fine_sqlite_healthy p(2,1)])
  obtain rs where a: "assess dyadic_text (rules p) two_codes = Inr (two_codes_matrix, rs)" and g: "length (filter violated rs) = length gaps0"
    using assess_2026 [OF validate_two_codes] unfolding gaps0_def p(4) by blast
  have x: "mockExtract two_codes ''JVBERi0='' ''application/pdf'' = Inr two_codes"
    by (simp add: mockExtract_def)
  have "room (repo p) (length (line_items two_codes_matrix))"
    by (simp add: room_def p two_codes_matrix_def default_matrix_def i64_max_def)
  moreover have "upload_status rs = INTERROGATING" using g gaps0(1) by (auto simp: upload_status_def)
  moreover have "message_seq (repo p) + int (length (upload_frames rs)) \<le> i64_max" "length (upload_frames rs) \<le> 8"
    using gaps0(2) g by (simp_all add: p upload_frames_length i64_max_def)
  ultimately obtain p' where "processUpload dyadic_text fine_sqlite (mockExtract two_codes) sid0 ''JVBERi0='' ''application/pdf'' p =
      (Inr \<lparr>pr_frames = upload_frames rs, pr_session_status = ''INTERROGATING''\<rparr>, p')" "message_seq (repo p') \<le> 8"
    "statusOf p' sid0 = INTERROGATING"
    using processUpload_succeeds [where extr = "mockExtract two_codes" and data = "''JVBERi0=''"
      and mime = "''application/pdf''" and sid = sid0 and p = p, OF fine_sqlite_healthy _ x a two_codes_ok(3)] p(3,8) by auto
  then show ?thesis using s p a x two_codes_extractor
    by (intro exI [of _ p] exI [of _ p']) (simp add: upload0_def void_def bindD_def liftD_def)
qed

theorem pipeline_integrity_witness:
  "db_ok (repo (snd (perform dyadic_text (failing_sqlite 1) (Open gen0) server0)))"
proof -
  obtain content where "makePipeline ''rules_2026.json'' (Some content) None None ''tax.db'' None = Inr server0"
    using start0 by blast
  then have "reachable dyadic_text server0" by (rule reachable.started) simp
  from pipeline_integrity [OF reachable.called [OF this]] show ?thesis by blast
qed

theorem calls_refine_books_witness:
  "\<exists>p p'. perform dyadic_text fine_sqlite upload0 p = (Inr (), p') \<and> books p sid0 = Inr [] \<and>
     books p' sid0 = Inr [two_codes_matrix]"
proof -
  obtain p p' where p: "served dyadic_text p" "books p sid0 = Inr []" "call_ok p upload0"
    "perform dyadic_text fine_sqlite upload0 p = (Inr (), p')" "posting dyadic_text upload0 p = Some (sid0, two_codes_matrix)"
    using uploaded0 by blast
  have "books p' = post_books (Some (sid0, two_codes_matrix)) (books p)"
    using calls_refine_books [OF p(1) dyadic.float_printer_axioms fine_sqlite_healthy p(3,4)] by (simp add: p(5))
  then show ?thesis using p by (intro exI [of _ p] exI [of _ p']) (simp add: post_books_def)
qed

lemma filed0:
  "\<exists>p. served dyadic_text p \<and> books p sid0 = Inr [two_codes_matrix] \<and> session_known (repo p) sid0 \<and>
     statusOf p sid0 = INTERROGATING \<and> message_seq (repo p) < i64_max"
proof -
  obtain p p' where p: "served dyadic_text p" "books p sid0 = Inr []" "call_ok p upload0"
    "perform dyadic_text fine_sqlite upload0 p = (Inr (), p')" "posting dyadic_text upload0 p = Some (sid0, two_codes_matrix)"
    "message_seq (repo p') \<le> 8" "statusOf p' sid0 = INTERROGATING"
    using uploaded0 by blast
  have s: "served dyadic_text p'" by (rule served.answered [OF p(1) fine_sqlite_healthy p(3,4)])
  have b: "books p' sid0 = Inr [two_codes_matrix]"
    using perform_in_step [OF dyadic.float_printer_axioms fine_sqlite_healthy
        served_in_step [OF p(1) dyadic.float_printer_axioms] p(3,4)] p(2,5) by (simp add: post_books_def)
  have "session_known (repo p') sid0"
    using unknown_ledger [of p' sid0] b sid0_no_nul served_in_step [OF s dyadic.float_printer_axioms]
    by (auto simp: in_step_def)
  then show ?thesis using s b p(6,7) by (intro exI [of _ p']) (simp add: i64_max_def)
qed

lemma two_codes_lines:
  "length (ms_lines [two_codes_matrix]) \<le> max_lines" "\<forall>l \<in> set (ms_lines [two_codes_matrix]). line_taxable l"
  by (simp_all add: ms_lines_def two_codes_matrix_def default_matrix_def max_lines_def line_taxable_def line_base_def
      head_rate_def i64_max_def)

text \<open>The session is INTERROGATING, its gap is open, and it is filed.\<close>

theorem filing_goes_through_witness:
  "\<exists>p ready p'. books p sid0 = Inr [two_codes_matrix] \<and> statusOf p sid0 = INTERROGATING \<and>
     requestFiling fine_sqlite sid0 p = (Inr \<lparr>pr_frames = [ready], pr_session_status = ''FILED''\<rparr>, p') \<and>
     statusOf p' sid0 = FILED"
proof -
  obtain p where p: "served dyadic_text p" "books p sid0 = Inr [two_codes_matrix]" "session_known (repo p) sid0"
    "statusOf p sid0 = INTERROGATING" "message_seq (repo p) < i64_max"
    using filed0 by blast
  show ?thesis
    using filing_goes_through [OF p(1) dyadic.float_printer_axioms fine_sqlite_healthy sid0_no_nul p(3,2) _ two_codes_lines p(5)] p(2,4)
    by blast
qed

theorem filing_survives_restart_witness:
  "\<exists>p. books p sid0 = Inr [two_codes_matrix] \<and>
     fst (requestFiling fine_sqlite sid0 (server0\<lparr>repo := repo p\<rparr>)) = fst (requestFiling fine_sqlite sid0 p)"
proof -
  obtain p where p: "served dyadic_text p" "books p sid0 = Inr [two_codes_matrix]" using filed0 by blast
  obtain content where "makePipeline ''rules_2026.json'' (Some content) None None ''tax.db'' (Some (repo p)) =
      Inr (server0\<lparr>repo := repo p\<rparr>)"
    using start_on by (metis option.simps(5))
  from filing_survives_restart [OF p(1) dyadic.float_printer_axioms sid0_no_nul fine_sqlite_healthy fine_sqlite_healthy this]
  show ?thesis using p(2) by blast
qed

end
