(* ===== verification/CrowJson.thy ===== *)
theory CrowJson
  imports Json_Dump "HOL-Library.Multiset"
begin

text \<open>
  \<open>crow::json::load\<close> and the members of \<open>crow::json::rvalue\<close> the gateway calls
  (backend/include/crow/json.h): the reader of the messages a client sends. The \<open>char*\<close> the
  parser moves over a NUL-terminated buffer is the list of the bytes left, without the
  terminator; what the parser and \<open>unescape\<close> write into the buffer lies behind that pointer, so a
  string is the slice it was read from and the flag kept in the byte before it. The order in
  which \<open>std::sort\<close> leaves members with equal keys is not specified: it is a parameter.
\<close>

section \<open>Values\<close>

datatype crow =
    CNull
  | CFalse
  | CTrue
  | CNumber string
  | CString bool string
  | CList "crow list"
  | CObject "(string \<times> crow) list"

text \<open>\<open>rvalue::unescape\<close> on a slice the parser accepted.\<close>

definition from_hex :: "char \<Rightarrow> nat" where
  "from_hex c = (let b = byte_of c in if 97 \<le> b then b - 87 else if 65 \<le> b then b - 55 else b - 48)"

definition hex_code :: "string \<Rightarrow> nat" where
  "hex_code h = from_hex (h ! 0) * 0x1000 + from_hex (h ! 1) * 0x100 + from_hex (h ! 2) * 0x10 + from_hex (h ! 3)"

definition code_bytes :: "nat \<Rightarrow> nat list" where
  "code_bytes code =
     (if 0x800 \<le> code then [0xE0 + code div 0x1000, 0x80 + code div 0x40 mod 0x40, 0x80 + code mod 0x40]
      else if 0x80 \<le> code then [0xC0 + code div 0x40, 0x80 + code mod 0x40]
      else [code])"

definition simple_escape :: "char \<Rightarrow> string" where
  "simple_escape e =
     (if e = CHR 0x22 \<or> e = CHR 0x5C \<or> e = CHR ''/'' then [e]
      else if e = CHR ''b'' then [CHR 0x08]
      else if e = CHR ''f'' then [CHR 0x0C]
      else if e = CHR ''n'' then [CHR 0x0A]
      else if e = CHR ''r'' then [CHR 0x0D]
      else if e = CHR ''t'' then [CHR 0x09]
      else [])"

fun unescape :: "string \<Rightarrow> string" where
  "unescape [] = []"
| "unescape (c # s) =
     (if c \<noteq> CHR 0x5C then c # unescape s
      else case s of
        [] \<Rightarrow> []
      | e # s' \<Rightarrow>
          if e = CHR ''u'' then map char_of (code_bytes (hex_code (take 4 s'))) @ unescape (drop 4 s')
          else simple_escape e @ unescape s')"

text \<open>\<open>rvalue::s()\<close>, with the flag of the byte before the slice.\<close>

definition crow_text :: "bool \<Rightarrow> string \<Rightarrow> string" where
  "crow_text has_escaping raw = (if has_escaping then unescape raw else raw)"

section \<open>The parser\<close>

definition cur :: "string \<Rightarrow> char" where
  "cur s = (case s of [] \<Rightarrow> CHR 0x00 | c # _ \<Rightarrow> c)"

definition consume :: "char \<Rightarrow> string \<Rightarrow> string option" where
  "consume c s = (if cur s = c then Some (tl s) else None)"

definition ws_char :: "char \<Rightarrow> bool" where
  "ws_char c \<longleftrightarrow> c = CHR '' '' \<or> c = CHR 0x09 \<or> c = CHR 0x0D \<or> c = CHR 0x0A"

definition ws_skip :: "string \<Rightarrow> string" where
  "ws_skip s = dropWhile ws_char s"

definition is_hex :: "char \<Rightarrow> bool" where
  "is_hex c \<longleftrightarrow> (let b = byte_of c in (48 \<le> b \<and> b \<le> 57) \<or> (97 \<le> b \<and> b \<le> 102) \<or> (65 \<le> b \<and> b \<le> 70))"

definition escape_chars :: string where
  "escape_chars = [CHR 0x22, CHR 0x5C, CHR ''/'', CHR ''b'', CHR ''f'', CHR ''n'', CHR ''r'', CHR ''t'']"

definition in_slice :: "string \<Rightarrow> (bool \<times> string \<times> string) option \<Rightarrow> (bool \<times> string \<times> string) option" where
  "in_slice p = map_option (\<lambda>(esc, raw, r). (esc, p @ raw, r))"

text \<open>The loop of \<open>decode_string\<close>: the escape flag, the slice and what follows the closing quote.\<close>

fun string_slice :: "bool \<Rightarrow> string \<Rightarrow> (bool \<times> string \<times> string) option" where
  "string_slice esc [] = None"
| "string_slice esc (c # s) =
     (if c = CHR 0x22 then Some (esc, [], s)
      else if c = CHR 0x00 then None
      else if c \<noteq> CHR 0x5C then in_slice [c] (string_slice esc s)
      else case s of
        [] \<Rightarrow> None
      | e # s' \<Rightarrow>
          if e = CHR ''u'' then
            (if 4 \<le> length s' \<and> list_all is_hex (take 4 s')
             then in_slice (c # e # take 4 s') (string_slice True (drop 4 s')) else None)
          else if e \<in> set escape_chars then in_slice [c, e] (string_slice True s')
          else None)"

definition decode_string :: "string \<Rightarrow> ((bool \<times> string) \<times> string) option" where
  "decode_string s =
     (case consume (CHR 0x22) s of
        None \<Rightarrow> None
      | Some s1 \<Rightarrow> map_option (\<lambda>(esc, raw, r). ((esc, raw), r)) (string_slice False s1))"

text \<open>
  The automaton of \<open>decode_number\<close>, in the order of its enumeration: Minus, AfterMinus,
  ZeroFirst, Digits, DigitsAfterPoints, E, DigitsAfterE, Invalid. The rows are the tables of the
  switch; \<open>None\<close> is its default branch.
\<close>

definition number_row :: "char \<Rightarrow> nat list option" where
  "number_row c =
     (if c = CHR ''0'' then Some [2, 2, 7, 3, 4, 6, 6]
      else if is_digit c then Some [3, 3, 7, 3, 4, 6, 6]
      else if c = CHR ''.'' then Some [7, 7, 4, 4, 7, 7, 7]
      else if c = CHR ''-'' then Some [1, 7, 7, 7, 7, 6, 7]
      else if c = CHR ''+'' then Some [7, 7, 7, 7, 7, 6, 7]
      else if c = CHR ''e'' \<or> c = CHR ''E'' then Some [7, 7, 7, 5, 5, 7, 7]
      else None)"

text \<open>A digit from 1 to 9 takes the digits that follow with it.\<close>

definition digit_run :: "char \<Rightarrow> string \<Rightarrow> string" where
  "digit_run c s = (if is_digit c \<and> c \<noteq> CHR ''0'' then takeWhile is_digit s else [])"

definition number_end :: "nat \<Rightarrow> string \<Rightarrow> (string \<times> string) option" where
  "number_end st s = (if st \<in> {2, 3, 4, 6} then Some ([], s) else None)"

fun number_slice :: "nat \<Rightarrow> string \<Rightarrow> (string \<times> string) option" where
  "number_slice st [] = number_end st []"
| "number_slice st (c # s) =
     (if st = 7 then None
      else case number_row c of
        None \<Rightarrow> number_end st (c # s)
      | Some row \<Rightarrow>
          (let p = digit_run c s in
           map_option (\<lambda>(raw, r). (c # p @ raw, r)) (number_slice (row ! st) (drop (length p) s))))"

definition decode_number :: "string \<Rightarrow> (crow \<times> string) option" where
  "decode_number s = map_option (\<lambda>(raw, r). (CNumber raw, r)) (number_slice 0 s)"

definition word_value :: "string \<Rightarrow> crow \<Rightarrow> string \<Rightarrow> (crow \<times> string) option" where
  "word_value w v s = (if take (length w) s = w then Some (v, drop (length w) s) else None)"

definition max_depth :: nat where
  "max_depth = 10000"

text \<open>
  \<open>decode_value\<close>, \<open>decode_list\<close> and \<open>decode_object\<close> and the loops of the last two. A value with
  its error bit is \<open>None\<close>: every caller gives up on it.
\<close>

function decode_value :: "nat \<Rightarrow> string \<Rightarrow> (crow \<times> string) option"
  and decode_list :: "nat \<Rightarrow> string \<Rightarrow> (crow \<times> string) option"
  and list_loop :: "nat \<Rightarrow> string \<Rightarrow> (crow list \<times> string) option"
  and decode_object :: "nat \<Rightarrow> string \<Rightarrow> (crow \<times> string) option"
  and object_loop :: "nat \<Rightarrow> string \<Rightarrow> ((string \<times> crow) list \<times> string) option" where
  "decode_value depth s =
     (let c = cur s in
      if c = CHR ''['' then decode_list (depth + 1) s
      else if c = CHR ''{'' then decode_object (depth + 1) s
      else if c = CHR 0x22 then map_option (\<lambda>((esc, raw), r). (CString esc raw, r)) (decode_string s)
      else if c = CHR ''t'' then word_value ''true'' CTrue s
      else if c = CHR ''f'' then word_value ''false'' CFalse s
      else if c = CHR ''n'' then word_value ''null'' CNull s
      else decode_number s)"
| "decode_list depth s =
     (case consume (CHR ''['') s of
        None \<Rightarrow> None
      | Some s1 \<Rightarrow>
          if max_depth < depth then None
          else let s2 = ws_skip s1 in
            if cur s2 = CHR '']'' then Some (CList [], tl s2)
            else map_option (\<lambda>(vs, r). (CList vs, r)) (list_loop depth s2))"
| "list_loop depth s =
     (case decode_value (depth + 1) s of
        None \<Rightarrow> None
      | Some (v, r) \<Rightarrow>
          (let r1 = ws_skip r in
           if cur r1 = CHR '']'' then Some ([v], tl r1)
           else (case consume (CHR '','') r1 of
                   None \<Rightarrow> None
                 | Some r2 \<Rightarrow> map_option (\<lambda>(vs, r). (v # vs, r)) (list_loop depth (ws_skip r2)))))"
| "decode_object depth s =
     (case consume (CHR ''{'') s of
        None \<Rightarrow> None
      | Some s1 \<Rightarrow>
          if max_depth < depth then None
          else let s2 = ws_skip s1 in
            if cur s2 = CHR ''}'' then Some (CObject [], tl s2)
            else map_option (\<lambda>(es, r). (CObject es, r)) (object_loop depth s2))"
| "object_loop depth s =
     (case decode_string s of
        None \<Rightarrow> None
      | Some ((esc, raw), r) \<Rightarrow>
          (case consume (CHR '':'') (ws_skip r) of
             None \<Rightarrow> None
           | Some r1 \<Rightarrow>
               (case decode_value (depth + 1) (ws_skip r1) of
                  None \<Rightarrow> None
                | Some (v, r2) \<Rightarrow>
                    (let e = (crow_text esc raw, v); r3 = ws_skip r2 in
                     if cur r3 = CHR ''}'' then Some ([e], tl r3)
                     else (case consume (CHR '','') r3 of
                             None \<Rightarrow> None
                           | Some r4 \<Rightarrow> map_option (\<lambda>(es, r). (e # es, r)) (object_loop depth (ws_skip r4)))))))"
  by pat_completeness auto

lemma ws_skip_le: "length (ws_skip s) \<le> length s"
  by (simp add: ws_skip_def length_dropWhile_le)

lemma consume_less: "consume c s = Some r \<Longrightarrow> c \<noteq> CHR 0x00 \<Longrightarrow> length r < length s"
  by (auto simp: consume_def cur_def split: if_splits list.splits)

lemma string_slice_less: "string_slice esc s = Some (e, raw, r) \<Longrightarrow> length r < length s"
  by (induction esc s arbitrary: e raw r rule: string_slice.induct)
    (fastforce simp: in_slice_def split: if_splits list.splits)+

lemma decode_string_less: "decode_string s = Some (x, r) \<Longrightarrow> length r < length s"
  by (auto simp: decode_string_def split: option.splits dest!: string_slice_less consume_less)

lemma digit_run_split: "digit_run c s @ drop (length (digit_run c s)) s = s"
  by (simp add: digit_run_def dropWhile_eq_drop [symmetric])

lemma number_slice_split: "number_slice st s = Some (raw, r) \<Longrightarrow> s = raw @ r"
proof (induction st s arbitrary: raw r rule: number_slice.induct)
  case (2 st c s)
  then show ?case using digit_run_split [of c s]
    by (auto simp: number_end_def Let_def split: if_splits option.splits)
qed (auto simp: number_end_def split: if_splits)

lemma number_slice_less: "number_slice 0 s = Some (raw, r) \<Longrightarrow> length r < length s"
  using number_slice_split [of 0 s raw r] by (cases s) (auto simp: number_end_def Let_def split: if_splits option.splits)

lemma word_value_less: "word_value w v s = Some (x, r) \<Longrightarrow> w \<noteq> [] \<Longrightarrow> length r < length s"
  by (cases s) (auto simp: word_value_def split: if_splits)

lemma tl_less: "cur s = c \<Longrightarrow> c \<noteq> CHR 0x00 \<Longrightarrow> length (tl s) < length s"
  by (cases s) (auto simp: cur_def)

lemma decode_number_less: "decode_number s = Some (v, r) \<Longrightarrow> length r < length s"
  by (auto simp: decode_number_def dest: number_slice_less)

text \<open>What is read is not empty: the measure of the recursion.\<close>

lemma decode_sizes_dom:
  "decode_value_decode_list_list_loop_decode_object_object_loop_dom (Inl (Inl (d, s))) \<Longrightarrow> \<forall>v r. decode_value d s = Some (v, r) \<longrightarrow> length r < length s"
  "decode_value_decode_list_list_loop_decode_object_object_loop_dom (Inl (Inr (d, s))) \<Longrightarrow> \<forall>v r. decode_list d s = Some (v, r) \<longrightarrow> length r < length s"
  "decode_value_decode_list_list_loop_decode_object_object_loop_dom (Inr (Inl (d, s))) \<Longrightarrow> \<forall>vs r. list_loop d s = Some (vs, r) \<longrightarrow> length r < length s"
  "decode_value_decode_list_list_loop_decode_object_object_loop_dom (Inr (Inr (Inl (d, s)))) \<Longrightarrow> \<forall>v r. decode_object d s = Some (v, r) \<longrightarrow> length r < length s"
  "decode_value_decode_list_list_loop_decode_object_object_loop_dom (Inr (Inr (Inr (d, s)))) \<Longrightarrow> \<forall>es r. object_loop d s = Some (es, r) \<longrightarrow> length r < length s"
proof (induction d s and d s and d s and d s and d s rule: decode_value_decode_list_list_loop_decode_object_object_loop.pinduct)
  case (1 depth s)
  then show ?case
    by (auto simp: decode_value.psimps Let_def dest: decode_string_less decode_number_less word_value_less split: if_splits)
next
  case (2 depth s)
  show ?case
  proof (intro allI impI)
    fix v r assume d: "decode_list depth s = Some (v, r)"
    then obtain s1 where c: "consume (CHR ''['') s = Some s1" and m: "\<not> max_depth < depth"
      using 2(1) by (auto simp: decode_list.psimps split: option.splits if_splits)
    have "length (ws_skip s1) < length s" using consume_less [OF c] ws_skip_le [of s1] by simp
    then show "length r < length s" using d c m 2(1) 2(2) [OF c m refl] tl_less [of "ws_skip s1"]
      by (fastforce simp: decode_list.psimps Let_def split: if_splits)
  qed
next
  case (3 depth s)
  show ?case
  proof (intro allI impI)
    fix vs r assume l: "list_loop depth s = Some (vs, r)"
    then obtain v r0 where v: "decode_value (depth + 1) s = Some (v, r0)"
      using 3(1) by (auto simp: list_loop.psimps split: option.splits)
    then have r0: "length (ws_skip r0) < length s" using 3(2) ws_skip_le [of r0] by fastforce
    show "length r < length s"
    proof (cases "cur (ws_skip r0) = CHR '']''")
      case True
      then show ?thesis using l v 3(1) r0 tl_less [OF True] by (auto simp: list_loop.psimps)
    next
      case False
      then obtain r2 vs' where c: "consume (CHR '','') (ws_skip r0) = Some r2" "list_loop depth (ws_skip r2) = Some (vs', r)"
        using l v 3(1) by (auto simp: list_loop.psimps Let_def split: option.splits)
      then have "length (ws_skip r2) < length s" using consume_less [OF c(1)] ws_skip_le [of r2] r0 by simp
      then show ?thesis using 3(3) [OF v refl refl False c(1)] c(2) by fastforce
    qed
  qed
next
  case (4 depth s)
  show ?case
  proof (intro allI impI)
    fix v r assume d: "decode_object depth s = Some (v, r)"
    then obtain s1 where c: "consume (CHR ''{'') s = Some s1" and m: "\<not> max_depth < depth"
      using 4(1) by (auto simp: decode_object.psimps split: option.splits if_splits)
    have "length (ws_skip s1) < length s" using consume_less [OF c] ws_skip_le [of s1] by simp
    then show "length r < length s" using d c m 4(1) 4(2) [OF c m refl] tl_less [of "ws_skip s1"]
      by (fastforce simp: decode_object.psimps Let_def split: if_splits)
  qed
next
  case (5 depth s)
  show ?case
  proof (intro allI impI)
    fix es r assume l: "object_loop depth s = Some (es, r)"
    then obtain esc raw r0 r1 v r2 where k: "decode_string s = Some ((esc, raw), r0)"
      and c: "consume (CHR '':'') (ws_skip r0) = Some r1" and v: "decode_value (depth + 1) (ws_skip r1) = Some (v, r2)"
      using 5(1) by (auto simp: object_loop.psimps split: option.splits)
    have "length (ws_skip r1) < length s"
      using decode_string_less [OF k] consume_less [OF c] ws_skip_le [of r0] ws_skip_le [of r1] by simp
    moreover have "length (ws_skip r2) < length (ws_skip r1)" using 5(2) [OF k refl refl c] v ws_skip_le [of r2] by fastforce
    ultimately have r3: "length (ws_skip r2) < length s" by simp
    show "length r < length s"
    proof (cases "cur (ws_skip r2) = CHR ''}''")
      case True
      then show ?thesis using l k c v 5(1) r3 tl_less [OF True] by (auto simp: object_loop.psimps)
    next
      case False
      then obtain r4 es' where c4: "consume (CHR '','') (ws_skip r2) = Some r4" "object_loop depth (ws_skip r4) = Some (es', r)"
        using l k c v 5(1) by (auto simp: object_loop.psimps Let_def split: option.splits)
      then have "length (ws_skip r4) < length s" using consume_less [OF c4(1)] ws_skip_le [of r4] r3 by simp
      then show ?thesis using 5(3) [OF k refl refl c v refl refl refl False c4(1)] c4(2) by fastforce
    qed
  qed
qed

definition decode_measure :: "((nat \<times> string) + (nat \<times> string)) + ((nat \<times> string) + ((nat \<times> string) + (nat \<times> string))) \<Rightarrow> nat" where
  "decode_measure x =
     (case x of
        Inl (Inl (d, s)) \<Rightarrow> 3 * length s + 1
      | Inl (Inr (d, s)) \<Rightarrow> 3 * length s
      | Inr (Inl (d, s)) \<Rightarrow> 3 * length s + 2
      | Inr (Inr (Inl (d, s))) \<Rightarrow> 3 * length s
      | Inr (Inr (Inr (d, s))) \<Rightarrow> 3 * length s + 2)"

lemma skip_consumed: "consume c s = Some r \<Longrightarrow> c \<noteq> CHR 0x00 \<Longrightarrow> length (ws_skip r) < length s"
  using consume_less ws_skip_le order_le_less_trans by blast

lemma skip_skip_consumed: "consume c (ws_skip s) = Some r \<Longrightarrow> c \<noteq> CHR 0x00 \<Longrightarrow> length (ws_skip r) < length s"
  using skip_consumed ws_skip_le order_less_le_trans by blast

lemma decode_next_dom:
  "decode_value d s = Some x \<Longrightarrow> (v, r) = x \<Longrightarrow> decode_value_decode_list_list_loop_decode_object_object_loop_dom (Inl (Inl (d, s))) \<Longrightarrow> length r < length s"
  using decode_sizes_dom(1) by blast

lemma decode_string_next: "decode_string s = Some x \<Longrightarrow> (k, r) = x \<Longrightarrow> length r < length s"
  using decode_string_less by blast

lemmas progress = skip_consumed skip_skip_consumed decode_next_dom decode_string_next

termination decode_value
proof (relation "measure decode_measure", simp_all add: decode_measure_def, goal_cases)
  case (1 s x2)
  then show ?case using progress(1) by fastforce
next
  case (2 depth s x2 x y xa x2a)
  then have "length (ws_skip x2a) < length y" by (intro progress(2)) auto
  then show ?case using progress(3) [OF 2(1,2,6)] by simp
next
  case (3 s x2)
  then show ?case using progress(1) by fastforce
next
  case (4 s x2 x y xa ya x2a)
  then have "length (ws_skip x2a) < length y" by (intro progress(2)) auto
  then show ?case using progress(4) [OF 4(1,2)] by simp
next
  case (5 depth s x2 x y xa ya x2a x2b xb yb xc xd x2c)
  then have "length (ws_skip x2a) < length y" "length (ws_skip x2c) < length yb" by (auto intro!: progress(2))
  then show ?case using progress(4) [OF 5(1,2)] progress(3) [OF 5(5,6,11)] by simp
qed

lemmas decode_defs = decode_value.simps decode_list.simps list_loop.simps decode_object.simps object_loop.simps

declare decode_defs [simp del]

definition crow_load :: "string \<Rightarrow> crow option" where
  "crow_load data =
     (case decode_value 0 (ws_skip data) of
        None \<Rightarrow> None
      | Some (v, r) \<Rightarrow> if cur (ws_skip r) = CHR 0x00 then Some v else None)"

section \<open>Members\<close>

text \<open>\<open>r_string\<close> compares by \<open>std::lexicographical_compare\<close> on \<open>char\<close>, which is signed here.\<close>

definition schar :: "char \<Rightarrow> int" where
  "schar c = (let b = int (byte_of c) in if b < 128 then b else b - 256)"

definition key_less :: "string \<Rightarrow> string \<Rightarrow> bool" where
  "key_less a b \<longleftrightarrow> map schar a < map schar b"

type_synonym members = "(string \<times> crow) list"

definition lower_bound :: "string \<Rightarrow> members \<Rightarrow> members" where
  "lower_bound key ms = dropWhile (\<lambda>m. key_less (fst m) key) ms"

definition find_member :: "string \<Rightarrow> members \<Rightarrow> crow option" where
  "find_member key ms =
     (case lower_bound key ms of [] \<Rightarrow> None | m # _ \<Rightarrow> if fst m = key then Some (snd m) else None)"

text \<open>
  \<open>has\<close> and \<open>operator[]\<close>, with the sorted members of \<open>srt\<close>. The elements of a list have no key: for
  a list that is not empty, \<open>has\<close> compares uninitialized pointers, and what comes out of it, when
  something does, is the parameter \<open>loose\<close>.
\<close>

fun crow_has :: "(members \<Rightarrow> members) \<Rightarrow> (crow list \<Rightarrow> string \<Rightarrow> bool) \<Rightarrow> crow \<Rightarrow> string \<Rightarrow> bool result" where
  "crow_has srt loose (CObject ms) key = Inr (find_member key (srt ms) \<noteq> None)"
| "crow_has srt loose (CList vs) key = Inr (vs \<noteq> [] \<and> loose vs key)"
| "crow_has srt loose _ key = Inl (Runtime_error ''value is not a container'')"

fun crow_index :: "(members \<Rightarrow> members) \<Rightarrow> crow \<Rightarrow> string \<Rightarrow> crow result" where
  "crow_index srt (CObject ms) key =
     (case find_member key (srt ms) of None \<Rightarrow> Inl (Runtime_error ''cannot find key'') | Some v \<Rightarrow> Inr v)"
| "crow_index srt _ key = Inl (Runtime_error ''value is not an object'')"

text \<open>What \<open>std::sort\<close> promises.\<close>

locale member_sort =
  fixes srt :: "members \<Rightarrow> members"
  assumes same_members: "mset (srt ms) = mset ms"
    and in_order: "sorted_wrt (\<lambda>a b. \<not> key_less (fst b) (fst a)) (srt ms)"
begin

lemma set_srt [simp]: "set (srt ms) = set ms"
  using same_members [of ms] by (metis set_mset_mset)

lemma distinct_srt: "distinct (map fst (srt ms)) \<longleftrightarrow> distinct (map fst ms)"
proof -
  have "mset (map fst (srt ms)) = mset (map fst ms)" using same_members [of ms] by simp
  then show ?thesis using mset_eq_imp_distinct_iff by blast
qed

end

text \<open>A sort that keeps equal keys in order, as \<open>std::sort\<close> does on few members.\<close>

definition key_sort :: "members \<Rightarrow> members" where
  "key_sort ms = sort_key (\<lambda>m. map schar (fst m)) ms"

interpretation keyed: member_sort key_sort
proof
  show "sorted_wrt (\<lambda>a b. \<not> key_less (fst b) (fst a)) (key_sort ms)" for ms
    using sorted_sort_key [of "\<lambda>m. map schar (fst m)" ms]
    by (simp add: key_sort_def key_less_def sorted_map not_less)
qed (simp add: key_sort_def)

end
