(* ===== verification/CrowRoundtrip.thy ===== *)
theory CrowRoundtrip
  imports CrowJson Json_Roundtrip
begin

text \<open>
  The two JSON implementations of the program against each other: what the serializer of
  backend/include/json.hpp writes, the parser of backend/include/crow/json.h reads back with the
  same structure and the same strings, up to the nesting the parser allows; and what a member
  lookup of the result finds.
\<close>

section \<open>Strings\<close>

lemma byte_char: "c = char_of n \<longleftrightarrow> byte_of c = n mod 256" for n :: nat
  by (metis byte_of_def byte_of_inj of_char_of)

lemma hex_digits:
  assumes "n < 16"
  shows "is_hex (hex_lower n)" and "from_hex (hex_lower n) = n"
proof -
  have "byte_of (hex_lower n) = (if n < 10 then 48 + n else 87 + n)"
    using assms by (simp add: hex_lower_def byte_of_def)
  then show "is_hex (hex_lower n)" "from_hex (hex_lower n) = n"
    using assms by (simp_all add: is_hex_def from_hex_def Let_def)
qed

lemma zero_hex: "is_hex CHR ''0''" "from_hex CHR ''0'' = 0"
  using hex_digits [of 0] by (simp_all add: hex_lower_def byte_of_def is_hex_def from_hex_def)

lemma short_escapes:
  "esc_char CHR 0x08 = [CHR 0x5C, CHR ''b'']" "esc_char CHR 0x09 = [CHR 0x5C, CHR ''t'']"
  "esc_char CHR 0x0A = [CHR 0x5C, CHR ''n'']" "esc_char CHR 0x0C = [CHR 0x5C, CHR ''f'']"
  "esc_char CHR 0x0D = [CHR 0x5C, CHR ''r'']" "esc_char CHR 0x22 = [CHR 0x5C, CHR 0x22]"
  "esc_char CHR 0x5C = [CHR 0x5C, CHR 0x5C]"
  by code_simp+

text \<open>The cases of the escapes the serializer writes.\<close>

lemma esc_char_cases:
  obtains (short) e where "esc_char c = [CHR 0x5C, e]" "e \<in> set escape_chars" "simple_escape e = [c]"
  | (long) n where "esc_char c = [CHR 0x5C, CHR ''u'', CHR ''0'', CHR ''0'', hex_lower (n div 16), hex_lower (n mod 16)]"
      "n < 0x20" "c = char_of n"
  | (plain) "esc_char c = [c]" "c \<noteq> CHR 0x22" "c \<noteq> CHR 0x5C" "c \<noteq> CHR 0x00"
proof -
  let ?n = "byte_of c"
  have c: "c = char_of ?n" by (simp add: byte_char)
  have e: "c = CHR 0x22 \<longleftrightarrow> ?n = 0x22" "c = CHR 0x5C \<longleftrightarrow> ?n = 0x5C" "c = CHR 0x00 \<longleftrightarrow> ?n = 0"
    "c = CHR 0x08 \<longleftrightarrow> ?n = 8" "c = CHR 0x09 \<longleftrightarrow> ?n = 9" "c = CHR 0x0A \<longleftrightarrow> ?n = 10" "c = CHR 0x0C \<longleftrightarrow> ?n = 12" "c = CHR 0x0D \<longleftrightarrow> ?n = 13"
    by (simp_all add: byte_of_inj [symmetric]) (simp_all add: byte_of_def)
  consider "?n \<in> {8, 9, 10, 12, 13, 0x22, 0x5C}" | "?n \<notin> {8, 9, 10, 12, 13, 0x22, 0x5C}" "?n < 0x20"
    | "?n \<notin> {0x22, 0x5C}" "0x20 \<le> ?n" by fastforce
  then show thesis
  proof cases
    case 1
    then consider "c = CHR 0x08" | "c = CHR 0x09" | "c = CHR 0x0A" | "c = CHR 0x0C" | "c = CHR 0x0D" | "c = CHR 0x22" | "c = CHR 0x5C"
      unfolding e by auto
    then show ?thesis by cases (rule short, simp add: short_escapes, simp add: escape_chars_def, simp add: simple_escape_def)+
  next
    case 2
    then show ?thesis using long [of ?n] c by (simp add: esc_char_def escape_cp_def)
  next
    case 3
    then have "esc_char c = [c]" by (simp add: esc_char_def escape_cp_def)
    then show ?thesis using plain e 3 by simp
  qed
qed

lemma slice_escape: "string_slice esc (esc_char c @ s) = in_slice (esc_char c) (string_slice (esc \<or> esc_char c \<noteq> [c]) s)"
proof (cases c rule: esc_char_cases)
  case (short e)
  then have "e \<noteq> CHR ''u''" by (auto simp: escape_chars_def)
  then show ?thesis using short by simp
next
  case (long n)
  then show ?thesis by (simp add: hex_digits zero_hex)
qed simp

lemma in_slice_Some [simp]: "in_slice p (Some (e, raw, r)) = Some (e, p @ raw, r)"
  by (simp add: in_slice_def)

lemma slice_escaped:
  "string_slice esc (concat (map esc_char s) @ CHR 0x22 # r) =
     Some (esc \<or> (\<exists>c \<in> set s. esc_char c \<noteq> [c]), concat (map esc_char s), r)"
  by (induction s arbitrary: esc) (simp_all add: slice_escape)

lemma unescape_escape: "unescape (esc_char c @ s) = c # unescape s"
proof (cases c rule: esc_char_cases)
  case (short e)
  then have "e \<noteq> CHR ''u''" by (auto simp: escape_chars_def)
  then show ?thesis using short by simp
next
  case (long n)
  then have "hex_code [CHR ''0'', CHR ''0'', hex_lower (n div 16), hex_lower (n mod 16)] = n"
    by (simp add: hex_code_def hex_digits zero_hex)
  then show ?thesis using long by (simp add: code_bytes_def)
qed simp

lemma unescape_escaped: "unescape (concat (map esc_char s)) = s"
  by (induction s) (simp_all add: unescape_escape)

lemma escaped_plain: "\<forall>c \<in> set s. esc_char c = [c] \<Longrightarrow> concat (map esc_char s) = s"
  by (induction s) simp_all

lemma decode_dumped_string:
  assumes "dump_string s = Inr t"
  shows "\<exists>esc raw. decode_string (t @ r) = Some ((esc, raw), r) \<and> crow_text esc raw = s"
  using assms slice_escaped [of False s r] unescape_escaped [of s] escaped_plain [of s]
  by (auto simp: dump_string_spec decode_string_def consume_def cur_def crow_text_def)

section \<open>Integers\<close>

lemma stop_heads:
  "\<not> is_digit CHR '']''" "\<not> is_digit CHR ''}''" "number_row CHR '','' = None" "number_row CHR '']'' = None" "number_row CHR ''}'' = None"
  by code_simp+

lemma delim_cases: "delim r \<Longrightarrow> r = [] \<or> (\<exists>c s. r = c # s \<and> \<not> is_digit c \<and> number_row c = None)"
  by (cases r) (auto simp: delim_def stop_heads)

lemma digits_stop: "delim r \<Longrightarrow> list_all is_digit ds \<Longrightarrow> takeWhile is_digit (ds @ r) = ds"
  using delim_cases [of r] by (auto simp: takeWhile_append list_all_iff)

lemma number_stops: "delim r \<Longrightarrow> st \<in> {2, 3, 4, 6} \<Longrightarrow> number_slice st r = Some ([], r)"
  using delim_cases [of r] by (auto simp: number_end_def)

lemma dec_str_slice:
  assumes "0 \<le> n" and "delim r" and "st \<in> {0, 1}"
  shows "number_slice st (dec_str n @ r) = Some (dec_str n, r)"
proof -
  obtain d ds where d: "dec_str n = d # ds" by (cases "dec_str n") simp_all
  have dig: "is_digit d" "list_all is_digit ds" using dec_str_digits [OF assms(1)] d by simp_all
  show ?thesis
  proof (cases "d = CHR ''0''")
    case True
    then have "dec_str n = ''0''" using dec_str_head [OF assms(1)] d by (simp add: dec_str.simps [of 0])
    then show ?thesis using assms(3) number_stops [OF assms(2), of 2]
      by (auto simp: number_row_def digit_run_def simp del: number_slice.simps(1))
  next
    case False
    then show ?thesis using assms(3) d dig digits_stop [OF assms(2) dig(2)] number_stops [OF assms(2), of 3]
      by (auto simp: number_row_def digit_run_def)
  qed
qed

lemma decode_dumped_int: "delim r \<Longrightarrow> decode_number (dump_integer i @ r) = Some (CNumber (int_str i), r)"
  using dec_str_slice [of "\<bar>i\<bar>" r 0] dec_str_slice [of "\<bar>i\<bar>" r 1]
  by (auto simp: decode_number_def dump_integer_eq int_str_def number_row_def digit_run_def is_digit_def)

section \<open>Values\<close>

text \<open>The members the program's messages are made of: no fractional numbers.\<close>

fun no_floats :: "json \<Rightarrow> bool" where
  "no_floats (JObject es) \<longleftrightarrow> (\<forall>e \<in> set es. no_floats (snd e))"
| "no_floats (JArray xs) \<longleftrightarrow> (\<forall>x \<in> set xs. no_floats x)"
| "no_floats (JFloat _) \<longleftrightarrow> False"
| "no_floats _ \<longleftrightarrow> True"

fun nest :: "json \<Rightarrow> nat" where
  "nest (JObject es) = Suc (Max (insert 0 ((\<lambda>e. nest (snd e)) ` set es)))"
| "nest (JArray xs) = Suc (Max (insert 0 (nest ` set xs)))"
| "nest _ = 0"

text \<open>A value as Crow holds it, every string through \<open>s()\<close>.\<close>

fun crow_of :: "json \<Rightarrow> crow" where
  "crow_of (JObject es) = CObject (map (\<lambda>e. (fst e, crow_of (snd e))) es)"
| "crow_of (JArray xs) = CList (map crow_of xs)"
| "crow_of (JString s) = CString False s"
| "crow_of (JBool b) = (if b then CTrue else CFalse)"
| "crow_of (JInt i) = CNumber (int_str i)"
| "crow_of (JUInt i) = CNumber (int_str i)"
| "crow_of _ = CNull"

fun unescaped :: "crow \<Rightarrow> crow" where
  "unescaped (CString esc raw) = CString False (crow_text esc raw)"
| "unescaped (CList vs) = CList (map unescaped vs)"
| "unescaped (CObject ms) = CObject (map (\<lambda>m. (fst m, unescaped (snd m))) ms)"
| "unescaped c = c"

text \<open>What the depth counter lets through, from depth \<open>d\<close>; every level of nesting takes two.\<close>

definition fits :: "nat \<Rightarrow> json \<Rightarrow> bool" where
  "fits d j \<longleftrightarrow> nest j = 0 \<or> d + 2 * nest j \<le> max_depth + 1"

lemma Max_fits:
  fixes A :: "nat set"
  assumes "finite A"
  shows "d + 2 * Max (insert 0 A) \<le> n \<longleftrightarrow> d \<le> n \<and> (\<forall>a \<in> A. a = 0 \<or> d + 2 * a \<le> n)"
proof -
  have "Max (insert 0 A) = 0 \<or> Max (insert 0 A) \<in> A" using Max_in [of "insert 0 A"] assms by auto
  moreover have "a \<le> Max (insert 0 A)" if "a \<in> A" for a using assms that by simp
  ultimately show ?thesis by fastforce
qed

lemma fits_object: "fits d (JObject es) \<longleftrightarrow> d + 1 \<le> max_depth \<and> (\<forall>e \<in> set es. fits (d + 2) (snd e))"
  using Max_fits [of "(\<lambda>e. nest (snd e)) ` set es" d 9999] by (auto simp: fits_def max_depth_def)

lemma fits_array: "fits d (JArray xs) \<longleftrightarrow> d + 1 \<le> max_depth \<and> (\<forall>x \<in> set xs. fits (d + 2) x)"
  using Max_fits [of "nest ` set xs" d 9999] by (auto simp: fits_def max_depth_def)

text \<open>Reading one value, up to the flags of its strings.\<close>

definition seen :: "(crow \<times> string) option \<Rightarrow> (crow \<times> string) option" where
  "seen = map_option (map_prod unescaped id)"

lemma seen_simps [simp]: "seen None = None" "seen (Some (c, r)) = Some (unescaped c, r)"
  by (simp_all add: seen_def)

lemma dump_heads:
  "\<not> ws_char CHR ''{''" "\<not> ws_char CHR ''[''" "\<not> ws_char CHR 0x22" "\<not> ws_char CHR ''t''" "\<not> ws_char CHR ''f''"
  "\<not> ws_char CHR ''n''" "\<not> ws_char CHR ''-''" "\<not> ws_char CHR '','' " "\<not> ws_char CHR '':''" "\<not> ws_char CHR '']''" "\<not> ws_char CHR ''}''"
  by code_simp+

lemma digit_head: "is_digit c \<Longrightarrow> \<not> ws_char c \<and> c \<notin> {CHR ''['', CHR ''{'', CHR 0x22, CHR ''t'', CHR ''f'', CHR ''n'', CHR '']'', CHR ''}''}"
  by (auto simp: ws_char_def is_digit_def)

text \<open>The text of a value: how it starts, and how it is read when a separator follows.\<close>

definition value_text :: "string \<Rightarrow> bool" where
  "value_text t \<longleftrightarrow> (\<exists>c t'. t = c # t' \<and> \<not> ws_char c \<and> c \<noteq> CHR '']'' \<and> c \<noteq> CHR ''}'')"

definition read_at :: "nat \<Rightarrow> json \<Rightarrow> string \<Rightarrow> bool" where
  "read_at d j t \<longleftrightarrow> value_text t \<and>
     (\<forall>r. delim r \<longrightarrow> seen (decode_value d (t @ r)) = (if fits d j then Some (crow_of j, r) else None))"

lemma value_text_Cons: "value_text (c # t) \<longleftrightarrow> \<not> ws_char c \<and> c \<noteq> CHR '']'' \<and> c \<noteq> CHR ''}''"
  by (simp add: value_text_def)

lemma skip_head: "\<not> ws_char c \<Longrightarrow> ws_skip (c # s) = c # s"
  by (simp add: ws_skip_def)

lemma skip_value: "value_text t \<Longrightarrow> ws_skip (t @ r) = t @ r"
  by (auto simp: value_text_def skip_head)

lemma read_at_cases:
  assumes "read_at d j t" and "delim r"
  obtains (no) "\<not> fits d j" "decode_value d (t @ r) = None"
  | (yes) c where "fits d j" "decode_value d (t @ r) = Some (c, r)" "unescaped c = crow_of j"
  using assms by (cases "decode_value d (t @ r)") (auto simp: read_at_def split: if_splits)

lemma cur_Cons [simp]: "cur (c # s) = c"
  by (simp add: cur_def)

lemma consume_Cons [simp]: "consume c (c' # s) = (if c' = c then Some s else None)"
  by (simp add: consume_def)

lemma separators [simp]: "delim (CHR '','' # s)" "delim (CHR '']'' # s)" "delim (CHR ''}'' # s)" "delim []"
  by (simp_all add: delim_def)

lemma list_loop_reads:
  assumes "list_all2 (\<lambda>x t. read_at (depth + 1) x t) xs ts" and "xs \<noteq> []"
  shows "map_option (map_prod (map unescaped) id) (list_loop depth (join_with '','' ts @ CHR '']'' # r)) =
    (if \<forall>x \<in> set xs. fits (depth + 1) x then Some (map crow_of xs, r) else None)"
  using assms
proof (induction rule: list_all2_induct)
  case (Cons x xs t ts)
  show ?case
  proof (cases ts)
    case Nil
    then have "xs = []" using Cons.hyps by simp
    with Nil show ?thesis
      by (cases rule: read_at_cases [OF Cons.hyps(1), of "CHR '']'' # r"])
        (simp_all add: list_loop.simps skip_head dump_heads)
  next
    case (Cons t2 ts2)
    then have ne: "xs \<noteq> []" and t2: "value_text t2" using Cons.hyps(2) by (auto simp: read_at_def list_all2_Cons2)
    let ?s = "join_with '','' ts @ CHR '']'' # r"
    have skip: "ws_skip ?s = ?s" using t2 Cons by (cases ts2) (simp_all add: skip_value)
    have j: "join_with '','' (t # ts) @ CHR '']'' # r = t @ CHR '','' # ?s" using Cons by simp
    show ?thesis unfolding j
      using Cons.IH [OF ne] skip
      by (cases rule: read_at_cases [OF Cons.hyps(1), of "CHR '','' # ?s"])
        (auto simp: list_loop.simps skip_head dump_heads option.map_comp o_def map_prod_def split: option.splits if_splits prod.splits)
  qed
qed simp

text \<open>A member as the serializer writes it.\<close>

definition member_text :: "nat \<Rightarrow> string \<times> json \<Rightarrow> string \<Rightarrow> bool" where
  "member_text d e t \<longleftrightarrow> (\<exists>k v. dump_string (fst e) = Inr k \<and> t = k @ CHR '':'' # v \<and> read_at d (snd e) v)"

lemma member_text_head: "member_text d e t \<Longrightarrow> value_text t"
  by (auto simp: member_text_def dump_string_spec value_text_Cons dump_heads)

lemma object_loop_reads:
  assumes "list_all2 (member_text (depth + 1)) es ts" and "es \<noteq> []"
  shows "map_option (map_prod (map (\<lambda>m. (fst m, unescaped (snd m)))) id) (object_loop depth (join_with '','' ts @ CHR ''}'' # r)) =
    (if \<forall>e \<in> set es. fits (depth + 1) (snd e) then Some (map (\<lambda>e. (fst e, crow_of (snd e))) es, r) else None)"
  using assms
proof (induction rule: list_all2_induct)
  case (Cons e es t ts)
  from Cons.hyps(1) obtain k v where t: "dump_string (fst e) = Inr k" "t = k @ CHR '':'' # v" "read_at (depth + 1) (snd e) v"
    by (auto simp: member_text_def)
  have v: "ws_skip (v @ r') = v @ r'" for r' using t(3) skip_value by (auto simp: read_at_def)
  have key: "\<exists>esc raw. decode_string (k @ CHR '':'' # v @ r') = Some ((esc, raw), CHR '':'' # v @ r') \<and> crow_text esc raw = fst e" for r'
    using decode_dumped_string [OF t(1)] .
  show ?case
  proof (cases ts)
    case Nil
    then have "es = []" using Cons.hyps by simp
    moreover obtain esc raw where "decode_string (k @ CHR '':'' # v @ CHR ''}'' # r) = Some ((esc, raw), CHR '':'' # v @ CHR ''}'' # r)"
      "crow_text esc raw = fst e" using key by blast
    ultimately show ?thesis using Nil t(2) v
      by (cases rule: read_at_cases [OF t(3), of "CHR ''}'' # r"]) (simp_all add: object_loop.simps skip_head dump_heads)
  next
    case (Cons t2 ts2)
    then have ne: "es \<noteq> []" and t2: "value_text t2" using Cons.hyps(2) member_text_head by (auto simp: list_all2_Cons2)
    let ?s = "join_with '','' ts @ CHR ''}'' # r"
    have skip: "ws_skip ?s = ?s" using t2 Cons by (cases ts2) (simp_all add: skip_value)
    have j: "join_with '','' (t # ts) @ CHR ''}'' # r = k @ CHR '':'' # v @ CHR '','' # ?s" using Cons t(2) by simp
    obtain esc raw where "decode_string (k @ CHR '':'' # v @ CHR '','' # ?s) = Some ((esc, raw), CHR '':'' # v @ CHR '','' # ?s)"
      "crow_text esc raw = fst e" using key by blast
    then show ?thesis unfolding j
      using Cons.IH [OF ne] skip v
      by (cases rule: read_at_cases [OF t(3), of "CHR '','' # ?s"])
        (auto simp: object_loop.simps skip_head dump_heads option.map_comp o_def map_prod_def split: option.splits if_splits prod.splits)
  qed
qed simp

lemma decode_simps:
  "decode_value d (CHR ''['' # s) = decode_list (d + 1) (CHR ''['' # s)"
  "decode_value d (CHR ''{'' # s) = decode_object (d + 1) (CHR ''{'' # s)"
  "decode_value d (CHR 0x22 # s) = map_option (\<lambda>((esc, raw), r). (CString esc raw, r)) (decode_string (CHR 0x22 # s))"
  "decode_value d (CHR ''t'' # s) = word_value ''true'' CTrue (CHR ''t'' # s)"
  "decode_value d (CHR ''f'' # s) = word_value ''false'' CFalse (CHR ''f'' # s)"
  "decode_value d (CHR ''n'' # s) = word_value ''null'' CNull (CHR ''n'' # s)"
  by (simp_all add: decode_value.simps Let_def)

lemma decode_other:
  "c \<notin> {CHR ''['', CHR ''{'', CHR 0x22, CHR ''t'', CHR ''f'', CHR ''n''} \<Longrightarrow> decode_value d (c # s) = decode_number (c # s)"
  by (simp add: decode_value.simps)

lemma seen_eq: "seen x = map_option (map_prod unescaped id) x"
  by (simp add: seen_def)

lemma map_option_nested: "map_option f (map_option g x) = map_option (\<lambda>a. f (g a)) x"
  by (cases x) simp_all

lemma array_read:
  assumes "list_all2 (\<lambda>x t. read_at (d + 2) x t) xs ts"
  shows "read_at d (JArray xs) (dump_elements ts)"
proof -
  have "seen (decode_value d (dump_elements ts @ r)) = (if fits d (JArray xs) then Some (crow_of (JArray xs), r) else None)" for r
  proof (cases "ts = []")
    case True
    then show ?thesis using assms
      by (auto simp: dump_elements_def decode_simps decode_list.simps fits_array skip_head dump_heads)
  next
    case False
    then have xs: "xs \<noteq> []" using assms by auto
    let ?s = "join_with '','' ts @ CHR '']'' # r"
    have l: "list_all2 (\<lambda>x t. read_at (d + 1 + 1) x t) xs ts" using assms by simp
    obtain t ts' where t: "ts = t # ts'" "value_text t" using assms False by (cases ts) (auto simp: read_at_def list_all2_Cons2)
    then have skip: "ws_skip ?s = ?s" "cur ?s \<noteq> CHR '']''"
      by (cases ts'; auto simp: skip_value value_text_def cur_def)+
    show ?thesis using list_loop_reads [OF l xs, of r] skip
      by (simp add: dump_elements_def decode_simps decode_list.simps fits_array seen_eq Let_def split: option.splits if_splits)
       auto
  qed
  then show ?thesis by (simp add: read_at_def dump_elements_def value_text_Cons dump_heads)
qed

lemma object_read:
  assumes "list_all2 (member_text (d + 2)) es ts"
  shows "read_at d (JObject es) (dump_members ts)"
proof -
  have "seen (decode_value d (dump_members ts @ r)) = (if fits d (JObject es) then Some (crow_of (JObject es), r) else None)" for r
  proof (cases "ts = []")
    case True
    then show ?thesis using assms
      by (auto simp: dump_members_def decode_simps decode_object.simps fits_object skip_head dump_heads)
  next
    case False
    then have es: "es \<noteq> []" using assms by auto
    let ?s = "join_with '','' ts @ CHR ''}'' # r"
    have l: "list_all2 (member_text (d + 1 + 1)) es ts" using assms by simp
    obtain t ts' where t: "ts = t # ts'" "value_text t"
      using assms False member_text_head by (cases ts) (auto simp: list_all2_Cons2)
    then have skip: "ws_skip ?s = ?s" "cur ?s \<noteq> CHR ''}''"
      by (cases ts'; auto simp: skip_value value_text_def cur_def)+
    show ?thesis using object_loop_reads [OF l es, of r] skip
      by (simp add: dump_members_def decode_simps decode_object.simps fits_object seen_eq Let_def split: option.splits if_splits)
       auto
  qed
  then show ?thesis by (simp add: read_at_def dump_members_def value_text_Cons dump_heads)
qed

lemma fits_scalar: "nest j = 0 \<Longrightarrow> fits d j"
  by (simp add: fits_def)

lemma string_read:
  assumes "dump_string s = Inr t"
  shows "read_at d (JString s) t"
proof -
  have "seen (decode_value d (t @ r)) = Some (CString False s, r)" for r
  proof -
    obtain t' where t: "t = CHR 0x22 # t'" using assms by (auto simp: dump_string_spec)
    obtain esc raw where "decode_string (t @ r) = Some ((esc, raw), r)" "crow_text esc raw = s"
      using decode_dumped_string [OF assms] by blast
    then show ?thesis using t by (simp add: decode_simps)
  qed
  moreover have "value_text t" using assms by (auto simp: dump_string_spec value_text_Cons dump_heads)
  ultimately show ?thesis by (simp add: read_at_def fits_scalar)
qed

lemma int_read: "seen (decode_value d (dump_integer i @ r)) = Some (CNumber (int_str i), r) \<and> value_text (dump_integer i)" if "delim r"
proof -
  obtain c s where s: "dump_integer i = c # s" "c = CHR ''-'' \<or> is_digit c"
    using dec_str_digits [of "\<bar>i\<bar>"] by (cases "i < 0"; cases "dec_str \<bar>i\<bar>") (auto simp: dump_integer_eq int_str_def)
  have "decode_value d (dump_integer i @ r) = decode_number (dump_integer i @ r)"
    unfolding s(1) append_Cons using s(2) digit_head [of c] by (intro decode_other) auto
  then have "seen (decode_value d (dump_integer i @ r)) = Some (CNumber (int_str i), r)"
    by (simp only: decode_dumped_int [OF that, of i]) simp
  moreover have "value_text (dump_integer i)" using s digit_head [of c] dump_heads(7) by (auto simp: value_text_Cons)
  ultimately show ?thesis ..
qed

lemma dump_read: "dump ft j = Inr t \<Longrightarrow> no_floats j \<Longrightarrow> read_at d j t"
proof (induction ft j arbitrary: d t rule: dump.induct)
  case (1 ft es)
  then obtain ts where ts: "t = dump_members ts"
    "list_all2 (\<lambda>e p. bindE (dump_string (fst e)) (\<lambda>k. bindE (dump ft (snd e)) (\<lambda>v. Inr (k @ '':'' @ v))) = Inr p) es ts"
    by (auto simp: bindE_eq_Inr mapE_eq_Inr)
  have "list_all2 (member_text (d + 2)) es ts"
    using ts(2) 1(1) 1(3) by (auto simp: bindE_eq_Inr member_text_def elim!: list.rel_mono_strong)
  then show ?case unfolding ts(1) by (rule object_read)
next
  case (2 ft xs)
  then obtain ts where ts: "t = dump_elements ts" "list_all2 (\<lambda>x p. dump ft x = Inr p) xs ts"
    by (auto simp: bindE_eq_Inr mapE_eq_Inr)
  have "list_all2 (\<lambda>x t. read_at (d + 2) x t) xs ts"
    using ts(2) 2(1) 2(3) by (auto elim!: list.rel_mono_strong)
  then show ?case unfolding ts(1) by (rule array_read)
next
  case (3 ft s)
  then show ?case using string_read by simp
next
  case (5 ft i)
  then show ?case using int_read [of _ d i] int_read [of "[]" d i] by (auto simp: read_at_def fits_scalar)
next
  case (6 ft i)
  then show ?case using int_read [of _ d i] int_read [of "[]" d i] by (auto simp: read_at_def fits_scalar)
qed (auto simp: read_at_def fits_scalar value_text_Cons dump_heads decode_simps word_value_def)

lemma ws_nil [simp]: "ws_skip [] = []"
  by (simp add: ws_skip_def)

lemma load_reads:
  assumes "read_at 0 j t"
  shows "map_option unescaped (crow_load t) = (if nest j \<le> 5000 then Some (crow_of j) else None)"
proof -
  have s: "ws_skip t = t" using assms skip_value [of t "[]"] by (simp add: read_at_def)
  have "fits 0 j \<longleftrightarrow> nest j \<le> 5000" by (auto simp: fits_def max_depth_def)
  then show ?thesis
    by (cases rule: read_at_cases [OF assms, of "[]"]) (simp_all add: crow_load_def s cur_def)
qed


fun nested_arrays :: "nat \<Rightarrow> json" where
  "nested_arrays 0 = JNull"
| "nested_arrays (Suc n) = JArray [nested_arrays n]"

lemma nested_arrays: "nest (nested_arrays n) = n" "no_floats (nested_arrays n)" "json_utf8 (nested_arrays n)"
  by (induction n) simp_all

definition quoted_note :: json where
  "quoted_note = JObject [(''n'', JInt (- 20)), (''text'', JString [CHR 0x22, CHR 0x5C, CHR 0x0A, CHR 0x01])]"


section \<open>Members\<close>

lemma key_less_order: "\<not> key_less a a" "key_less a b \<Longrightarrow> \<not> key_less b a" "a = b \<or> key_less a b \<or> key_less b a"
  "\<not> key_less b a \<Longrightarrow> key_less k a \<Longrightarrow> key_less k b"
proof -
  have "x = y" if "schar x = schar y" for x y
    using that byte_of_less [of x] byte_of_less [of y]
    by (auto simp: schar_def Let_def byte_of_inj [symmetric] simp del: byte_of_less split: if_splits)
  then have "inj schar" by (simp add: inj_def)
  then have i: "map schar a = map schar b \<longleftrightarrow> a = b" by (simp add: inj_map_eq_map)
  show "\<not> key_less a a" "key_less a b \<Longrightarrow> \<not> key_less b a" "a = b \<or> key_less a b \<or> key_less b a"
    "\<not> key_less b a \<Longrightarrow> key_less k a \<Longrightarrow> key_less k b"
    using i by (auto simp: key_less_def)
qed

text \<open>The lookup in a sorted range finds the first member with the key.\<close>

lemma find_member_first:
  "sorted_wrt (\<lambda>a b. \<not> key_less (fst b) (fst a)) ms \<Longrightarrow> find_member key ms = map_of ms key"
proof (induction ms)
  case Nil
  then show ?case by (simp add: find_member_def lower_bound_def)
next
  case (Cons m ms)
  show ?case
  proof (cases "key_less (fst m) key")
    case True
    then have "fst m \<noteq> key" "find_member key (m # ms) = find_member key ms"
      using key_less_order(1) by (auto simp: find_member_def lower_bound_def)
    then show ?thesis using Cons by (cases m) simp
  next
    case False
    then have "find_member key (m # ms) = (if fst m = key then Some (snd m) else None)"
      by (simp add: find_member_def lower_bound_def)
    moreover have "map_of ms key = None" if "fst m \<noteq> key"
    proof -
      have "key_less key (fst m)" using that False key_less_order(3) by blast
      then have "key_less key (fst x)" if "x \<in> set ms" for x using that Cons.prems key_less_order(4) by auto
      then show ?thesis using key_less_order(1) by (auto simp: map_of_eq_None_iff)
    qed
    ultimately show ?thesis by (cases m) simp
  qed
qed

context member_sort
begin

lemma find_member_srt: "find_member key (srt ms) = map_of (srt ms) key"
  using find_member_first [OF in_order] .

lemma find_member_distinct:
  assumes "distinct (map fst ms)"
  shows "find_member key (srt ms) = map_of ms key"
proof -
  have "map_of (srt ms) = map_of ms" using assms distinct_srt [of ms] map_of_inject_set [of "srt ms" ms] by simp
  then show ?thesis by (simp add: find_member_srt)
qed

end

end
