(* ===== verification/CrowBounds.thy ===== *)
theory CrowBounds
  imports CrowRoundtrip
begin

text \<open>
  What holds of every value \<open>crow::json::load\<close> returns, whatever bytes a client sends: its nesting
  is bounded by the depth counter, and unescaping any of its strings in place stays inside the
  slice of the buffer it was read from.
\<close>

section \<open>Bounds of what is read\<close>

fun crow_nest :: "crow \<Rightarrow> nat" where
  "crow_nest (CObject ms) = Suc (Max (insert 0 ((\<lambda>m. crow_nest (snd m)) ` set ms)))"
| "crow_nest (CList vs) = Suc (Max (insert 0 (crow_nest ` set vs)))"
| "crow_nest _ = 0"

text \<open>The slices of a value, with their flags.\<close>

fun slices :: "crow \<Rightarrow> (bool \<times> string) list" where
  "slices (CObject ms) = concat (map (\<lambda>m. slices (snd m)) ms)"
| "slices (CList vs) = concat (map slices vs)"
| "slices (CString esc raw) = [(esc, raw)]"
| "slices _ = []"

lemma code_bytes_short: "length (code_bytes n) \<le> 3"
  by (simp add: code_bytes_def)

text \<open>\<open>unescape\<close> writes behind the byte it reads: what it leaves is no longer than the slice.\<close>

lemma slice_unescaped: "string_slice esc s = Some (esc', raw, r) \<Longrightarrow> length (unescape raw) \<le> length raw"
proof (induction esc s arbitrary: esc' raw r rule: string_slice.induct)
  case (2 esc c s)
  show ?case
  proof (cases "c = CHR 0x5C")
    case False
    then show ?thesis using 2 by (auto simp: in_slice_def split: if_splits)
  next
    case True
    then obtain e s' where s: "s = e # s'" using 2(4) by (auto split: list.splits)
    show ?thesis
    proof (cases "e = CHR ''u''")
      case u: True
      then obtain raw' where raw: "raw = c # e # take 4 s' @ raw'" "length (unescape raw') \<le> length raw'" "length (take 4 s') = 4"
        using 2(4) 2(2) s True by (fastforce simp: in_slice_def split: if_splits)
      then show ?thesis using u True code_bytes_short [of "hex_code (take 4 s')"] by simp
    next
      case False
      then obtain raw' where raw: "raw = c # e # raw'" "length (unescape raw') \<le> length raw'" "e \<in> set escape_chars"
        using 2(4) 2(3) s True by (fastforce simp: in_slice_def split: if_splits)
      then show ?thesis using False True by (auto simp: simple_escape_def)
    qed
  qed
qed simp

lemma string_unescaped: "decode_string s = Some ((esc, raw), r) \<Longrightarrow> length (crow_text esc raw) \<le> length raw"
  using slice_unescaped by (auto simp: decode_string_def crow_text_def split: option.splits)

definition read_bounds :: "nat \<Rightarrow> crow \<Rightarrow> bool" where
  "read_bounds d c \<longleftrightarrow> (crow_nest c = 0 \<or> d + 2 * crow_nest c \<le> max_depth + 1) \<and>
     (\<forall>(esc, raw) \<in> set (slices c). length (crow_text esc raw) \<le> length raw)"

lemma read_bounds_list: "d < max_depth \<Longrightarrow> \<forall>v \<in> set vs. read_bounds (d + 2) v \<Longrightarrow> read_bounds d (CList vs)"
  using Max_fits [of "crow_nest ` set vs" d 9999] by (fastforce simp: read_bounds_def max_depth_def)

lemma read_bounds_object: "d < max_depth \<Longrightarrow> \<forall>m \<in> set ms. read_bounds (d + 2) (snd m) \<Longrightarrow> read_bounds d (CObject ms)"
  using Max_fits [of "(\<lambda>m. crow_nest (snd m)) ` set ms" d 9999] by (fastforce simp: read_bounds_def max_depth_def)

lemma read_bounds_scalar: "slices c = [] \<Longrightarrow> crow_nest c = 0 \<Longrightarrow> read_bounds d c"
  by (simp add: read_bounds_def)

lemma decode_bounds:
  "\<forall>v r. decode_value d s = Some (v, r) \<longrightarrow> read_bounds d v"
  "\<forall>v r. 0 < d \<longrightarrow> decode_list d s = Some (v, r) \<longrightarrow> read_bounds (d - 1) v"
  "\<forall>vs r. list_loop d s = Some (vs, r) \<longrightarrow> (\<forall>v \<in> set vs. read_bounds (d + 1) v)"
  "\<forall>v r. 0 < d \<longrightarrow> decode_object d s = Some (v, r) \<longrightarrow> read_bounds (d - 1) v"
  "\<forall>es r. object_loop d s = Some (es, r) \<longrightarrow> (\<forall>e \<in> set es. read_bounds (d + 1) (snd e))"
proof (induction d s and d s and d s and d s and d s
    rule: decode_value_decode_list_list_loop_decode_object_object_loop.induct)
  case (1 d s)
  then show ?case
    by (auto simp: decode_value.simps Let_def word_value_def decode_number_def read_bounds_scalar read_bounds_def
        dest: string_unescaped split: if_splits)
next
  case IH: (2 d s)
  show ?case
  proof (intro allI impI)
    fix v r assume d: "0 < d" "decode_list d s = Some (v, r)"
    then obtain s1 where c: "consume (CHR ''['') s = Some s1" and m: "\<not> max_depth < d"
      by (auto simp: decode_list.simps split: option.splits if_splits)
    consider "v = CList []" | xs r' where "v = CList xs" "cur (ws_skip s1) \<noteq> CHR '']''" "list_loop d (ws_skip s1) = Some (xs, r')"
      using d(2) c m by (auto simp: decode_list.simps Let_def split: if_splits)
    then have "\<exists>xs. v = CList xs \<and> (\<forall>v \<in> set xs. read_bounds (d + 1) (v))"
    proof cases
      case 2
      then show ?thesis using IH [OF c m refl 2(2)] by blast
    qed simp
    moreover have "d + 1 = d - 1 + 2" "d - 1 < max_depth" using d(1) m by simp_all
    ultimately show "read_bounds (d - 1) v" using read_bounds_list [of "d - 1"] by metis
  qed
next
  case (3 d s)
  show ?case
  proof (intro allI impI)
    fix vs r assume l: "list_loop d s = Some (vs, r)"
    then obtain v r0 where v: "decode_value (d + 1) s = Some (v, r0)"
      by (auto simp: list_loop.simps split: option.splits)
    then have b: "read_bounds (d + 1) v" using 3(1) by blast
    consider "vs = [v]" | r2 vs' where "vs = v # vs'" "cur (ws_skip r0) \<noteq> CHR '']''"
        "consume (CHR '','') (ws_skip r0) = Some r2" "list_loop d (ws_skip r2) = Some (vs', r)"
      using l v by (auto simp: list_loop.simps Let_def split: option.splits if_splits)
    then show "\<forall>v \<in> set vs. read_bounds (d + 1) v"
    proof cases
      case 2
      then show ?thesis using 3(2) [OF v refl refl 2(2,3)] b by auto
    qed (use b in simp)
  qed
next
  case IH: (4 d s)
  show ?case
  proof (intro allI impI)
    fix v r assume d: "0 < d" "decode_object d s = Some (v, r)"
    then obtain s1 where c: "consume (CHR ''{'') s = Some s1" and m: "\<not> max_depth < d"
      by (auto simp: decode_object.simps split: option.splits if_splits)
    consider "v = CObject []" | xs r' where "v = CObject xs" "cur (ws_skip s1) \<noteq> CHR ''}''" "object_loop d (ws_skip s1) = Some (xs, r')"
      using d(2) c m by (auto simp: decode_object.simps Let_def split: if_splits)
    then have "\<exists>xs. v = CObject xs \<and> (\<forall>m \<in> set xs. read_bounds (d + 1) (snd m))"
    proof cases
      case 2
      then show ?thesis using IH [OF c m refl 2(2)] by blast
    qed simp
    moreover have "d + 1 = d - 1 + 2" "d - 1 < max_depth" using d(1) m by simp_all
    ultimately show "read_bounds (d - 1) v" using read_bounds_object [of "d - 1"] by metis
  qed
next
  case (5 d s)
  show ?case
  proof (intro allI impI)
    fix es r assume l: "object_loop d s = Some (es, r)"
    then obtain esc raw r0 r1 v r2 where k: "decode_string s = Some ((esc, raw), r0)"
      and c: "consume (CHR '':'') (ws_skip r0) = Some r1" and v: "decode_value (d + 1) (ws_skip r1) = Some (v, r2)"
      by (auto simp: object_loop.simps split: option.splits)
    have b: "read_bounds (d + 1) v" using 5(1) [OF k refl refl c] v by blast
    let ?e = "(crow_text esc raw, v)"
    consider "es = [?e]" | r4 es' where "es = ?e # es'" "cur (ws_skip r2) \<noteq> CHR ''}''"
        "consume (CHR '','') (ws_skip r2) = Some r4" "object_loop d (ws_skip r4) = Some (es', r)"
      using l k c v by (auto simp: object_loop.simps Let_def split: option.splits if_splits)
    then show "\<forall>e \<in> set es. read_bounds (d + 1) (snd e)"
    proof cases
      case 2
      then show ?thesis using 5(2) [OF k refl refl c v refl refl refl 2(2,3)] b by auto
    qed (use b in simp)
  qed
qed

text \<open>
  Property C23. Whatever bytes a client sends, a value Crow accepts is nested at most 5000 levels
  deep, so the recursion of the parser and of the destructor is bounded; and \<open>unescape\<close>, which
  rewrites a string inside the receive buffer, never writes past the end of its slice.
\<close>

theorem crow_load_bounds:
  assumes "crow_load data = Some c"
  shows "crow_nest c \<le> 5000 \<and> (\<forall>(esc, raw) \<in> set (slices c). length (crow_text esc raw) \<le> length raw)"
proof -
  obtain r where "decode_value 0 (ws_skip data) = Some (c, r)"
    using assms by (auto simp: crow_load_def split: option.splits if_splits)
  then show ?thesis using decode_bounds(1) by (fastforce simp: read_bounds_def max_depth_def)
qed

theorem crow_load_bounds_witness:
  "\<exists>c. crow_load ('' ['' @ [CHR 0x22, CHR 0x5C, CHR ''n'', CHR 0x22] @ '', {}]'') = Some c \<and> crow_nest c \<le> 5000 \<and>
     slices c = [(True, [CHR 0x5C, CHR ''n''])] \<and> length (crow_text True [CHR 0x5C, CHR ''n'']) \<le> 2"
proof -
  have l: "crow_load ('' ['' @ [CHR 0x22, CHR 0x5C, CHR ''n'', CHR 0x22] @ '', {}]'') =
      Some (CList [CString True [CHR 0x5C, CHR ''n''], CObject []])"
    by code_simp
  then show ?thesis using crow_load_bounds [OF l] by simp
qed

end
