(* ===== verification/Gateway.thy ===== *)
theory Gateway
  imports PipelineRuns CrowBounds
begin

text \<open>
  backend/src/main.cpp: configuration from the environment, the choice of the extractor, the
  startup of the pipeline and the three handlers of a WebSocket connection. The environment and
  the file system are parameters, as is the order \<open>std::sort\<close> gives the members of a message; a
  connection is its user data (the session id) and the texts sent on it. Static files and the
  command line are left to Crow.
\<close>

section \<open>Configuration\<close>

type_synonym environment = "string \<Rightarrow> string option"

definition getEnv :: "environment \<Rightarrow> string \<Rightarrow> string \<Rightarrow> string" where
  "getEnv env key fallback = (case env key of Some v \<Rightarrow> if v \<noteq> [] then v else fallback | None \<Rightarrow> fallback)"

text \<open>\<open>std::atoi\<close>; the behaviour is undefined when the number does not fit an \<open>int\<close> (\<open>None\<close>).\<close>

definition atoi :: "string \<Rightarrow> int option" where
  "atoi s =
     (let s1 = dropWhile is_space s;
          neg = (s1 \<noteq> [] \<and> hd s1 = CHR ''-'');
          s2 = (if s1 \<noteq> [] \<and> (hd s1 = CHR ''-'' \<or> hd s1 = CHR ''+'') then tl s1 else s1);
          n = digits_val 0 (takeWhile is_digit s2); v = (if neg then - n else n) in
      if - int_max - 1 \<le> v \<and> v \<le> int_max then Some v else None)"

definition getEnvInt :: "environment \<Rightarrow> string \<Rightarrow> int \<Rightarrow> int option" where
  "getEnvInt env key fallback =
     (case env key of Some v \<Rightarrow> if v \<noteq> [] then atoi v else Some fallback | None \<Rightarrow> Some fallback)"

definition readFileText :: "(string \<Rightarrow> string option) \<Rightarrow> string \<Rightarrow> string result" where
  "readFileText files file_path =
     (case files file_path of
        None \<Rightarrow> Inl (Runtime_error (''cannot open file: '' @ file_path))
      | Some content \<Rightarrow> Inr content)"

section \<open>Extractor selection\<close>

datatype extractor_choice = Live GeminiClient | Mock

definition placeholder_key :: string where
  "placeholder_key = ''your_google_ai_studio_api_key_here''"

definition makeExtractor :: "environment \<Rightarrow> (string \<Rightarrow> string option) \<Rightarrow> extractor_choice result" where
  "makeExtractor env files =
     (let mode = getEnv env ''AI_MODE'' ''mock'';
          schemaPath = getEnv env ''GEMINI_SCHEMA_PATH'' ''./config/gemini_schema.json'' in
      bindE (readFileText files schemaPath) (\<lambda>schemaJson.
      if mode = ''live'' then
        (let key = getEnv env ''GEMINI_API_KEY'' [] in
         if key = [] then
           Inl (Runtime_error (''AI_MODE=live requires GEMINI_API_KEY; '' @ ''set it in the environment or .env''))
         else
           (let model = getEnv env ''GEMINI_MODEL'' ''gemini-2.5-pro'' in
            if key = placeholder_key then
              Inl (Runtime_error (''GEMINI_API_KEY is the default placeholder; replace it '' @
                ''with a real key or set AI_MODE=mock''))
            else bindE (makeGemini key model True schemaJson 60) (\<lambda>g. Inr (Live g))))
      else Inr Mock))"

text \<open>\<open>extractFromBuffer\<close> of the chosen extractor.\<close>

fun extract_with :: "(dbl \<Rightarrow> string) \<Rightarrow> post \<Rightarrow> extractor_choice \<Rightarrow> extractor" where
  "extract_with ft post (Live g) = geminiExtract ft g post"
| "extract_with ft post Mock = mockExtract buildDefaultDocument"

text \<open>The pipeline of \<open>main\<close>; an exception ends the program with exit code 1.\<close>

definition startup ::
  "environment \<Rightarrow> (string \<Rightarrow> string option) \<Rightarrow> string option \<Rightarrow> string option \<Rightarrow> (string \<Rightarrow> db option) \<Rightarrow>
     (extractor_choice \<times> Pipeline) result" where
  "startup env files open_fault schema_fault stored =
     bindE (makeExtractor env files) (\<lambda>x.
     let rules_path = getEnv env ''RULES_CONFIG_PATH'' ''./config/rules_2026.json'';
         db_path = getEnv env ''DATABASE_PATH'' ''./database/tax_sessions.db'' in
     bindE (makePipeline rules_path (files rules_path) open_fault schema_fault db_path (stored db_path)) (\<lambda>p.
     Inr (x, p)))"

section \<open>Connections\<close>

record socket =
  pipeline :: Pipeline
  userdata :: "string option"
  sent :: "string list"

type_synonym 'a handler = "(socket, 'a) op"

definition on_pipeline :: "'a pipe \<Rightarrow> 'a handler" where
  "on_pipeline m g = (case m (pipeline g) of (r, p) \<Rightarrow> (r, g\<lparr>pipeline := p\<rparr>))"

text \<open>\<open>conn.send_text(j.dump())\<close>.\<close>

definition send_json :: "(dbl \<Rightarrow> string) \<Rightarrow> json \<Rightarrow> unit handler" where
  "send_json ft j = bindD (liftD (dump ft j)) (\<lambda>t. modifyD (\<lambda>g. g\<lparr>sent := sent g @ [t]\<rparr>))"

definition sessionInitFrame :: "string \<Rightarrow> json" where
  "sessionInitFrame sessionId = mk_object [(''type'', JString ''SESSION_INIT''), (''session_id'', JString sessionId)]"

definition errorChat :: "string \<Rightarrow> json" where
  "errorChat content = mk_object
     [(''type'', JString ''CHAT_MESSAGE''), (''role'', JString ''assistant''), (''content'', JString content)]"

definition onopen :: "(dbl \<Rightarrow> string) \<Rightarrow> sqlite \<Rightarrow> (nat \<Rightarrow> 64 word) \<Rightarrow> unit handler" where
  "onopen ft q gen =
     catchD
       (bindD (on_pipeline (openSession q gen)) (\<lambda>sessionId.
        bindD (modifyD (userdata_update (\<lambda>_. Some sessionId))) (\<lambda>_.
        send_json ft (sessionInitFrame sessionId))))
       (\<lambda>e. send_json ft (errorChat (''Failed to open session: '' @ c_str (what e))))"

text \<open>\<open>strOrEmpty\<close>, and the same with another default for \<open>mime_type\<close>.\<close>

type_synonym loose_has = "crow list \<Rightarrow> string \<Rightarrow> bool"

definition str_or :: "(members \<Rightarrow> members) \<Rightarrow> loose_has \<Rightarrow> crow \<Rightarrow> string \<Rightarrow> string \<Rightarrow> string result" where
  "str_or srt loose msg key fallback =
     bindE (crow_has srt loose msg key) (\<lambda>h.
     if \<not> h then Inr fallback
     else bindE (crow_index srt msg key) (\<lambda>v.
       Inr (case v of CString has_escaping raw \<Rightarrow> crow_text has_escaping raw | _ \<Rightarrow> fallback)))"

text \<open>The body of the \<open>try\<close>: \<open>None\<close> when the handler has answered and returned inside it.\<close>

definition dispatch ::
  "(dbl \<Rightarrow> string) \<Rightarrow> sqlite \<Rightarrow> extractor \<Rightarrow> (members \<Rightarrow> members) \<Rightarrow> loose_has \<Rightarrow> string \<Rightarrow> crow \<Rightarrow>
     PipelineResult option handler" where
  "dispatch ft q extr srt loose sid msg =
     bindD (liftD (str_or srt loose msg ''type'' [])) (\<lambda>ty.
     if ty = ''UPLOAD_INVOICE'' then
       bindD (liftD (str_or srt loose msg ''payload'' [])) (\<lambda>payload.
       bindD (liftD (str_or srt loose msg ''mime_type'' ''application/octet-stream'')) (\<lambda>mime.
       bindD (on_pipeline (processUpload ft q extr sid payload mime)) (\<lambda>r. liftD (Inr (Some r)))))
     else if ty = ''USER_REPLY'' then
       bindD (liftD (str_or srt loose msg ''text'' [])) (\<lambda>t.
       bindD (on_pipeline (processUserReply q sid t)) (\<lambda>r. liftD (Inr (Some r))))
     else if ty = ''REQUEST_FILING'' then
       bindD (on_pipeline (requestFiling q sid)) (\<lambda>r. liftD (Inr (Some r)))
     else
       bindD (send_json ft (errorChat (''Unrecognized message type '' @ [CHR 0x27] @ ty @ [CHR 0x27] @ ''.''))) (\<lambda>_.
       liftD (Inr None)))"

definition onmessage ::
  "(dbl \<Rightarrow> string) \<Rightarrow> sqlite \<Rightarrow> extractor \<Rightarrow> (members \<Rightarrow> members) \<Rightarrow> loose_has \<Rightarrow> string \<Rightarrow> unit handler" where
  "onmessage ft q extr srt loose data g =
     (case userdata g of
        None \<Rightarrow> send_json ft (errorChat (''No session is bound to this socket. '' @
                 ''Reconnect to /ws to start a new session.'')) g
      | Some sid \<Rightarrow> (case crow_load data of
          None \<Rightarrow> send_json ft (errorChat ''Message is not valid JSON.'') g
        | Some msg \<Rightarrow>
            bindD (catchD (dispatch ft q extr srt loose sid msg) (\<lambda>e.
              bindD (send_json ft (errorChat (''Server error: '' @ c_str (what e)))) (\<lambda>_. liftD (Inr None)))) (\<lambda>result.
            case result of
              None \<Rightarrow> liftD (Inr ())
            | Some r \<Rightarrow> foreachD (send_json ft) (pr_frames r)) g))"

definition onclose :: "sqlite \<Rightarrow> unit handler" where
  "onclose q g =
     (case userdata g of
        None \<Rightarrow> (Inr (), g)
      | Some sid \<Rightarrow>
          bindD (on_pipeline (closeSession q sid)) (\<lambda>_. modifyD (userdata_update (\<lambda>_. None))) g)"

section \<open>What can escape a handler\<close>

lemma send_json_error: "send_json ft j g = (Inl e, g') \<Longrightarrow> utf8_error e"
  using dump_fails [of ft j]
  by (auto simp: send_json_def bindD_eq_Inl modifyD_def fails_with_def)

lemma send_all_error: "foreachD (send_json ft) js g = (Inl e, g') \<Longrightarrow> utf8_error e"
  by (induction js arbitrary: g) (auto simp: bindD_eq_Inl dest: send_json_error)

lemma onmessage_error: "onmessage ft q extr srt loose data g = (Inl e, g') \<Longrightarrow> utf8_error e"
  by (auto simp: onmessage_def bindD_eq_Inl catchD_def dest: send_json_error send_all_error
      split: option.splits sum.splits prod.splits)

lemma onopen_error: "onopen ft q gen g = (Inl e, g') \<Longrightarrow> utf8_error e"
  by (auto simp: onopen_def catchD_def dest: send_json_error split: sum.splits prod.splits)

section \<open>A preview that cuts a character\<close>

lemma utf8_next_valid: "st \<in> {0, 2, 3, 4, 5, 6, 7, 8} \<Longrightarrow> utf8_next st b \<in> {0, 1, 2, 3, 4, 5, 6, 7, 8}"
  by (elim insertE) (simp_all add: utf8_next_0 utf8_next_rest)

text \<open>A byte that continues no character can only follow a complete one.\<close>

lemma utf8_run_cut:
  assumes "b < 0x80 \<or> 0xC0 \<le> b"
  shows "st \<in> {0, 2, 3, 4, 5, 6, 7, 8} \<Longrightarrow> utf8_run st (a @ b # r) \<Longrightarrow> utf8_run st a"
proof (induction a arbitrary: st)
  case Nil
  then have "utf8_next st b \<noteq> 1" by simp
  then show ?case using Nil.prems(1) assms by (auto simp: utf8_next_rest split: if_splits)
next
  case (Cons c a)
  then show ?case using utf8_next_valid [of st c] by simp
qed

lemma utf8_run_concat: "list_all scalar_value cps \<Longrightarrow> utf8_run 0 (concat (map utf8_encode cps) @ bs) = utf8_run 0 bs"
  by (induction cps) (simp_all add: utf8_run_encode)

lemma well_formed_suffix: "well_formed_utf8 a \<Longrightarrow> well_formed_utf8 (a @ b) \<longleftrightarrow> well_formed_utf8 b"
  using utf8_run_concat by (auto simp: well_formed_utf8_run [of "a @ b"] well_formed_utf8_run [of b] well_formed_utf8_def [of a])

lemma well_formed_cut:
  "well_formed_utf8 (a @ c # r) \<Longrightarrow> byte_of c < 0x80 \<or> 0xC0 \<le> byte_of c \<Longrightarrow> well_formed_utf8 a"
  using utf8_run_cut [of "byte_of c" 0 "map byte_of a" "map byte_of r"] by (simp add: well_formed_utf8_run)

definition reply_head :: string where
  "reply_head = ''Your note was recorded. In the current extractor-seam phase your reply '' @
     ''is archived for the conversation'' @ [CHR 0x27] @ ''s rolling abstract; the live Gemini chat '' @
     ''loop (Step G) will apply such corrections to the stored invoice. Reply '' @
     ''again, or request the filing once the details are settled.'' @ LF @ LF @ open_quote"

lemma reply_head_utf8: "well_formed_utf8 reply_head"
  by (simp add: reply_head_def LF_def open_quote_def well_formed_utf8_run utf8_next_0 utf8_next_rest byte_of_def)

text \<open>The part of a reply its confirmation quotes.\<close>

definition quoted_part :: "string \<Rightarrow> string" where
  "quoted_part t = (if 240 < length t then take 240 t else t)"

lemma reply_ack_cut: "well_formed_utf8 (reply_ack t) \<Longrightarrow> well_formed_utf8 (quoted_part t)"
proof -
  let ?tail = "if 240 < length t then [CHR 0x80, CHR 0xA6] @ close_quote else tl close_quote"
  have "reply_ack t = reply_head @ reply_preview t @ close_quote" by (simp add: reply_ack_def reply_head_def)
  moreover have "reply_preview t @ close_quote = quoted_part t @ CHR 0xE2 # ?tail"
    by (simp add: reply_preview_def quoted_part_def ellipsis_def close_quote_def)
  moreover assume "well_formed_utf8 (reply_ack t)"
  ultimately have "well_formed_utf8 (quoted_part t @ CHR 0xE2 # ?tail)"
    using well_formed_suffix [OF reply_head_utf8] by metis
  then show ?thesis by (rule well_formed_cut) (simp add: byte_of_def)
qed

lemma processUserReply_healthy:
  assumes "healthy q" and "sessions p sid = Some st" and "message_seq (repo p) + 2 \<le> i64_max"
  shows "\<exists>p'. processUserReply q sid t p = (Inr \<lparr>pr_frames = [chatFrame ''assistant'' (reply_ack t) []],
      pr_session_status = sessionStatusToString (ss_status st)\<rparr>, p') \<and> message_seq (repo p') = message_seq (repo p) + 2"
proof -
  obtain d1 where 1: "addChatMessage q sid ''user'' t [] (repo p) = (Inr (), d1)" "message_seq d1 = message_seq (repo p) + 1"
    using addChatMessage_healthy [OF assms(1), of "''user''" sid t "[]" "repo p"] assms(3) by (auto simp: roles_def)
  obtain d2 where "addChatMessage q sid ''assistant'' (reply_ack t) [] d1 = (Inr (), d2)" "message_seq d2 = message_seq (repo p) + 2"
    using addChatMessage_healthy [OF assms(1), of "''assistant''" sid "reply_ack t" "[]" d1] assms(3) 1(2) by (auto simp: roles_def)
  then show ?thesis using 1 assms(2) by (simp add: processUserReply_def bindD_def on_repo_def liftD_def)
qed

lemma chatFrame_utf8: "json_utf8 (chatFrame ''assistant'' content []) \<longleftrightarrow> well_formed_utf8 content"
  by (simp add: chatFrame_def mk_object_def well_formed_utf8_run [of "''type''"] well_formed_utf8_run [of "''role''"]
      well_formed_utf8_run [of "''content''"] well_formed_utf8_run [of "''CHAT_MESSAGE''"]
      well_formed_utf8_run [of "''assistant''"] utf8_next_0 byte_of_def)

section \<open>The protocol\<close>

text \<open>A member of a message as text, and the pipeline call the message stands for.\<close>

definition json_text :: "json \<Rightarrow> string \<Rightarrow> string \<Rightarrow> string" where
  "json_text j key fallback = (case jfind j key of Some (JString s) \<Rightarrow> s | _ \<Rightarrow> fallback)"

definition requested :: "(dbl \<Rightarrow> string) \<Rightarrow> sqlite \<Rightarrow> extractor \<Rightarrow> string \<Rightarrow> json \<Rightarrow> PipelineResult pipe option" where
  "requested ft q extr sid j =
     (let ty = json_text j ''type'' [] in
      if ty = ''UPLOAD_INVOICE'' then
        Some (processUpload ft q extr sid (json_text j ''payload'' []) (json_text j ''mime_type'' ''application/octet-stream''))
      else if ty = ''USER_REPLY'' then Some (processUserReply q sid (json_text j ''text'' []))
      else if ty = ''REQUEST_FILING'' then Some (requestFiling q sid)
      else None)"

text \<open>The frames of the result, in order, or one chat message with the reason of the failure.\<close>

definition answer :: "(dbl \<Rightarrow> string) \<Rightarrow> PipelineResult pipe \<Rightarrow> unit handler" where
  "answer ft m g =
     (case m (pipeline g) of
        (Inr r, p) \<Rightarrow> foreachD (send_json ft) (pr_frames r) (g\<lparr>pipeline := p\<rparr>)
      | (Inl e, p) \<Rightarrow> send_json ft (errorChat (''Server error: '' @ c_str (what e))) (g\<lparr>pipeline := p\<rparr>))"

definition unrecognized :: "string \<Rightarrow> json" where
  "unrecognized ty = errorChat (''Unrecognized message type '' @ [CHR 0x27] @ ty @ [CHR 0x27] @ ''.'')"

lemma crow_of_string: "crow_of v = CString e s \<longleftrightarrow> v = JString s \<and> \<not> e"
  by (cases v) auto

lemma unescaped_string: "unescaped c = CString e s \<longleftrightarrow> (\<exists>esc raw. c = CString esc raw \<and> crow_text esc raw = s) \<and> \<not> e"
  by (cases c) auto

lemma text_of_member:
  assumes "unescaped c = crow_of v"
  shows "(case c of CString e r \<Rightarrow> crow_text e r | _ \<Rightarrow> d) = (case v of JString s \<Rightarrow> s | _ \<Rightarrow> d)"
proof (cases v)
  case (JString s)
  then show ?thesis using assms unescaped_string by auto
next
  case JNull
  then show ?thesis using assms by (cases c) auto
qed (use assms in \<open>cases c; auto split: if_splits\<close>)+

lemma map_of_members:
  "map (\<lambda>m. (fst m, unescaped (snd m))) ms = map (\<lambda>e. (fst e, crow_of (snd e))) es \<Longrightarrow>
     (case map_of ms key of None \<Rightarrow> map_of es key = None
      | Some c \<Rightarrow> \<exists>v. map_of es key = Some v \<and> unescaped c = crow_of v)"
  by (induction ms arbitrary: es) (auto split: option.splits)

text \<open>The fields the gateway reads are those of the value the text was written for.\<close>

lemma str_or_reads:
  assumes "member_sort srt" and "unescaped msg = crow_of j" and "wf_json j" and "is_object j"
  shows "str_or srt loose msg key d = Inr (json_text j key d)"
proof -
  obtain es where j: "j = JObject es" using assms(4) by (cases j) simp_all
  then obtain ms where ms: "msg = CObject ms" "map (\<lambda>m. (fst m, unescaped (snd m))) ms = map (\<lambda>e. (fst e, crow_of (snd e))) es"
    using assms(2) by (cases msg) auto
  have "map fst ms = map fst es" using arg_cong [OF ms(2), of "map fst"] by (simp add: o_def)
  then have "distinct (map fst ms)" using assms(3) j omap_inv_distinct by auto
  then have f: "find_member key (srt ms) = map_of ms key" using member_sort.find_member_distinct [OF assms(1)] by blast
  show ?thesis using map_of_members [OF ms(2), of key] text_of_member
    by (auto simp: str_or_def ms(1) f json_text_def j jfind_def omap_get_def split: option.splits)
qed

lemma errorChat_utf8: "json_utf8 (errorChat content) \<longleftrightarrow> well_formed_utf8 content"
  by (simp add: errorChat_def mk_object_def well_formed_utf8_run [of "''type''"] well_formed_utf8_run [of "''role''"]
      well_formed_utf8_run [of "''content''"] well_formed_utf8_run [of "''CHAT_MESSAGE''"]
      well_formed_utf8_run [of "''assistant''"] utf8_next_0 byte_of_def)

lemma unrecognized_utf8:
  assumes "well_formed_utf8 ty"
  shows "json_utf8 (unrecognized ty)"
proof -
  let ?h = "''Unrecognized message type '' @ [CHR 0x27]"
  have "well_formed_utf8 ?h" by (simp add: well_formed_utf8_run utf8_next_0 byte_of_def)
  moreover have "well_formed_utf8 (CHR 0x27 # ''.'')" by (simp add: well_formed_utf8_run utf8_next_0 byte_of_def)
  ultimately have "well_formed_utf8 (?h @ ty @ CHR 0x27 # ''.'')"
    using well_formed_suffix [of ?h] well_formed_suffix [OF assms] by blast
  then show ?thesis by (simp add: unrecognized_def errorChat_utf8)
qed

lemma json_text_utf8: "json_utf8 j \<Longrightarrow> is_object j \<Longrightarrow> well_formed_utf8 (json_text j key [])"
  by (cases j) (auto simp: json_text_def jfind_def omap_get_def well_formed_utf8_run dest!: map_of_SomeD split: option.splits json.splits)

text \<open>The end of \<open>onmessage\<close>, after the dispatch.\<close>

definition served_by :: "(dbl \<Rightarrow> string) \<Rightarrow> PipelineResult option handler \<Rightarrow> unit handler" where
  "served_by ft m =
     bindD (catchD m (\<lambda>e. bindD (send_json ft (errorChat (''Server error: '' @ c_str (what e)))) (\<lambda>_. liftD (Inr None))))
       (\<lambda>result. case result of None \<Rightarrow> liftD (Inr ()) | Some r \<Rightarrow> foreachD (send_json ft) (pr_frames r))"

lemma bind_none: "bindD (bindD m (\<lambda>_. liftD (Inr None))) (case_option (liftD (Inr ())) f) s = (m :: (socket, unit) op) s"
  by (auto simp: bindD_def liftD_def split: prod.splits sum.splits)

lemma served_by_answer: "served_by ft (bindD (on_pipeline m) (\<lambda>r. liftD (Inr (Some r)))) g = answer ft m g"
proof (cases "m (pipeline g)")
  case (Pair r p)
  show ?thesis
  proof (cases r)
    case (Inl e)
    then have "catchD (bindD (on_pipeline m) (\<lambda>r. liftD (Inr (Some r)))) h g = h e (g\<lparr>pipeline := p\<rparr>)" for h
      using Pair by (simp add: catchD_def bindD_def on_pipeline_def)
    then show ?thesis
      using Pair Inl bind_none [of "send_json ft (errorChat (''Server error: '' @ c_str (what e)))" _ "g\<lparr>pipeline := p\<rparr>"]
      by (simp add: served_by_def answer_def bindD_def del: append.simps)
  next
    case (Inr x)
    then show ?thesis using Pair by (simp add: served_by_def answer_def bindD_def catchD_def on_pipeline_def liftD_def)
  qed
qed

section \<open>Properties\<close>



text \<open>
  Property C36. That error does escape: when the part of a USER_REPLY its confirmation quotes, the
  first 240 bytes, is not well-formed UTF-8, the reply is archived and then the handler throws
  error 316 without sending anything, on a database that does not fail. The cut makes it so for
  a well-formed text with a multi-byte character across byte 240, and Crow for a short one
  with a character written as a pair of surrogate escapes.
\<close>

theorem split_preview_escapes:
  assumes "healthy q" and "userdata g = Some sid" and "sessions (pipeline g) sid = Some st"
    and "message_seq (repo (pipeline g)) + 2 \<le> i64_max" and "crow_load data = Some msg"
    and "str_or srt loose msg ''type'' [] = Inr ''USER_REPLY''" and "str_or srt loose msg ''text'' [] = Inr t"
    and "\<not> well_formed_utf8 (quoted_part t)"
  shows "\<exists>e g'. onmessage ft q extr srt loose data g = (Inl e, g') \<and> utf8_error e \<and> sent g' = sent g \<and>
    message_seq (repo (pipeline g')) = message_seq (repo (pipeline g)) + 2"
proof -
  obtain p' where r: "processUserReply q sid t (pipeline g) = (Inr \<lparr>pr_frames = [chatFrame ''assistant'' (reply_ack t) []],
      pr_session_status = sessionStatusToString (ss_status st)\<rparr>, p')"
    and m: "message_seq (repo p') = message_seq (repo (pipeline g)) + 2"
    using processUserReply_healthy [OF assms(1,3,4)] by blast
  have "\<not> json_utf8 (chatFrame ''assistant'' (reply_ack t) [])"
    using reply_ack_cut assms(8) chatFrame_utf8 by blast
  then obtain e where e: "dump ft (chatFrame ''assistant'' (reply_ack t) []) = Inl e" "utf8_error e"
    using dump_succeeds [of ft "chatFrame ''assistant'' (reply_ack t) []"] dump_fails [of ft "chatFrame ''assistant'' (reply_ack t) []"]
    by (cases "dump ft (chatFrame ''assistant'' (reply_ack t) [])") (auto simp: fails_with_def)
  have "dispatch ft q extr srt loose sid msg g = (Inr (Some \<lparr>pr_frames = [chatFrame ''assistant'' (reply_ack t) []],
      pr_session_status = sessionStatusToString (ss_status st)\<rparr>), g\<lparr>pipeline := p'\<rparr>)"
    using assms(6,7) r by (simp add: dispatch_def on_pipeline_def bindD_def liftD_def)
  then have "onmessage ft q extr srt loose data g = (Inl e, g\<lparr>pipeline := p'\<rparr>)"
    using assms(2,5) e(1) by (simp add: onmessage_def bindD_def catchD_def send_json_def liftD_def)
  then show ?thesis using e(2) m by simp
qed

text \<open>
  Property C25. What the startup lets through: with the shipped schema in the schema file, the
  extractor the server starts with keeps the contract of the extraction seam (a document that
  comes out conforms to the schema and can be stored), whatever the transport answers; in live
  mode it carries a key that is neither empty nor the placeholder; and the pipeline starts with
  no session in memory on the stored database.
\<close>

theorem startup_contract:
  assumes "startup env files open_fault schema_fault stored = Inr (x, p)"
    and "files (getEnv env ''GEMINI_SCHEMA_PATH'' ''./config/gemini_schema.json'') = Some content"
    and "parse content = Inr gemini_schema"
  shows "schema_extractor (extract_with ft post x) \<and>
    (getEnv env ''AI_MODE'' ''mock'' = ''live'' \<longrightarrow> (\<exists>g. x = Live g \<and> gc_api_key g \<noteq> [] \<and> gc_api_key g \<noteq> placeholder_key)) \<and>
    (getEnv env ''AI_MODE'' ''mock'' \<noteq> ''live'' \<longrightarrow> x = Mock) \<and> sessions p = Map.empty \<and>
    repo p = (case stored (getEnv env ''DATABASE_PATH'' ''./database/tax_sessions.db'') of None \<Rightarrow> empty_db | Some d \<Rightarrow> d)"
proof -
  have x: "makeExtractor env files = Inr x" and p: "sessions p = Map.empty \<and> repo p =
      (case stored (getEnv env ''DATABASE_PATH'' ''./database/tax_sessions.db'') of None \<Rightarrow> empty_db | Some d \<Rightarrow> d)"
    using assms(1) makePipeline_fields by (auto simp: startup_def bindE_eq_Inr Let_def)
  have live: "gc_schema g = gemini_schema" if "makeGemini key model True content 60 = Inr g" for key model g
    using that assms(3) by (auto simp: makeGemini_def bindE_eq_Inr on_parse_error_def)
  have key: "gc_api_key g = key" if "makeGemini key model True content 60 = Inr g" for key model g
    using that by (auto simp: makeGemini_def bindE_eq_Inr)
  show ?thesis
  proof (cases "getEnv env ''AI_MODE'' ''mock'' = ''live''")
    case True
    then obtain k model g where g: "makeGemini k model True content 60 = Inr g" "x = Live g" "k \<noteq> []" "k \<noteq> placeholder_key"
      using x assms(2) by (auto simp: makeExtractor_def readFileText_def bindE_eq_Inr Let_def split: if_splits)
    have "g = g\<lparr>gc_schema := gemini_schema\<rparr>" using live [OF g(1)] by simp
    then have "schema_extractor (extract_with ft post x)"
      using gemini.schema_extractor_axioms [of ft g post] g(2) by simp
    then show ?thesis using True g key [OF g(1)] p by auto
  next
    case False
    then have "x = Mock" using x assms(2) by (auto simp: makeExtractor_def readFileText_def bindE_eq_Inr Let_def)
    then show ?thesis using False p mock.schema_extractor_axioms by simp
  qed
qed

section \<open>Witnesses\<close>

definition server_s1 :: Pipeline where
  "server_s1 = \<lparr>rules = engine_2026, sessions = [''s1'' \<mapsto> SessionState0], repo = empty_db\<rparr>"

definition socket1 :: socket where
  "socket1 = \<lparr>pipeline = server_s1, userdata = Some ''s1'', sent = []\<rparr>"

text \<open>239 letters and an e with an acute accent.\<close>

definition long_note :: string where
  "long_note = replicate 239 CHR ''a'' @ [CHR 0xC3, CHR 0xA9]"

definition reply_json :: "string \<Rightarrow> json" where
  "reply_json t = mk_object [(''type'', JString ''USER_REPLY''), (''text'', JString t)]"

text \<open>A smiley as a client that writes ASCII only sends it: two escapes for one character.\<close>

definition escaped_smiley :: string where
  "escaped_smiley =
     ''{'' @ [CHR 0x22] @ ''type'' @ [CHR 0x22] @ '':'' @ [CHR 0x22] @ ''USER_REPLY'' @ [CHR 0x22] @ '','' @
     [CHR 0x22] @ ''text'' @ [CHR 0x22] @ '':'' @ [CHR 0x22, CHR 0x5C] @ ''ud83d'' @ [CHR 0x5C] @ ''ude00'' @ [CHR 0x22] @ ''}''"

lemma letters_utf8: "well_formed_utf8 (replicate n CHR ''a'')"
  by (induction n) (simp_all add: well_formed_utf8_run utf8_next_0 byte_of_def)

lemma long_note_cut: "240 < length long_note" "well_formed_utf8 long_note" "\<not> well_formed_utf8 (take 240 long_note)"
proof -
  have "take 240 long_note = replicate 239 CHR ''a'' @ [CHR 0xC3]" by (simp add: long_note_def)
  then show "\<not> well_formed_utf8 (take 240 long_note)"
    by (simp only: well_formed_suffix [OF letters_utf8]) (simp add: well_formed_utf8_run utf8_next_0 byte_of_def)
  show "well_formed_utf8 long_note"
    unfolding long_note_def well_formed_suffix [OF letters_utf8]
    by (simp add: well_formed_utf8_run utf8_next_0 utf8_next_rest byte_of_def)
qed (simp add: long_note_def)

definition two_escapes :: string where
  "two_escapes = CHR 0x5C # ''ud83d'' @ CHR 0x5C # ''ude00''"

definition smiley_members :: members where
  "smiley_members = [(''type'', CString False ''USER_REPLY''), (''text'', CString True two_escapes)]"

lemma smiley_loaded: "crow_load escaped_smiley = Some (CObject smiley_members)"
  by code_simp

lemma high_bytes:
  "char_of (237 :: nat) = CHR 0xED" "char_of (160 :: nat) = CHR 0xA0" "char_of (189 :: nat) = CHR 0xBD"
  "char_of (184 :: nat) = CHR 0xB8" "char_of (128 :: nat) = CHR 0x80"
  by code_simp+

lemma smiley_text: "crow_text True two_escapes = [CHR 0xED, CHR 0xA0, CHR 0xBD, CHR 0xED, CHR 0xB8, CHR 0x80]"
  by (simp add: crow_text_def two_escapes_def hex_code_def from_hex_def byte_of_def code_bytes_def high_bytes)

lemma smiley_read:
  "str_or key_sort loose (CObject smiley_members) ''type'' [] = Inr ''USER_REPLY''"
  "str_or key_sort loose (CObject smiley_members) ''text'' [] = Inr [CHR 0xED, CHR 0xA0, CHR 0xBD, CHR 0xED, CHR 0xB8, CHR 0x80]"
proof -
  have "find_member key (key_sort smiley_members) = map_of smiley_members key" for key
    by (rule keyed.find_member_distinct) (simp add: smiley_members_def)
  moreover have "crow_text False s = s" for s by (simp add: crow_text_def)
  ultimately show "str_or key_sort loose (CObject smiley_members) ''type'' [] = Inr ''USER_REPLY''"
    "str_or key_sort loose (CObject smiley_members) ''text'' [] = Inr [CHR 0xED, CHR 0xA0, CHR 0xBD, CHR 0xED, CHR 0xB8, CHR 0x80]"
    by (simp_all add: str_or_def) (simp_all add: smiley_members_def smiley_text)
qed

lemma reply_json_wf: "wf_json (reply_json t) \<and> is_object (reply_json t) \<and> no_floats (reply_json t) \<and> nest (reply_json t) \<le> 5000"
  by (simp add: reply_json_def mk_object_def omap_inv_def)

lemma reply_json_fields: "json_text (reply_json t) ''type'' [] = ''USER_REPLY''" "json_text (reply_json t) ''text'' [] = t"
  by (simp_all add: json_text_def reply_json_def mk_object_def jfind_def omap_get_def)

lemma reply_json_utf8: "json_utf8 (reply_json t) \<longleftrightarrow> well_formed_utf8 t"
  by (simp add: reply_json_def mk_object_def well_formed_utf8_run [of "''type''"] well_formed_utf8_run [of "''text''"]
      well_formed_utf8_run [of "''USER_REPLY''"] utf8_next_0 byte_of_def)

lemma socket1_fields: "userdata socket1 = Some ''s1''" "sessions (pipeline socket1) ''s1'' = Some SessionState0"
    "message_seq (repo (pipeline socket1)) + 2 \<le> i64_max" "sent socket1 = []"
  by (simp_all add: socket1_def server_s1_def empty_db_def i64_max_def)

theorem split_preview_escapes_witness:
  "(\<exists>data e g'. dump dyadic_text (reply_json long_note) = Inr data \<and>
      onmessage dyadic_text fine_sqlite (mockExtract two_codes) key_sort (\<lambda>_ _. False) data socket1 = (Inl e, g') \<and> utf8_error e \<and> sent g' = []) \<and>
   (\<exists>e g'. onmessage dyadic_text fine_sqlite (mockExtract two_codes) key_sort (\<lambda>_ _. False) escaped_smiley socket1 = (Inl e, g') \<and> utf8_error e \<and> sent g' = [])"
proof
  obtain data where d: "dump dyadic_text (reply_json long_note) = Inr data"
    using dump_succeeds reply_json_utf8 long_note_cut(2) by blast
  obtain msg where msg: "crow_load data = Some msg" "unescaped msg = crow_of (reply_json long_note)"
    using load_reads [OF dump_read [OF d]] reply_json_wf [of long_note] by auto
  have f: "str_or key_sort l msg key d = Inr (json_text (reply_json long_note) key d)" for key d l
    using str_or_reads [OF keyed.member_sort_axioms msg(2)] reply_json_wf [of long_note] by blast
  have "\<not> well_formed_utf8 (quoted_part long_note)" using long_note_cut by (simp add: quoted_part_def)
  then show "\<exists>data e g'. dump dyadic_text (reply_json long_note) = Inr data \<and>
      onmessage dyadic_text fine_sqlite (mockExtract two_codes) key_sort (\<lambda>_ _. False) data socket1 = (Inl e, g') \<and> utf8_error e \<and> sent g' = []"
    using split_preview_escapes [where srt = key_sort and loose = "\<lambda>_ _. False" and t = long_note, OF fine_sqlite_healthy socket1_fields(1-3) msg(1)]
      f reply_json_fields socket1_fields(4) d by metis
  have "\<not> well_formed_utf8 (quoted_part [CHR 0xED, CHR 0xA0, CHR 0xBD, CHR 0xED, CHR 0xB8, CHR 0x80])"
    by (simp add: quoted_part_def well_formed_utf8_run utf8_next_0 utf8_next_rest byte_of_def)
  then show "\<exists>e g'. onmessage dyadic_text fine_sqlite (mockExtract two_codes) key_sort (\<lambda>_ _. False) escaped_smiley socket1 = (Inl e, g') \<and> utf8_error e \<and> sent g' = []"
    using split_preview_escapes [OF fine_sqlite_healthy socket1_fields(1-3) smiley_loaded smiley_read] socket1_fields(4) by metis
qed


definition live_env :: environment where
  "live_env = [''AI_MODE'' \<mapsto> ''live'', ''GEMINI_API_KEY'' \<mapsto> ''k'', ''PORT'' \<mapsto> '' +8090x'']"

lemma schema_text: "\<exists>content. parse content = Inr gemini_schema \<and> content \<noteq> []"
proof -
  have "json_utf8 gemini_schema"
    by (simp add: gemini_schema_defs mk_object_def well_formed_utf8_run utf8_next_0 byte_of_def)
  then obtain content where c: "dump dyadic_text gemini_schema = Inr content" using dump_succeeds by blast
  have "wf_json gemini_schema" by code_simp
  moreover have "floats_ok gemini_schema" by code_simp
  moreover have "norm_json gemini_schema = gemini_schema" by code_simp
  ultimately have "parse content = Inr gemini_schema" using dyadic.parse_dump_norm [OF _ _ c] by simp
  moreover have "parse [] \<noteq> Inr gemini_schema"
  proof -
    have "case parse [] of Inl _ \<Rightarrow> True | Inr _ \<Rightarrow> False" by code_simp
    then show ?thesis by (cases "parse []") simp_all
  qed
  ultimately show ?thesis by blast
qed

theorem startup_contract_witness:
  "\<exists>files x p. startup live_env files None None (\<lambda>_. None) = Inr (x, p) \<and>
     schema_extractor (extract_with dyadic_text (\<lambda>url token payload t. transport_failed ''offline'') x) \<and>
     (\<exists>g. x = Live g \<and> gc_api_key g = ''k'') \<and> getEnvInt live_env ''PORT'' 8080 = Some 8090"
proof -
  obtain content where c: "parse content = Inr gemini_schema" "content \<noteq> []" using schema_text by blast
  define files where "files = [''./config/gemini_schema.json'' \<mapsto> content, ''./config/rules_2026.json'' \<mapsto> ''[]'']"
  have e: "getEnv live_env ''AI_MODE'' d = ''live''" "getEnv live_env ''GEMINI_API_KEY'' d = ''k''"
    "getEnv live_env ''GEMINI_SCHEMA_PATH'' d = d" "getEnv live_env ''GEMINI_MODEL'' d = d"
    "getEnv live_env ''RULES_CONFIG_PATH'' d = d" "getEnv live_env ''DATABASE_PATH'' d = d" for d
    by (simp_all add: getEnv_def live_env_def)
  have f: "files ''./config/gemini_schema.json'' = Some content" "files ''./config/rules_2026.json'' = Some ''[]''"
    by (simp_all add: files_def)
  have "parse ''[]'' = Inr (JArray [])" by code_simp
  moreover have "loadEngine (JArray []) = Inr \<lparr>engine_rules = [], thresholds = JNull\<rparr>" by code_simp
  ultimately obtain g p where s: "startup live_env files None None (\<lambda>_. None) = Inr (Live g, p)" and k: "gc_api_key g = ''k''"
    using c by (auto simp: startup_def makeExtractor_def e f readFileText_def makeGemini_def placeholder_key_def on_parse_error_def
        makePipeline_def loadRulesConfig_def open_repository_def)
  have "getEnvInt live_env ''PORT'' 8080 = Some 8090" by code_simp
  moreover have "schema_extractor (extract_with dyadic_text (\<lambda>url token payload t. transport_failed ''offline'') (Live g))"
    using startup_contract [OF s, of content dyadic_text "\<lambda>url token payload t. transport_failed ''offline''"] c(1) e f
    by simp
  ultimately show ?thesis using s k by blast
qed

end
