(* ===== verification/Isolation.thy ===== *)
theory Isolation
  imports PipelineLaws
begin

text \<open>
  Sessions do not touch each other: a handler called for one session leaves the rows and the
  memory of every other session as they are, whatever fails. \<open>leaves f m\<close> says that \<open>m\<close> does not
  change the part \<open>f\<close> of the state; the rules are collected in \<open>frames\<close>. The line items, which no
  query of the program reads, are left out of the comparison.
\<close>

named_theorems frames \<open>operations that leave a part of the state alone\<close>

section \<open>Frames\<close>

definition leaves :: "('s \<Rightarrow> 'x) \<Rightarrow> ('s, 'a) op \<Rightarrow> bool" where
  "leaves f m \<longleftrightarrow> (\<forall>s. f (snd (m s)) = f s)"

lemma leavesI: "(\<And>s. f (snd (m s)) = f s) \<Longrightarrow> leaves f m"
  by (simp add: leaves_def)

lemma leavesD: "leaves f m \<Longrightarrow> f (snd (m s)) = f s"
  by (simp add: leaves_def)

lemma leaves_keeps: "(\<And>x. keeps (\<lambda>s. f s = x) m) \<Longrightarrow> leaves f m"
  by (rule leavesI) (rule keeps_snd, assumption, rule refl)

lemma leaves_bind [frames]: "leaves f m \<Longrightarrow> (\<And>x. leaves f (g x)) \<Longrightarrow> leaves f (bindD m g)"
  by (rule leavesI) (auto simp: bindD_def dest: leavesD split: prod.split sum.split; metis leavesD snd_conv)

lemma leaves_lift [frames]: "leaves f (liftD r)"
  by (rule leavesI) (simp add: liftD_def)

lemma leaves_modify [frames]: "(\<And>s. f (h s) = f s) \<Longrightarrow> leaves f (modifyD h)"
  by (rule leavesI) (simp add: modifyD_def)

lemma leaves_if [frames]: "leaves f a \<Longrightarrow> leaves f b \<Longrightarrow> leaves f (if c then a else b)"
  by simp

lemma leaves_catch [frames]: "leaves f m \<Longrightarrow> (\<And>e. leaves f (h e)) \<Longrightarrow> leaves f (catchD m h)"
  by (rule leavesI) (auto simp: catchD_def split: prod.split sum.split; metis leavesD snd_conv)

lemma leaves_foreach [frames]: "(\<And>x. leaves f (g x)) \<Longrightarrow> leaves f (foreachD g xs)"
  by (induction xs) (auto intro: frames)

lemma leaves_option: "leaves f m \<Longrightarrow> (\<And>x. leaves f (g x)) \<Longrightarrow> leaves f (case v of None \<Rightarrow> m | Some x \<Rightarrow> g x)"
  by (cases v) auto

section \<open>The rows of the other sessions\<close>

definition foreign :: "string \<Rightarrow> db \<Rightarrow> session_row list \<times> invoice_row list \<times> chat_row list" where
  "foreign sid d =
     (filter (\<lambda>r. sr_session_id r \<noteq> c_str sid) (tax_sessions d),
      filter (\<lambda>r. ir_session_id r \<noteq> c_str sid) (invoices d),
      filter (\<lambda>r. cr_session_id r \<noteq> c_str sid) (chat_messages d))"

lemma foreign_fields [simp]:
  "foreign sid (tick d) = foreign sid d"
  "foreign sid (d\<lparr>line_rows := ls, line_seq := i\<rparr>) = foreign sid d"
  by (simp_all add: foreign_def tick_def)

interpretation foreign_rows: read_invariant "\<lambda>d. foreign sid d = rows" for sid rows
  by unfold_locales simp

lemma leaves_step:
  assumes "\<And>now d i d'. effect now d = Inr (i, d') \<Longrightarrow> foreign sid d' = foreign sid d"
  shows "leaves (foreign sid) (step q who effect)"
  by (rule leaves_keeps, rule foreign_rows.keeps_step) (use assms in simp)

lemmas leaves_reads [frames] =
  leaves_keeps [OF foreign_rows.keeps_prepare] leaves_keeps [OF foreign_rows.keeps_sessionExists]
  leaves_keeps [OF foreign_rows.keeps_invoicesForSession]

lemma leaves_createSession [frames]: "leaves (foreign sid) (createSession q sid)"
  unfolding createSession_def
  by (intro frames leaves_step) (auto simp: insert_session_def foreign_def split: if_splits)

lemma update_status_foreign:
  "filter (\<lambda>r. sr_session_id r \<noteq> s) (map (\<lambda>r. if sr_session_id r = s then r\<lparr>sr_status := st, sr_updated_at := now\<rparr> else r) rs) =
     filter (\<lambda>r. sr_session_id r \<noteq> s) rs"
  by (induction rs) auto

lemma leaves_setSessionStatus [frames]: "leaves (foreign sid) (setSessionStatus q sid st)"
  unfolding setSessionStatus_def
  by (intro frames leaves_step) (auto simp: update_status_def foreign_def update_status_foreign split: if_splits)

lemma leaves_addChatMessage [frames]: "leaves (foreign sid) (addChatMessage q sid role content action)"
  unfolding addChatMessage_def
  by (intro frames leaves_step) (auto simp: insert_message_def foreign_def Let_def split: if_splits)

lemma leaves_save_lines [frames]: "leaves (foreign sid) (save_lines q i n lis)"
proof (induction lis arbitrary: n)
  case (Cons li lis)
  then show ?case unfolding save_lines.simps
    by (intro frames leaves_step) (auto simp: insert_line_def Let_def split: if_splits)
qed (auto intro: frames)

lemma leaves_saveExtraction [frames]: "leaves (foreign sid) (saveExtraction ft q sid fn mt m doc ws)"
  unfolding saveExtraction_def
  by (intro frames leaves_step)
    (auto simp: insert_invoice_def invoice_row_of_def foreign_def Let_def split: if_splits)

section \<open>The handlers\<close>

text \<open>What a handler for \<open>sid\<close> has to leave alone.\<close>

definition others :: "string \<Rightarrow> Pipeline \<Rightarrow> (string \<Rightarrow> SessionState option) \<times> session_row list \<times> invoice_row list \<times> chat_row list" where
  "others sid p = ((sessions p)(sid := None), foreign sid (repo p))"

lemma leaves_repo [frames]: "leaves (foreign sid) m \<Longrightarrow> leaves (others sid) (on_repo m)"
  by (rule leavesI) (simp add: others_def leavesD)

lemma leaves_put [frames]: "leaves (others sid) (modifyD (put_session sid st))"
  by (rule leaves_modify) (simp add: others_def)

lemma leaves_archive_frame [frames]: "leaves (others sid) (archive_frame q sid f)"
  unfolding archive_frame_def by (intro frames)

lemma leaves_record_upload [frames]: "leaves (others sid) (record_upload ft q sid st mime doc m rs)"
  unfolding record_upload_def Let_def by (intro frames)

lemma leaves_processUpload [frames]: "leaves (others sid) (processUpload ft q extr sid data mime)"
  by (rule leavesI) (auto simp: processUpload_def leavesD [OF leaves_record_upload] split: option.split sum.split exn.split)

lemma leaves_processUserReply [frames]: "leaves (others sid) (processUserReply q sid t)"
proof (rule leavesI)
  fix p
  have "leaves (others sid) (bindD (on_repo (addChatMessage q sid ''user'' t [])) (\<lambda>_.
     bindD (on_repo (addChatMessage q sid ''assistant'' (reply_ack t) [])) (\<lambda>_. liftD x)))" for x :: "PipelineResult result"
    by (intro frames)
  then show "others sid (snd (processUserReply q sid t p)) = others sid p"
    by (simp add: processUserReply_def leavesD split: option.split)
qed

lemma leaves_closeSession [frames]: "leaves (others sid) (closeSession q sid)"
proof (rule leavesI)
  fix p
  have "leaves (others sid) (bindD (modifyD (put_session sid st)) (\<lambda>_. on_repo (setSessionStatus q sid s)))" for st s
    by (intro frames)
  then show "others sid (snd (closeSession q sid p)) = others sid p"
    by (simp add: closeSession_def leavesD split: option.split)
qed

lemma leaves_openSession: "leaves (others (uuid4 gen)) (openSession q gen)"
  unfolding openSession_def Let_def by (intro frames)

lemma leaves_adopt_session [frames]: "leaves (others sid) (adopt_session q sid)"
proof (rule leavesI)
  fix p
  have "leaves (others sid) (bindD (on_repo (sessionExists q sid)) (\<lambda>known.
      if \<not> known then liftD (Inr None)
      else bindD (modifyD (put_session sid SessionState0)) (\<lambda>_. liftD (Inr (Some SessionState0)))))"
    by (intro frames)
  then show "others sid (snd (adopt_session q sid p)) = others sid p"
    by (simp add: adopt_session_def leavesD split: option.split)
qed

lemma leaves_requestFiling [frames]: "leaves (others sid) (requestFiling q sid)"
  unfolding requestFiling_def file_invoices_def gather_invoices_def Let_def by (intro frames leaves_option)

section \<open>Sessions stay in memory\<close>

abbreviation in_memory :: "string \<Rightarrow> Pipeline \<Rightarrow> bool" where
  "in_memory s \<equiv> \<lambda>p. sessions p s \<noteq> None"

lemma in_memory_repo: "keeps (in_memory s) (on_repo m)"
  by (intro keepsI) simp

lemma in_memory_put: "keeps (in_memory s) (modifyD (put_session sid st))"
  by (rule keeps_modify) simp

lemma in_memory_archive_frame: "keeps (in_memory s) (archive_frame q sid f)"
  unfolding archive_frame_def by (intro triples in_memory_repo)

lemmas in_memory_intros = triples in_memory_repo in_memory_put in_memory_archive_frame

lemma in_memory_others: "others sid p' = others sid p \<Longrightarrow> sid \<noteq> s \<Longrightarrow> in_memory s p \<Longrightarrow> in_memory s p'"
  by (auto simp: others_def dest: fun_cong [of _ _ s])

text \<open>A handler that only runs for a session in memory need only be followed for that session.\<close>

lemma in_memoryI:
  assumes "leaves (others sid) m" and "\<And>p. in_memory sid p \<Longrightarrow> in_memory sid (snd (m p))"
  shows "keeps (in_memory s) m"
  using assms(2) in_memory_others [OF leavesD [OF assms(1)]] by (cases "s = sid") (auto intro: keepsI)

lemma in_memory_processUpload: "keeps (in_memory s) (processUpload ft q extr sid data mime)"
proof (rule in_memoryI [OF leaves_processUpload])
  have "keeps (in_memory sid) (record_upload ft q sid st mime doc m rs)" for st doc m rs
    unfolding record_upload_def Let_def by (intro in_memory_intros)
  note keeps_snd [OF this]
  then show "in_memory sid p \<Longrightarrow> in_memory sid (snd (processUpload ft q extr sid data mime p))" for p
    by (auto simp: processUpload_def split: option.split sum.split exn.split)
qed

lemma in_memory_processUserReply: "keeps (in_memory s) (processUserReply q sid t)"
proof (rule in_memoryI [OF leaves_processUserReply])
  have "keeps (in_memory sid) (bindD (on_repo (addChatMessage q sid ''user'' t [])) (\<lambda>_.
     bindD (on_repo (addChatMessage q sid ''assistant'' (reply_ack t) [])) (\<lambda>_. liftD x)))" for x :: "PipelineResult result"
    by (intro in_memory_intros)
  note keeps_snd [OF this]
  then show "in_memory sid p \<Longrightarrow> in_memory sid (snd (processUserReply q sid t p))" for p
    by (auto simp: processUserReply_def split: option.split)
qed

lemma in_memory_closeSession: "keeps (in_memory s) (closeSession q sid)"
proof (rule in_memoryI [OF leaves_closeSession])
  have "keeps (in_memory sid) (bindD (modifyD (put_session sid st)) (\<lambda>_. on_repo (setSessionStatus q sid x)))" for st x
    by (intro in_memory_intros)
  note keeps_snd [OF this]
  then show "in_memory sid p \<Longrightarrow> in_memory sid (snd (closeSession q sid p))" for p
    by (auto simp: closeSession_def split: option.split)
qed

lemma in_memory_openSession: "keeps (in_memory s) (openSession q gen)"
  unfolding openSession_def Let_def by (intro in_memory_intros)

lemma in_memory_adopt_session: "keeps (in_memory s) (adopt_session q sid)"
proof (rule in_memoryI [OF leaves_adopt_session])
  show "in_memory sid p \<Longrightarrow> in_memory sid (snd (adopt_session q sid p))" for p
    by (auto simp: adopt_session_def)
qed

lemma keeps_option: "keeps I m \<Longrightarrow> (\<And>x. keeps I (g x)) \<Longrightarrow> keeps I (case v of None \<Rightarrow> m | Some x \<Rightarrow> g x)"
  by (cases v) auto

lemma in_memory_requestFiling: "keeps (in_memory s) (requestFiling q sid)"
  unfolding requestFiling_def file_invoices_def gather_invoices_def Let_def
  by (intro in_memory_intros in_memory_adopt_session keeps_option)

lemma openSession_in_memory: "openSession q gen p = (Inr sid, p') \<Longrightarrow> in_memory sid p'"
  by (auto simp: openSession_def Let_def bindD_eq_Inr modifyD_def)

end
