(* ===== verification/Server.thy ===== *)
theory Server
  imports Gateway Isolation
begin

text \<open>
  The server as a whole: one pipeline and the open sockets, each with its user data and the texts
  sent on it, moved by the three callbacks of main.cpp in any order, with any bytes in the
  messages and any outcome of the SQLite calls. What one socket can do to the sessions of the
  others, and what holds in every state.
\<close>

section \<open>What the callbacks leave alone\<close>

definition extends :: "string list \<Rightarrow> string list \<Rightarrow> bool" where
  "extends ts ts' \<longleftrightarrow> (\<exists>new. ts' = ts @ new)"

lemma extends_refl: "extends ts ts"
  by (simp add: extends_def)

lemma extends_snoc: "extends ts ts' \<Longrightarrow> extends ts (ts' @ [t])"
  by (auto simp: extends_def)

text \<open>The part of a socket no message on it may change, for the session it is bound to.\<close>

definition confined :: "string \<Rightarrow> socket \<Rightarrow> socket \<Rightarrow> bool" where
  "confined sid g g' \<longleftrightarrow> userdata g' = userdata g \<and> extends (sent g) (sent g') \<and> others sid (pipeline g') = others sid (pipeline g)"

lemma send_json_keeps:
  "userdata (snd (send_json ft j g)) = userdata g \<and> pipeline (snd (send_json ft j g)) = pipeline g \<and>
     extends (sent g) (sent (snd (send_json ft j g)))"
  by (auto simp: send_json_def bindD_def liftD_def modifyD_def extends_def split: sum.split)

lemma confined_send: "keeps (confined sid g) (send_json ft j)"
proof -
  have "confined sid g g1 \<Longrightarrow> confined sid g (g1\<lparr>sent := sent g1 @ [t]\<rparr>)" for t g1
    by (simp add: confined_def extends_snoc)
  then show ?thesis unfolding send_json_def by (intro triples)
qed

lemma confined_pipeline: "leaves (others sid) m \<Longrightarrow> keeps (confined sid g) (on_pipeline m)"
  by (rule keepsI) (auto simp: confined_def on_pipeline_def leaves_def split: prod.split; metis snd_conv)

lemma confined_dispatch: "keeps (confined sid g) (dispatch ft q extr srt loose sid msg)"
  unfolding dispatch_def
  by (intro triples confined_send confined_pipeline leaves_processUpload leaves_processUserReply leaves_requestFiling)

lemma confined_onmessage:
  assumes "userdata g = Some sid"
  shows "confined sid g (snd (onmessage ft q extr srt loose data g))"
proof -
  have "confined sid g g" by (simp add: confined_def extends_refl)
  moreover have "keeps (confined sid g) (bindD (catchD (dispatch ft q extr srt loose sid msg) (\<lambda>e.
      bindD (send_json ft (errorChat (''Server error: '' @ c_str (what e)))) (\<lambda>_. liftD (Inr None))))
      (\<lambda>result. case result of None \<Rightarrow> liftD (Inr ()) | Some r \<Rightarrow> foreachD (send_json ft) (pr_frames r)))" for msg
    by (intro triples keeps_option confined_send confined_dispatch)
  ultimately show ?thesis
    using assms by (auto simp: onmessage_def intro: keeps_snd confined_send split: option.split)
qed


section \<open>The frames\<close>

text \<open>A value made of objects and strings only.\<close>

fun text_only :: "json \<Rightarrow> bool" where
  "text_only (JObject es) \<longleftrightarrow> omap_inv es \<and> (\<forall>e \<in> set es. text_only (snd e))"
| "text_only (JString s) \<longleftrightarrow> True"
| "text_only _ \<longleftrightarrow> False"

lemma text_only_parses: "text_only j \<Longrightarrow> wf_json j \<and> floats_ok j \<and> norm_json j = j"
proof (induction j rule: text_only.induct)
  case (1 es)
  then have "norm_json (snd e) = snd e" if "e \<in> set es" for e using that by simp
  then have "map (\<lambda>e. (fst e, norm_json (snd e))) es = es" by (intro map_idI) simp
  then show ?case using 1 by simp
qed simp_all

definition text_frame :: "json \<Rightarrow> bool" where
  "text_frame j \<longleftrightarrow> is_object j \<and> text_only j"

lemma omap_put_snd: "x \<in> snd ` set (omap_put k v es) \<Longrightarrow> x = v \<or> x \<in> snd ` set es"
  by (induction es) (auto split: if_splits)

definition text_members :: "(string \<times> json) list \<Rightarrow> bool" where
  "text_members es \<longleftrightarrow> omap_inv es \<and> (\<forall>e \<in> set es. text_only (snd e))"

lemma text_members_put: "text_members es \<Longrightarrow> text_only v \<Longrightarrow> text_members (omap_put k v es)"
  using omap_inv_put omap_put_snd unfolding text_members_def by (metis image_iff)

lemma text_members_fold:
  "text_members m \<Longrightarrow> \<forall>e \<in> set es. text_only (snd e) \<Longrightarrow> text_members (fold (\<lambda>(k, v). omap_put k v) es m)"
  by (induction es arbitrary: m) (auto simp: text_members_put)

lemma text_frame_mk_object: "\<forall>e \<in> set es. text_only (snd e) \<Longrightarrow> text_frame (mk_object es)"
  using text_members_fold [of "[]" "rev es"] by (simp add: text_frame_def mk_object_def text_members_def omap_inv_def)

lemma text_frame_jset: "text_frame j \<Longrightarrow> text_only v \<Longrightarrow> text_frame (jset j k v)"
  using text_members_put by (cases j) (simp_all add: text_frame_def text_members_def)

lemma text_frame_chat: "text_frame (chatFrame role content act)"
  by (simp add: chatFrame_def Let_def text_frame_mk_object text_frame_jset)

lemma text_frame_gateway: "text_frame (errorChat content)" "text_frame (sessionInitFrame sid)"
  by (simp_all add: errorChat_def sessionInitFrame_def text_frame_mk_object)

lemma text_frame_filing: "filing_ready ms = Inr j \<Longrightarrow> text_frame j"
  using text_frame_mk_object by (auto simp: filing_ready_def bindE_eq_Inr text_frame_def intro!: text_frame_mk_object)

text \<open>Every result of a handler is made of such frames.\<close>

definition framed :: "PipelineResult \<Rightarrow> bool" where
  "framed r \<longleftrightarrow> list_all text_frame (pr_frames r)"

abbreviation gives_frames :: "PipelineResult pipe \<Rightarrow> bool" where
  "gives_frames m \<equiv> \<forall>p r p'. m p = (Inr r, p') \<longrightarrow> framed r"

lemma framed_constants: "framed unknown_session" "framed no_invoices" "framed (one_frame content)"
  by (simp_all add: framed_def unknown_session_def no_invoices_def one_frame_def text_frame_chat)

lemma framed_processUpload: "gives_frames (processUpload ft q extr sid data mime)"
proof -
  have "framed r" if "record_upload ft q sid st mime doc m rs p = (Inr r, p')" for st doc m rs p r p'
  proof -
    have "pr_frames r = upload_frames rs" using that by (auto simp: record_upload_def Let_def bindD_eq_Inr)
    then show ?thesis by (simp add: framed_def upload_frames_def gap_frames_def Let_def text_frame_chat list_all_iff)
  qed
  then show ?thesis
    by (auto simp: processUpload_def framed_constants split: option.splits sum.splits exn.splits)
qed

lemma framed_processUserReply: "gives_frames (processUserReply q sid t)"
proof -
  have "framed \<lparr>pr_frames = [chatFrame ''assistant'' c []], pr_session_status = x\<rparr>" for c x
    by (simp add: framed_def text_frame_chat)
  then show ?thesis by (auto simp: processUserReply_def framed_constants bindD_eq_Inr split: option.splits)
qed

lemma framed_requestFiling: "gives_frames (requestFiling q sid)"
proof -
  have "framed r" if "file_invoices q sid st ms p = (Inr r, p')" for st ms p r p'
    using that text_frame_filing by (auto simp: file_invoices_def Let_def bindD_eq_Inr framed_def)
  then show ?thesis
    by (auto simp: requestFiling_def bindD_eq_Inr framed_constants split: option.splits if_splits)
qed

section \<open>Reachable servers\<close>

record server =
  srv_pipeline :: Pipeline
  conns :: "nat \<Rightarrow> (string option \<times> string list) option"

definition socket_of :: "server \<Rightarrow> string option \<times> string list \<Rightarrow> socket" where
  "socket_of s c = \<lparr>pipeline = srv_pipeline s, userdata = fst c, sent = snd c\<rparr>"

definition after :: "nat \<Rightarrow> socket \<Rightarrow> server \<Rightarrow> server" where
  "after i g s = \<lparr>srv_pipeline = pipeline g, conns = (conns s)(i \<mapsto> (userdata g, sent g))\<rparr>"

text \<open>
  Started with no socket on any pipeline a sequence of runs and restarts can leave; a callback
  runs to its end, returning or throwing, before the next one starts.
\<close>

inductive serving :: "(dbl \<Rightarrow> string) \<Rightarrow> server \<Rightarrow> bool" for ft where
  boot: "reachable ft p \<Longrightarrow> serving ft \<lparr>srv_pipeline = p, conns = Map.empty\<rparr>"
| opened: "serving ft s \<Longrightarrow> conns s i = None \<Longrightarrow>
     serving ft (after i (snd (onopen ft q gen (socket_of s (None, [])))) s)"
| message: "serving ft s \<Longrightarrow> conns s i = Some c \<Longrightarrow>
     serving ft (after i (snd (onmessage ft q extr srt loose data (socket_of s c))) s)"
| closed: "serving ft s \<Longrightarrow> conns s i = Some c \<Longrightarrow>
     serving ft \<lparr>srv_pipeline = pipeline (snd (onclose q (socket_of s c))), conns = (conns s)(i := None)\<rparr>"

section \<open>What the callbacks preserve\<close>

definition grows :: "(dbl \<Rightarrow> string) \<Rightarrow> Pipeline \<Rightarrow> Pipeline \<Rightarrow> bool" where
  "grows ft p p' \<longleftrightarrow> (reachable ft p \<longrightarrow> reachable ft p') \<and> (\<forall>s. in_memory s p \<longrightarrow> in_memory s p')"

lemma grows_refl: "grows ft p p"
  by (simp add: grows_def)

lemma grows_trans: "grows ft p p1 \<Longrightarrow> grows ft p1 p2 \<Longrightarrow> grows ft p p2"
  unfolding grows_def by blast

lemma snd_void: "snd (void m p) = snd (m p)"
  by (auto simp: void_def bindD_def liftD_def split: prod.split sum.split)

lemma grows_call: "(\<And>s. keeps (in_memory s) m) \<Longrightarrow> snd (m p) = snd (perform ft q c p) \<Longrightarrow> grows ft p (snd (m p))"
  unfolding grows_def using keeps_snd [of "in_memory s" m p for s] by (simp add: reachable.called)

lemma grows_calls:
  "grows ft p (snd (openSession q gen p))" "grows ft p (snd (closeSession q sid p))"
  "grows ft p (snd (processUpload ft q extr sid data mime p))" "grows ft p (snd (processUserReply q sid t p))"
  "grows ft p (snd (requestFiling q sid p))"
proof -
  note p = snd_void perform.simps
  show "grows ft p (snd (openSession q gen p))"
    by (rule grows_call [OF in_memory_openSession, where c = "Open gen"]) (simp add: p)
  show "grows ft p (snd (closeSession q sid p))"
    by (rule grows_call [OF in_memory_closeSession, where c = "Close sid"]) (simp add: p)
  show "grows ft p (snd (processUpload ft q extr sid data mime p))"
    by (rule grows_call [OF in_memory_processUpload, where c = "Upload extr sid data mime"]) (simp add: p)
  show "grows ft p (snd (processUserReply q sid t p))"
    by (rule grows_call [OF in_memory_processUserReply, where c = "Reply sid t"]) (simp add: p)
  show "grows ft p (snd (requestFiling q sid p))"
    by (rule grows_call [OF in_memory_requestFiling, where c = "File sid"]) (simp add: p)
qed

text \<open>
  The invariant of a callback that started in \<open>g0\<close>: the pipeline has only made calls, and every
  text sent is the dump of a frame.
\<close>

definition frames_sent :: "(dbl \<Rightarrow> string) \<Rightarrow> string list \<Rightarrow> bool" where
  "frames_sent ft ts \<longleftrightarrow> (\<forall>t \<in> set ts. \<exists>j. text_frame j \<and> dump ft j = Inr t)"

definition safe :: "(dbl \<Rightarrow> string) \<Rightarrow> socket \<Rightarrow> socket \<Rightarrow> bool" where
  "safe ft g0 g \<longleftrightarrow> grows ft (pipeline g0) (pipeline g) \<and> frames_sent ft (sent g)"

lemma safe_send: "text_frame j \<Longrightarrow> keeps (safe ft g0) (send_json ft j)"
  by (rule keepsI) (auto simp: send_json_def bindD_def liftD_def modifyD_def safe_def frames_sent_def split: sum.split)

lemma safe_call:
  assumes "\<And>p. grows ft p (snd (m p))" and "gives_frames m"
  shows "triple (safe ft g0) (on_pipeline m) (\<lambda>r g. safe ft g0 g \<and> framed r) (\<lambda>_. safe ft g0)"
proof -
  have "safe ft g0 g \<Longrightarrow> safe ft g0 (g\<lparr>pipeline := snd (m (pipeline g))\<rparr>)" for g
    using grows_trans [OF _ assms(1)] by (simp add: safe_def)
  then show ?thesis using assms(2)
    by (intro tripleI) (auto simp: on_pipeline_def split: prod.splits; metis snd_conv)+
qed

lemma triple_if: "triple P a Q E \<Longrightarrow> triple P b Q E \<Longrightarrow> triple P (if c then a else b) Q E"
  by simp

lemma triple_keeps: "keeps I m \<Longrightarrow> triple I m (\<lambda>_. I) (\<lambda>_. I)"
  by (simp add: keeps_def)

lemma safe_dispatch:
  "triple (safe ft g0) (dispatch ft q extr srt loose sid msg)
     (\<lambda>r g. safe ft g0 g \<and> (\<forall>x. r = Some x \<longrightarrow> framed x)) (\<lambda>_. safe ft g0)"
proof -
  have field: "triple (safe ft g0) (bindD (liftD x) f) Q (\<lambda>_. safe ft g0)" if "\<And>y. triple (safe ft g0) (f y) Q (\<lambda>_. safe ft g0)"
    for x :: "string result" and f and Q :: "PipelineResult option \<Rightarrow> socket \<Rightarrow> bool"
    using triple_bind [OF triple_keeps [OF keeps_lift] that] .
  have call: "triple (safe ft g0) (bindD (on_pipeline m) (\<lambda>r. liftD (Inr (Some r))))
      (\<lambda>r g. safe ft g0 g \<and> (\<forall>x. r = Some x \<longrightarrow> framed x)) (\<lambda>_. safe ft g0)"
    if "\<And>p. grows ft p (snd (m p))" "gives_frames m" for m
    by (rule triple_bind [OF safe_call [OF that]]) (simp add: triple_def liftD_def)
  have reply: "triple (safe ft g0) (bindD (send_json ft (errorChat c)) (\<lambda>_. liftD (Inr None)))
      (\<lambda>r g. safe ft g0 g \<and> (\<forall>x. r = Some x \<longrightarrow> framed x)) (\<lambda>_. safe ft g0)" for c
    by (rule triple_bind [OF triple_keeps [OF safe_send [OF text_frame_gateway(1)]]]) (simp add: triple_def liftD_def)
  show ?thesis unfolding dispatch_def
    by (intro field triple_if reply call grows_calls framed_processUpload framed_processUserReply framed_requestFiling)
qed

lemma safe_onmessage: "safe ft g g \<Longrightarrow> safe ft g (snd (onmessage ft q extr srt loose data g))"
proof -
  assume ok: "safe ft g g"
  have send: "keeps (safe ft g) (send_json ft (errorChat c))" for c
    by (rule safe_send [OF text_frame_gateway(1)])
  have d: "keeps (safe ft g) (bindD (catchD (dispatch ft q extr srt loose sid msg) (\<lambda>e.
      bindD (send_json ft (errorChat (''Server error: '' @ c_str (what e)))) (\<lambda>_. liftD (Inr None))))
      (\<lambda>result. case result of None \<Rightarrow> liftD (Inr ()) | Some r \<Rightarrow> foreachD (send_json ft) (pr_frames r)))" for sid msg
    unfolding keeps_def
  proof (rule triple_bind)
    show "triple (safe ft g) (catchD (dispatch ft q extr srt loose sid msg) (\<lambda>e.
        bindD (send_json ft (errorChat (''Server error: '' @ c_str (what e)))) (\<lambda>_. liftD (Inr None))))
        (\<lambda>r g'. safe ft g g' \<and> (\<forall>x. r = Some x \<longrightarrow> framed x)) (\<lambda>_. safe ft g)"
      by (rule triple_catch [OF safe_dispatch], rule triple_bind [OF triple_keeps [OF send]]) (simp add: triple_def liftD_def)
    have "keeps (safe ft g) (foreachD (send_json ft) (pr_frames r))" if "framed r" for r
      using that by (intro keeps_foreach safe_send) (simp add: framed_def list_all_iff)
    then show "triple (\<lambda>g'. safe ft g g' \<and> (\<forall>x. r = Some x \<longrightarrow> framed x))
        (case r of None \<Rightarrow> liftD (Inr ()) | Some r \<Rightarrow> foreachD (send_json ft) (pr_frames r)) (\<lambda>_. safe ft g) (\<lambda>_. safe ft g)" for r
      by (cases r) (auto simp: keeps_def triple_def liftD_def)
  qed
  show ?thesis using ok keeps_snd [OF send] keeps_snd [OF d] by (simp add: onmessage_def split: option.split)
qed

text \<open>Opening binds the socket to a session in memory, also when the first frame cannot be sent.\<close>

definition bound_safe :: "(dbl \<Rightarrow> string) \<Rightarrow> socket \<Rightarrow> socket \<Rightarrow> bool" where
  "bound_safe ft g0 g \<longleftrightarrow> safe ft g0 g \<and> (\<forall>sid. userdata g = Some sid \<longrightarrow> in_memory sid (pipeline g))"

lemma bound_safe_send:
  assumes "text_frame j"
  shows "keeps (bound_safe ft g0) (send_json ft j)"
  using keeps_snd [OF safe_send [OF assms]] send_json_keeps [of ft j] by (intro keepsI) (simp add: bound_safe_def)

lemma bound_safe_open:
  assumes "bound_safe ft g0 g" and "on_pipeline (openSession q gen) g = (r, g')"
  shows "bound_safe ft g0 g'" and "r = Inr sid \<Longrightarrow> in_memory sid (pipeline g')"
proof -
  obtain p where p: "openSession q gen (pipeline g) = (r, p)" "g' = g\<lparr>pipeline := p\<rparr>"
    using assms(2) by (auto simp: on_pipeline_def split: prod.splits)
  have "grows ft (pipeline g) p" using grows_calls(1) [of ft "pipeline g" q gen] p(1) by simp
  then show "bound_safe ft g0 g'"
    using assms(1) p(2) grows_trans by (auto simp: bound_safe_def safe_def grows_def)
  show "r = Inr sid \<Longrightarrow> in_memory sid (pipeline g')" using p openSession_in_memory by simp
qed

lemma bound_safe_onopen: "bound_safe ft g g \<Longrightarrow> bound_safe ft g (snd (onopen ft q gen g))"
proof -
  have o: "triple (bound_safe ft g) (on_pipeline (openSession q gen))
      (\<lambda>sid g'. bound_safe ft g g' \<and> in_memory sid (pipeline g')) (\<lambda>_. bound_safe ft g)"
    by (rule tripleI) (use bound_safe_open in blast)+
  have bind: "triple (\<lambda>g'. bound_safe ft g g' \<and> in_memory sid (pipeline g')) (modifyD (userdata_update (\<lambda>_. Some sid)))
      (\<lambda>_. bound_safe ft g) (\<lambda>_. bound_safe ft g)" for sid
    by (rule tripleI) (auto simp: modifyD_def bound_safe_def safe_def)
  have send: "triple (bound_safe ft g) (send_json ft j) (\<lambda>_. bound_safe ft g) (\<lambda>_. bound_safe ft g)" if "text_frame j" for j
    using bound_safe_send [OF that] by (simp add: keeps_def)
  have "keeps (bound_safe ft g) (onopen ft q gen)"
    unfolding keeps_def onopen_def
    by (rule triple_catch [OF triple_bind [OF o triple_bind [OF bind send]] send]) (rule text_frame_gateway)+
  then show "bound_safe ft g g \<Longrightarrow> bound_safe ft g (snd (onopen ft q gen g))" by (rule keeps_snd)
qed

lemma grows_onclose: "grows ft (pipeline g) (pipeline (snd (onclose q g)))"
proof -
  have "pipeline (snd (onclose q g)) = (case userdata g of None \<Rightarrow> pipeline g | Some sid \<Rightarrow> snd (closeSession q sid (pipeline g)))"
    by (auto simp: onclose_def bindD_def on_pipeline_def modifyD_def split: option.split prod.split sum.split)
  then show ?thesis using grows_calls(2) grows_refl by (auto split: option.split)
qed

lemma userdata_onmessage: "userdata (snd (onmessage ft q extr srt loose data g)) = userdata g"
proof (cases "userdata g")
  case None
  then show ?thesis using send_json_keeps by (simp add: onmessage_def)
next
  case (Some sid)
  then show ?thesis using confined_onmessage [OF Some] by (simp add: confined_def)
qed

section \<open>The invariant of the server\<close>

definition server_ok :: "(dbl \<Rightarrow> string) \<Rightarrow> server \<Rightarrow> bool" where
  "server_ok ft s \<longleftrightarrow> reachable ft (srv_pipeline s) \<and>
     (\<forall>i u ts. conns s i = Some (u, ts) \<longrightarrow>
        (\<forall>sid. u = Some sid \<longrightarrow> in_memory sid (srv_pipeline s)) \<and> frames_sent ft ts)"

lemma server_ok_after:
  assumes "server_ok ft s" and "grows ft (srv_pipeline s) (pipeline g)" and "frames_sent ft (sent g)"
    and "\<And>sid. userdata g = Some sid \<Longrightarrow> in_memory sid (pipeline g)"
  shows "server_ok ft (after i g s)"
  using assms unfolding server_ok_def after_def grows_def by (auto split: if_splits)

lemma serving_ok: "serving ft s \<Longrightarrow> server_ok ft s"
proof (induction rule: serving.induct)
  case (boot p)
  then show ?case by (simp add: server_ok_def)
next
  case (opened s i q gen)
  let ?g = "socket_of s (None, [])"
  have "bound_safe ft ?g ?g" by (simp add: bound_safe_def safe_def socket_of_def grows_refl frames_sent_def)
  from bound_safe_onopen [OF this] show ?case
    using opened.IH by (intro server_ok_after) (simp_all add: bound_safe_def safe_def socket_of_def)
next
  case (message s i c q extr srt loose data)
  let ?g = "socket_of s c" let ?h = "snd (onmessage ft q extr srt loose data ?g)"
  have c: "frames_sent ft (snd c)" "\<And>sid. fst c = Some sid \<Longrightarrow> in_memory sid (srv_pipeline s)"
    using message by (cases c, auto simp: server_ok_def)+
  then have h: "safe ft ?g ?h"
    by (intro safe_onmessage) (simp add: safe_def socket_of_def grows_refl)
  then have "userdata ?h = Some sid \<Longrightarrow> in_memory sid (pipeline ?h)" for sid
    using c(2) userdata_onmessage [of ft q extr srt loose data ?g] by (simp add: safe_def grows_def socket_of_def)
  then show ?case using message.IH h by (intro server_ok_after) (simp_all add: safe_def socket_of_def)
next
  case (closed s i c q)
  have "grows ft (srv_pipeline s) (pipeline (snd (onclose q (socket_of s c))))"
    using grows_onclose [of ft "socket_of s c" q] by (simp add: socket_of_def)
  then show ?case using closed.IH unfolding server_ok_def grows_def by (auto split: if_splits)
qed

text \<open>
  Property C7. In every state of the server, after any interleaving of opened, closed and
  served sockets, with any bytes in the messages, any extractor and any failures of SQLite: the
  pipeline is one that a run of its own operations reaches, so its integrity holds; every open
  socket that is bound to a session is bound to a row of the database; and every text that was
  ever sent on an open socket is a JSON object the parser of json.hpp reads back.
\<close>

theorem sockets_served:
  assumes "serving ft s" and "float_printer ft"
  shows "reachable ft (srv_pipeline s) \<and> db_ok (repo (srv_pipeline s)) \<and>
    (\<forall>i u ts. conns s i = Some (u, ts) \<longrightarrow>
       (\<forall>sid. u = Some sid \<longrightarrow> session_known (repo (srv_pipeline s)) (c_str sid)) \<and>
       (\<forall>t \<in> set ts. \<exists>j. is_object j \<and> parse t = Inr j))"
proof -
  have s: "server_ok ft s" using serving_ok [OF assms(1)] .
  then have p: "pipeline_ok (srv_pipeline s)" using reachable_ok unfolding server_ok_def by blast
  have "\<exists>j. is_object j \<and> parse t = Inr j" if "text_frame j" "dump ft j = Inr t" for j t
    using float_printer.parse_dump_norm [OF assms(2)] text_only_parses that unfolding text_frame_def by metis
  moreover have "session_known (repo (srv_pipeline s)) (c_str sid)" if "in_memory sid (srv_pipeline s)" for sid
    using p that by (auto simp: pipeline_ok_def)
  ultimately show ?thesis using s p unfolding server_ok_def frames_sent_def pipeline_ok_def by blast
qed

section \<open>A run\<close>

lemma garbage_answered:
  "\<exists>t. sent (snd (onmessage dyadic_text q extr srt loose ''oops'' g)) = sent g @ [t]"
proof -
  have "crow_load ''oops'' = None" by code_simp
  moreover have "\<exists>t. dump dyadic_text (errorChat ''Message is not valid JSON.'') = Inr t"
    "\<exists>t. dump dyadic_text (errorChat (''No session is bound to this socket. '' @
       ''Reconnect to /ws to start a new session.'')) = Inr t"
    unfolding dump_succeeds errorChat_utf8 by (simp_all add: well_formed_utf8_run utf8_next_0 byte_of_def)
  ultimately show ?thesis
    by (auto simp: onmessage_def send_json_def bindD_def liftD_def modifyD_def split: option.split)
qed

text \<open>A socket is opened and sends a text that is not JSON.\<close>

theorem sockets_served_witness:
  "\<exists>s u t ts. serving dyadic_text s \<and> conns s 0 = Some (u, ts @ [t]) \<and> db_ok (repo (srv_pipeline s)) \<and>
     (\<exists>j. is_object j \<and> parse t = Inr j)"
proof -
  obtain content where "makePipeline ''rules_2026.json'' (Some content) None None ''tax.db'' None = Inr server0"
    using start0 by blast
  then have "reachable dyadic_text server0" by (rule reachable.started) simp
  then have b: "serving dyadic_text \<lparr>srv_pipeline = server0, conns = Map.empty\<rparr>" (is "serving _ ?s0")
    by (rule serving.boot)
  define g1 where "g1 = snd (onopen dyadic_text fine_sqlite gen0 (socket_of ?s0 (None, [])))"
  define s1 where "s1 = after 0 g1 ?s0"
  have s1: "serving dyadic_text s1" unfolding s1_def g1_def by (rule serving.opened [OF b]) simp
  have c1: "conns s1 0 = Some (userdata g1, sent g1)" by (simp add: s1_def after_def)
  define g2 where "g2 = snd (onmessage dyadic_text fine_sqlite (mockExtract two_codes) key_sort (\<lambda>_ _. False) ''oops''
    (socket_of s1 (userdata g1, sent g1)))"
  have s2: "serving dyadic_text (after 0 g2 s1)" unfolding g2_def by (rule serving.message [OF s1 c1])
  have "\<exists>t. sent g2 = sent (socket_of s1 (userdata g1, sent g1)) @ [t]" unfolding g2_def by (rule garbage_answered)
  then obtain t where "sent g2 = sent g1 @ [t]" by (auto simp: socket_of_def)
  then have c2: "conns (after 0 g2 s1) 0 = Some (userdata g2, sent g1 @ [t])" by (simp add: after_def)
  from sockets_served [OF s2 dyadic.float_printer_axioms] c2
  have "db_ok (repo (srv_pipeline (after 0 g2 s1)))" "\<exists>j. is_object j \<and> parse t = Inr j" by auto
  then show ?thesis using s2 c2 by blast
qed

end
