(* ===== verification/Json_Termination.thy ===== *)
theory Json_Termination
  imports Json_Parser
begin

text \<open>
  How long the parser runs. \<open>sax_steps n\<close> is the loop of \<open>sax_parse_internal\<close> cut off after \<open>n\<close>
  iterations (\<open>None\<close> when it is not done by then); a number of iterations linear in the length of
  the input is enough for every input, malformed ones included.
\<close>

fun sax_steps :: "nat \<Rightarrow> bool \<Rightarrow> parser \<Rightarrow> parser result option" where
  "sax_steps 0 skip p = None"
| "sax_steps (Suc n) skip p =
     (case if skip then Inr (False, p) else value_switch p of
        Inl e \<Rightarrow> Some (Inl e)
      | Inr (cont, p1) \<Rightarrow>
          if cont then sax_steps n False p1
          else (case state_eval p1 of
            Inl e \<Rightarrow> Some (Inl e)
          | Inr (None, p2) \<Rightarrow> Some (Inr p2)
          | Inr (Some sk, p2) \<Rightarrow> sax_steps n sk p2))"

lemma sax_steps_enough: "fuel p < n \<Longrightarrow> sax_steps n skip p = Some (sax_loop skip p)"
proof (induction n arbitrary: skip p)
  case (Suc n)
  show ?case
  proof (cases "if skip then Inr (False, p) else value_switch p")
    case (Inl e)
    then show ?thesis by (simp add: sax_loop.simps [of skip p])
  next
    case (Inr x)
    obtain cont p1 where x: "x = (cont, p1)" by fastforce
    show ?thesis
    proof (cases cont)
      case True
      then have "fuel p1 < fuel p" using Inr x value_switch_fuel by (cases skip) auto
      then show ?thesis using Inr x True Suc by (simp add: sax_loop.simps [of skip p])
    next
      case False
      have l: "left p1 \<le> left p" using Inr x False value_switch_left by (cases skip) auto
      show ?thesis
      proof (cases "state_eval p1")
        case (Inl e)
        then show ?thesis using Inr x False by (simp add: sax_loop.simps [of skip p])
      next
        case e: (Inr y)
        obtain r p2 where y: "y = (r, p2)" by fastforce
        show ?thesis
        proof (cases r)
          case None
          then show ?thesis using Inr x y e False by (simp add: sax_loop.simps [of skip p])
        next
          case (Some sk)
          then have "fuel p2 < 2 * left p1" using e y state_eval_fuel by simp
          then have "fuel p2 < n" using l Suc.prems by (simp add: fuel_def [of p])
          then show ?thesis using Inr x y e False Some Suc.IH by (simp add: sax_loop.simps [of skip p])
        qed
      qed
    qed
  qed
qed simp

lemma fuel_parser0: "fuel (parser0 s) \<le> 2 * length s"
  using fuel_get_token [of "\<lparr>m_lexer = lexer0 s, last_token = Uninitialized, root = JNull, ref_stack = [], states = []\<rparr>"]
  by (simp add: parser0_def lexer0_def pending_def)

text \<open>
  Property C31. The parser terminates in linear time: on every input of \<open>n\<close> bytes, well-formed or
  not, the loop of \<open>sax_parse_internal\<close> is left (with a value or an exception) after at most
  \<open>2 n + 1\<close> iterations.
\<close>

theorem parse_linear:
  "sax_steps (2 * length s + 1) False (parser0 s) = Some (sax_loop False (parser0 s))"
  using fuel_parser0 [of s] by (intro sax_steps_enough) simp

end
