(* ===== verification/Spec2Isabelle.thy ===== *)
theory Spec2Isabelle
  imports GSTRGenerator MockExtractor Rules_2026 Schema_Walk Server Json_Termination
begin

text \<open>
  The verification library of the MSME tax assistant: the C++ backend under backend/src, which
  takes invoices over a WebSocket, has a document extracted from each, validates it, applies the
  GST rules of config/rules_2026.json, stores it in SQLite and files the GST returns as CSV.

  \<^bold>\<open>The program.\<close> main.cpp builds a \<open>Pipeline\<close> from an extractor (\<open>GeminiClient\<close> over an HTTP
  transport, or \<open>MockExtractor\<close>), a rules file and a database, and maps each WebSocket message
  to one of its handlers. An upload goes extractor, \<open>StateMatrix::validateAndSanitize\<close>,
  \<open>RuleEngine::evaluate\<close>, \<open>InvoiceRepository::saveExtraction\<close>; a filing takes the matrices of the
  session from memory or, after a restart, from the stored documents, and writes them with
  \<open>GSTRGenerator\<close>. Documents are nlohmann::json values; what is stored is their dump, and what is
  read back is parsed and validated again, so the program relies on that library's \<open>dump\<close> and
  \<open>parse\<close> being inverse to each other, and the parts of json.hpp it uses are modelled as well.

  \<^bold>\<open>Theories and code.\<close>
    \<^item> Prelude: exceptions (\<open>exn\<close>, one constructor per class of the code), results
      (\<open>exn + 'a\<close>), 64-bit wrap-around (\<open>i64\<close>), C division, decimal printing, the string functions
      of the standard library, sorted association lists (\<open>std::map\<close>). Effects: stateful operations
      that can throw, and Hoare triples for them. Doubles: binary64 as rounded rationals
      (\<open>rnd\<close>, round to nearest even), with infinities and NaN.
    \<^item> Json_Value, Json_Dump, Json_Lexer, Json_Parser, Json_Termination, Json_Roundtrip,
      Json_Parsed (backend/include/json.hpp): the values and the accesses the program makes, the
      strict serializer with its UTF-8 automaton, the lexer and the stack-machine parser with
      their error messages, and the proofs that they fit together. A shortest-digits float
      printer is a parameter (locale \<open>float_printer\<close>: it prints what reads back), interpreted on
      dyadic numbers.
    \<^item> StateMatrix (StateMatrix.cpp): money and rate conversion, the tax split, the validator.
      Schema_Walk: the walk over config/gemini_schema.json, \<open>gemini_schema\<close>. MockExtractor: the
      built-in document.
    \<^item> RuleEngine (RuleEngine.cpp): loading and evaluating rules, message templates. Rules_2026:
      the shipped rules file, \<open>rules_2026\<close>, and what its seven rules decide.
    \<^item> GSTRGenerator (GSTRGenerator.cpp): the three returns and an independent CSV reader.
    \<^item> HttpClient (WinHttpClient.cpp, CurlHttpClient.cpp), GeminiClient (GeminiClient.cpp): URL
      parsing, the requests as they go on the wire, the errors of the transports, and the live
      extractor with its schema gate.
    \<^item> InvoiceRepository (InvoiceRepository.cpp), Rehydration, Ledger: the tables, every operation
      on them, the ledger of a session and the invariants of the database.
    \<^item> Pipeline (Pipeline.cpp), PipelineLaws, PipelineBooks, PipelineRuns: the handlers, the
      integrity of the reachable states, the books of the sessions, the properties of runs.
    \<^item> Isolation: what the handlers of one session leave alone (\<open>leaves\<close>), and that sessions stay in
      memory.
    \<^item> CrowJson, CrowRoundtrip, CrowBounds (backend/include/crow/json.h): \<open>crow::json::load\<close>, which
      reads the messages of the clients, as a total function on the bytes of a message, the
      strings and the member lookup of \<open>rvalue\<close>, and the two JSON libraries against each other.
    \<^item> Gateway (main.cpp): configuration, extractor selection, startup, the socket handlers.
      Server: the open sockets over one pipeline, moved by those handlers in any order.

  \<^bold>\<open>Correspondence.\<close> A struct is a record and an enum a datatype, under the names of the source (a
  field gets a prefix where the name clashes). A function that can throw returns a result; a
  stateful one returns the state it leaves as well, also when it throws, for no operation of the
  program is a transaction. The database is the list of the rows of its tables; SQLite's
  statements have their SQL meaning, and which SQLite call fails, with which message, and the
  clock are the parameter \<open>sqlite\<close>. The transports (\<open>post\<close>), the outputs of the random generator,
  the environment, the file system and the order in which \<open>std::sort\<close> leaves equal keys are
  parameters in the same way. The public methods of \<open>Pipeline\<close> hold one mutex for their whole
  body, and Crow runs its callbacks on one worker thread, so a run is a sequence of calls.

  \<^bold>\<open>What is shown.\<close>
    \<^item> Money: amounts and rates with two decimals are converted exactly, the tax is the statutory
      one rounded half up, a split adds up; overflow is an exception and never a wrong amount. The
      returns read back as the rows written, their totals are the exact sums over the lines and
      agree between the HSN summary and GSTR-3B.
    \<^item> Documents: the schema walk decides a declarative conformance relation, a conforming
      document can be rejected with \<open>invalid_argument\<close> only, a validated matrix satisfies the bounds
      the returns need; the verdicts of the shipped rules are functions of the matrix.
    \<^item> JSON: dump and parse are inverse, dump fails exactly on invalid UTF-8, parse ends after a
      linear number of steps, throws two classes of exceptions and returns well-formed values.
      Crow reads what dump writes, up to 5000 levels of nesting, which nothing it accepts exceeds.
    \<^item> Persistence: the tables keep their integrity under every call and every failure; saving a
      validated document appends its matrix to the ledger, reading returns the ledger.
    \<^item> The server: integrity of every reachable state, refinement of the ledger by the handlers,
      filings that do not depend on a restart and go through when they should, verdicts recorded
      alike in the answer, in memory and in the database, exceptions reported to the client. A
      message does what the pipeline call it stands for does; no bytes on one socket touch the
      session of another, and no interleaving of sockets breaks the integrity of the server.

  \<^bold>\<open>Interfaces.\<close> \<open>float_printer\<close> (what the serializer needs of the float printer),
  \<open>http_transport\<close> (what GeminiClient needs of a transport; interpreted on both transports),
  \<open>schema_extractor\<close> (what the pipeline needs of an extractor; interpreted on both extractors),
  \<open>member_sort\<close> (what the lookup of a message field needs of \<open>std::sort\<close>),
  \<open>read_invariant\<close>, \<open>writer_invariant\<close>, \<open>session_invariant\<close>, \<open>ledger_invariant\<close> and
  \<open>table_invariant\<close> (what a property of the tables has to survive so that the operations that
  only read, or write sessions, transcript or ledger, preserve it; interpreted on the integrity
  of the tables, on the known sessions and on the parts an operation leaves alone).

  \<^bold>\<open>Bounds.\<close> A money field is at most 10^15 paise (the validator's bound); under it, and with at
  most \<open>max_lines\<close> = 3000 lines in a filing, no 64-bit sum of a return wraps. AUTOINCREMENT
  counters end at the largest 64-bit integer, which the hypotheses on room exclude. Recursions are
  proved terminating; there is no fuel except in \<open>sax_steps\<close>, which counts iterations.

  \<^bold>\<open>Not modelled.\<close> The vendored libraries beyond what is named above (Crow, asio, SQLite, the
  rest of nlohmann::json): the program only calls them. In main.cpp the static routes, logging
  and the run of the server; in InvoiceRepository.cpp the creation of the directory of the
  database file. The schema script under database is a copy the program does not load. The
  contents of memory after an undefined behaviour: \<open>atoi\<close> out of range is \<open>None\<close>, and a member
  lookup in a list, which compares keys that were never set, gives an arbitrary answer (\<open>loose\<close>)
  where it could also crash.
\<close>

end
